(* ===== verification/Prelude.thy ===== *)
theory Prelude
  imports Complex_Main "HOL-Library.Char_ord" "HOL-Library.List_Lexorder"
    "HOL-Library.Product_Lexorder" "HOL-Library.AList" "HOL-Library.Multiset"
begin

text \<open>
  Shared ground of the development.

  Python strings are Isabelle strings: a \<open>char\<close> stands for the code point 0 to 255 it
  encodes, so the string methods below follow Python on Latin-1 text (case mapping,
  white space, identifiers). Comparison of strings is by code point, as in Python.
  Exceptions are values of \<open>py_error\<close>, and a fallible function returns
  \<open>py_error + 'a\<close>, sequenced by \<open>bind_e\<close>. Dicts whose insertion order matters
  are association lists updated with \<open>AList.update\<close>, which keeps the position of an
  existing key as a Python dict does.
\<close>

named_theorems py_simps \<open>evaluation rules of the Python fragments\<close>

section \<open>Exceptions\<close>

datatype py_error =
    ValueError string
  | KeyError string
  | TypeError string
  | AttributeError string
  | IndexError
  | OverflowError
  | ZeroDivisionError
  | ValidationError string
  | NotImplementedError
  | GatewayError string
  | UnknownSourceError string "string list"
  | HTTPException int string
  | ExportNotFoundError string bool

type_synonym 'a result = "py_error + 'a"

definition bind_e :: "'a result \<Rightarrow> ('a \<Rightarrow> 'b result) \<Rightarrow> 'b result" where
  "bind_e m f = (case m of Inl e \<Rightarrow> Inl e | Inr x \<Rightarrow> f x)"

lemma bind_e_simps [simp, py_simps]:
  "bind_e (Inl e) f = Inl e"
  "bind_e (Inr x) f = f x"
  by (simp_all add: bind_e_def)

lemma bind_e_Inr_iff: "bind_e m f = Inr y \<longleftrightarrow> (\<exists>x. m = Inr x \<and> f x = Inr y)"
  by (cases m) auto

lemma bind_e_InrE:
  assumes "bind_e m f = Inr y"
  obtains x where "m = Inr x" and "f x = Inr y"
  using assms by (auto simp: bind_e_Inr_iff)

lemma bind_e_assoc: "bind_e (bind_e m f) g = bind_e m (\<lambda>x. bind_e (f x) g)"
  by (cases m) auto

text \<open>A \<open>for\<close> loop whose body may raise, threading its state.\<close>

fun fold_e :: "('a \<Rightarrow> 's \<Rightarrow> 's result) \<Rightarrow> 'a list \<Rightarrow> 's \<Rightarrow> 's result" where
  "fold_e f [] s = Inr s"
| "fold_e f (x # xs) s = bind_e (f x s) (fold_e f xs)"

lemma fold_e_append: "fold_e f (xs @ ys) s = bind_e (fold_e f xs s) (fold_e f ys)"
proof (induction xs arbitrary: s)
  case (Cons x xs)
  then show ?case by (cases "f x s") simp_all
qed simp

lemma fold_e_invariant:
  assumes "fold_e f xs s = Inr s'" and "P s"
    and "\<And>x t t'. x \<in> set xs \<Longrightarrow> P t \<Longrightarrow> f x t = Inr t' \<Longrightarrow> P t'"
  shows "P s'"
  using assms
proof (induction xs arbitrary: s)
  case Nil
  then show ?case by simp
next
  case (Cons x xs)
  from Cons.prems(1) obtain t where "f x s = Inr t" and "fold_e f xs t = Inr s'"
    by (auto elim: bind_e_InrE)
  with Cons show ?case by (metis list.set_intros)
qed

lemma fold_e_total:
  assumes "\<And>x t. x \<in> set xs \<Longrightarrow> f x t = Inr (g x t)"
  shows "fold_e f xs s = Inr (fold g xs s)"
  using assms by (induction xs arbitrary: s) auto

fun map_e :: "('a \<Rightarrow> 'b result) \<Rightarrow> 'a list \<Rightarrow> 'b list result" where
  "map_e f [] = Inr []"
| "map_e f (x # xs) = bind_e (f x) (\<lambda>y. bind_e (map_e f xs) (\<lambda>ys. Inr (y # ys)))"

lemma map_e_length: "map_e f xs = Inr ys \<Longrightarrow> length ys = length xs"
  by (induction xs arbitrary: ys) (auto elim!: bind_e_InrE)

lemma map_e_total: "(\<And>x. x \<in> set xs \<Longrightarrow> f x = Inr (g x)) \<Longrightarrow> map_e f xs = Inr (map g xs)"
  by (induction xs) auto

section \<open>Strings\<close>

abbreviation newline :: char where
  "newline \<equiv> CHR 0x0A"

definition ord_of :: "char \<Rightarrow> nat" where
  "ord_of c = of_char c"

definition in_range :: "char \<Rightarrow> char \<Rightarrow> char \<Rightarrow> bool" where
  "in_range lo hi c \<longleftrightarrow> ord_of lo \<le> ord_of c \<and> ord_of c \<le> ord_of hi"

definition char_lower :: "char \<Rightarrow> char" where
  "char_lower c =
     (if in_range CHR ''A'' CHR ''Z'' c \<or> (in_range CHR 0xC0 CHR 0xDE c \<and> c \<noteq> CHR 0xD7)
      then char_of (ord_of c + 32) else c)"

definition py_lower :: "string \<Rightarrow> string" where
  "py_lower s = map char_lower s"

definition is_space :: "char \<Rightarrow> bool" where
  "is_space c \<longleftrightarrow> in_range CHR 0x09 CHR 0x0D c \<or> in_range CHR 0x1C CHR 0x20 c
     \<or> c = CHR 0x85 \<or> c = CHR 0xA0"

definition py_lstrip :: "string \<Rightarrow> string" where
  "py_lstrip s = dropWhile is_space s"

definition py_strip :: "string \<Rightarrow> string" where
  "py_strip s = rev (dropWhile is_space (rev (dropWhile is_space s)))"

fun py_join :: "string \<Rightarrow> string list \<Rightarrow> string" where
  "py_join sep [] = []"
| "py_join sep [x] = x"
| "py_join sep (x # y # ys) = x @ sep @ py_join sep (y # ys)"

fun is_prefix :: "string \<Rightarrow> string \<Rightarrow> bool" where
  "is_prefix [] s = True"
| "is_prefix (c # cs) [] = False"
| "is_prefix (c # cs) (d # ds) = (c = d \<and> is_prefix cs ds)"

definition is_suffix :: "string \<Rightarrow> string \<Rightarrow> bool" where
  "is_suffix p s = is_prefix (rev p) (rev s)"

text \<open>
  \<open>str.split(sep)\<close> for a non-empty \<open>sep\<close>: occurrences are taken left to right and do
  not overlap. The counter is the rest of an occurrence still to be skipped.
\<close>

fun split_from :: "string \<Rightarrow> nat \<Rightarrow> string \<Rightarrow> string list" where
  "split_from sep k [] = [[]]"
| "split_from sep (Suc k) (c # cs) = split_from sep k cs"
| "split_from sep 0 (c # cs) =
     (if is_prefix sep (c # cs) then [] # split_from sep (length sep - 1) cs
      else case split_from sep 0 cs of [] \<Rightarrow> [[c]] | x # xs \<Rightarrow> (c # x) # xs)"

definition py_split :: "string \<Rightarrow> string \<Rightarrow> string list" where
  "py_split sep s = split_from sep 0 s"

text \<open>\<open>sep in s\<close>, and \<open>s.partition(sep)\<close> without its middle part.\<close>

fun contains :: "string \<Rightarrow> string \<Rightarrow> bool" where
  "contains sep [] = (sep = [])"
| "contains sep (c # cs) = (is_prefix sep (c # cs) \<or> contains sep cs)"

text \<open>\<open>str.split()\<close>: the maximal runs of characters that are not white space.\<close>

fun words_from :: "string \<Rightarrow> string \<Rightarrow> string list" where
  "words_from cur [] = (if cur = [] then [] else [rev cur])"
| "words_from cur (c # cs) =
     (if is_space c then (if cur = [] then words_from [] cs else rev cur # words_from [] cs)
      else words_from (c # cur) cs)"

definition py_words :: "string \<Rightarrow> string list" where
  "py_words s = words_from [] s"

definition py_replace_char :: "char \<Rightarrow> char \<Rightarrow> string \<Rightarrow> string" where
  "py_replace_char a b s = map (\<lambda>c. if c = a then b else c) s"

text \<open>Decimal rendering, as \<open>str\<close> and f-strings do it for \<open>int\<close>.\<close>

definition digit_char :: "nat \<Rightarrow> char" where
  "digit_char n = char_of (48 + n mod 10)"

fun str_of_nat :: "nat \<Rightarrow> string" where
  "str_of_nat n = (if n < 10 then [digit_char n] else str_of_nat (n div 10) @ [digit_char n])"

declare str_of_nat.simps [simp del]

definition str_of_int :: "int \<Rightarrow> string" where
  "str_of_int i = (if i < 0 then CHR ''-'' # str_of_nat (nat (- i)) else str_of_nat (nat i))"

text \<open>\<open>str.isidentifier\<close> on Latin-1 text.\<close>

definition is_id_start :: "char \<Rightarrow> bool" where
  "is_id_start c \<longleftrightarrow> in_range CHR ''a'' CHR ''z'' c \<or> in_range CHR ''A'' CHR ''Z'' c
     \<or> c = CHR ''_'' \<or> c = CHR 0xAA \<or> c = CHR 0xB5 \<or> c = CHR 0xBA
     \<or> (in_range CHR 0xC0 CHR 0xFF c \<and> c \<noteq> CHR 0xD7 \<and> c \<noteq> CHR 0xF7)"

definition is_id_char :: "char \<Rightarrow> bool" where
  "is_id_char c \<longleftrightarrow> is_id_start c \<or> in_range CHR ''0'' CHR ''9'' c \<or> c = CHR 0xB7"

definition is_identifier :: "string \<Rightarrow> bool" where
  "is_identifier s = (case s of [] \<Rightarrow> False | c # cs \<Rightarrow> is_id_start c \<and> list_all is_id_char cs)"

lemma py_lower_length [simp]: "length (py_lower s) = length s"
  by (simp add: py_lower_def)

lemma is_prefix_iff: "is_prefix p s \<longleftrightarrow> (\<exists>r. s = p @ r)"
  by (induction p s rule: is_prefix.induct) auto

lemma py_join_append:
  "xs \<noteq> [] \<Longrightarrow> ys \<noteq> [] \<Longrightarrow> py_join sep (xs @ ys) = py_join sep xs @ sep @ py_join sep ys"
proof (induction sep xs rule: py_join.induct)
  case (2 sep x)
  then show ?case by (cases ys) auto
qed auto

lemma py_join_snoc: "xs \<noteq> [] \<Longrightarrow> py_join sep (xs @ [x]) = py_join sep xs @ sep @ x"
  by (simp add: py_join_append)

lemma split_from_nonempty [simp]: "split_from sep k s \<noteq> []"
  by (induction sep k s rule: split_from.induct) (auto split: list.splits)

lemma split_from_skip: "k \<le> length s \<Longrightarrow> split_from sep k s = split_from sep 0 (drop k s)"
proof (induction k arbitrary: s)
  case (Suc k)
  then show ?case by (cases s) auto
qed simp

lemma split_step_match:
  assumes "sep \<noteq> []"
  shows "split_from sep 0 (sep @ r) = [] # split_from sep 0 r"
proof -
  from assms obtain d ds where sep: "sep = d # ds" by (cases sep) auto
  have "is_prefix sep (sep @ r)" by (auto simp: is_prefix_iff)
  then show ?thesis using split_from_skip [of "length ds" "ds @ r" sep] by (simp add: sep)
qed

lemma split_step_skip:
  assumes "\<not> is_prefix sep (c # cs)" and "split_from sep 0 cs = x # xs"
  shows "split_from sep 0 (c # cs) = (c # x) # xs"
  using assms by simp

lemma join_push_head: "py_join sep ((c # x) # xs) = c # py_join sep (x # xs)"
  by (cases xs) simp_all

lemma join_split_from: "sep \<noteq> [] \<Longrightarrow> py_join sep (split_from sep 0 s) = s"
proof (induction s rule: measure_induct_rule [where f = length])
  case (less s)
  show ?case
  proof (cases s)
    case Nil
    then show ?thesis by simp
  next
    case (Cons c cs)
    show ?thesis
    proof (cases "is_prefix sep s")
      case True
      then obtain r where r: "s = sep @ r" by (auto simp: is_prefix_iff)
      have "length r < length s" using r less.prems by simp
      then have ih: "py_join sep (split_from sep 0 r) = r" using less by blast
      obtain x xs where xs: "split_from sep 0 r = x # xs"
        by (cases "split_from sep 0 r") simp_all
      have "split_from sep 0 s = [] # x # xs"
        using split_step_match [OF less.prems, of r] r xs by simp
      then show ?thesis using ih r xs by simp
    next
      case False
      obtain x xs where xs: "split_from sep 0 cs = x # xs"
        by (cases "split_from sep 0 cs") simp_all
      have "length cs < length s" using Cons by simp
      then have "py_join sep (split_from sep 0 cs) = cs" using less by blast
      with split_step_skip [OF False [unfolded Cons] xs] xs Cons show ?thesis
        by (simp only: join_push_head)
    qed
  qed
qed

lemma join_py_split: "sep \<noteq> [] \<Longrightarrow> py_join sep (py_split sep s) = s"
  by (simp add: py_split_def join_split_from)

section \<open>Lists, sorting, dicts\<close>

text \<open>\<open>sorted({...})\<close> of a set comprehension over a list.\<close>

definition sorted_set :: "'a::linorder list \<Rightarrow> 'a list" where
  "sorted_set xs = sort (remdups xs)"

lemma set_sorted_set [simp]: "set (sorted_set xs) = set xs"
  by (simp add: sorted_set_def)

lemma sorted_sorted_set [simp]: "sorted (sorted_set xs)" "distinct (sorted_set xs)"
  by (simp_all add: sorted_set_def)

lemma filter_unique:
  "distinct xs \<Longrightarrow> n \<in> set xs \<Longrightarrow> (\<And>m. m \<in> set xs \<Longrightarrow> P m \<longleftrightarrow> m = n) \<Longrightarrow> filter P xs = [n]"
proof (induction xs)
  case (Cons x xs)
  show ?case
  proof (cases "x = n")
    case True
    with Cons.prems have "\<forall>m \<in> set xs. \<not> P m" by auto
    with True Cons.prems show ?thesis by (simp add: filter_empty_conv)
  next
    case False
    with Cons show ?thesis by auto
  qed
qed simp

lemma list_all2_right:
  assumes "list_all2 P xs ys" "y \<in> set ys"
  obtains x where "x \<in> set xs" "P x y"
  using assms by (induction rule: list_all2_induct) auto

lemma list_all2_left:
  assumes "list_all2 P xs ys" "x \<in> set xs"
  obtains y where "y \<in> set ys" "P x y"
  using assms by (induction rule: list_all2_induct) auto

text \<open>\<open>dict.fromkeys(xs)\<close>: first occurrences, in order.\<close>

fun dedup_from :: "'a list \<Rightarrow> 'a list \<Rightarrow> 'a list" where
  "dedup_from seen [] = []"
| "dedup_from seen (x # xs) =
     (if x \<in> set seen then dedup_from seen xs else x # dedup_from (x # seen) xs)"

definition dedup :: "'a list \<Rightarrow> 'a list" where
  "dedup xs = dedup_from [] xs"

lemma set_dedup_from: "set (dedup_from seen xs) = set xs - set seen"
  by (induction seen xs rule: dedup_from.induct) auto

lemma set_dedup [simp]: "set (dedup xs) = set xs"
  by (simp add: dedup_def set_dedup_from)

lemma distinct_dedup_from: "distinct (dedup_from seen xs)"
  by (induction seen xs rule: dedup_from.induct) (auto simp: set_dedup_from)

lemma distinct_dedup [simp]: "distinct (dedup xs)"
  by (simp add: dedup_def distinct_dedup_from)

text \<open>A dict built by writing pairs in order: the first write fixes the position, the last the value.\<close>

definition dict_of :: "('k \<times> 'v) list \<Rightarrow> ('k \<times> 'v) list" where
  "dict_of kvs = foldl (\<lambda>d (k, v). AList.update k v d) [] kvs"

lemma map_of_foldl_update:
  "map_of (foldl (\<lambda>d (k, v). AList.update k v d) d kvs) = map_of d ++ map_of (rev kvs)"
proof (induction kvs arbitrary: d)
  case (Cons kv kvs)
  obtain k v where kv: "kv = (k, v)" by fastforce
  have "map_of (AList.update k v d) = (map_of d)(k \<mapsto> v)"
    by (simp add: update_conv')
  with Cons [of "AList.update k v d"] kv show ?case
    by (simp add: map_add_upd_left fun_eq_iff map_add_def split: option.splits)
qed simp

lemma map_of_dict_of: "map_of (dict_of kvs) = map_of (rev kvs)"
  by (simp add: dict_of_def map_of_foldl_update)

lemma distinct_foldl_update:
  "distinct (map fst d) \<Longrightarrow>
   distinct (map fst (foldl (\<lambda>d (k, v). AList.update k v d) d kvs))"
  by (induction kvs arbitrary: d) (auto simp: distinct_update)

lemma distinct_dict_of [simp]: "distinct (map fst (dict_of kvs))"
  by (simp add: dict_of_def distinct_foldl_update)

lemma keys_foldl_update:
  "fst ` set (foldl (\<lambda>d (k, v). AList.update k v d) d kvs) = fst ` set d \<union> fst ` set kvs"
proof (induction kvs arbitrary: d)
  case (Cons kv kvs)
  obtain k v where kv: "kv = (k, v)" by fastforce
  have "fst ` set (AList.update k v d) = insert k (fst ` set d)"
    by (induction d) auto
  with Cons [of "AList.update k v d"] kv show ?case by simp
qed simp

lemma keys_dict_of [simp]: "fst ` set (dict_of kvs) = fst ` set kvs"
  by (simp add: dict_of_def keys_foldl_update)

lemma set_foldl_update:
  "set (foldl (\<lambda>d (k, v). AList.update k v d) d kvs) \<subseteq> set d \<union> set kvs"
proof (induction kvs arbitrary: d)
  case (Cons kv kvs)
  obtain k v where kv: "kv = (k, v)" by fastforce
  have "set (AList.update k v d) \<subseteq> insert (k, v) (set d)"
    by (induction d) auto
  with Cons [of "AList.update k v d"] kv show ?case by auto
qed simp

lemma set_dict_of: "set (dict_of kvs) \<subseteq> set kvs"
  using set_foldl_update [of "[]" kvs] by (simp add: dict_of_def)

text \<open>With distinct keys, building the dict changes nothing.\<close>

lemma update_new: "k \<notin> fst ` set d \<Longrightarrow> AList.update k v d = d @ [(k, v)]"
  by (induction d) auto

lemma foldl_update_distinct:
  "distinct (map fst (d @ kvs)) \<Longrightarrow> foldl (\<lambda>d (k, v). AList.update k v d) d kvs = d @ kvs"
  by (induction kvs arbitrary: d) (auto simp: update_new)

lemma dict_of_distinct: "distinct (map fst kvs) \<Longrightarrow> dict_of kvs = kvs"
  by (simp add: dict_of_def foldl_update_distinct)

end
