(* ===== verification/PyRegex.thy ===== *)
theory PyRegex
  imports Prelude
begin

text \<open>
  The fragment of Python's \<open>re\<close> the repository uses: single-character classes repeated
  greedily or lazily, sequences, alternatives, optional parts, groups, \<open>\b\<close>, look-ahead
  and the anchors \<open>^\<close> and \<open>$\<close> without \<open>MULTILINE\<close>. A pattern is a datum and \<open>re_run\<close> lists
  the ways it can match from a position in the order the backtracking matcher tries
  them, so the first element is what Python returns.
\<close>

datatype cset = Ranges "(char \<times> char) list" | NotRanges "(char \<times> char) list"

fun in_cset :: "cset \<Rightarrow> char \<Rightarrow> bool" where
  "in_cset (Ranges rs) c = list_ex (\<lambda>(lo, hi). in_range lo hi c) rs"
| "in_cset (NotRanges rs) c = (\<not> list_ex (\<lambda>(lo, hi). in_range lo hi c) rs)"

datatype regex =
    RLit string
  | RSet cset
  | RRep bool cset nat "nat option"
  | RCat regex regex
  | RAlt regex regex
  | ROpt regex
  | RGrp nat regex
  | RWordB
  | RLook regex
  | RBol
  | REol

text \<open>A position: the character before it, the text after it, the groups captured so far.\<close>

type_synonym re_pos = "char option \<times> string \<times> (nat \<times> string) list"

text \<open>\<open>\w\<close> for \<open>str\<close> patterns, on Latin-1 text: the alphanumeric characters and the underscore.\<close>

definition is_word :: "char \<Rightarrow> bool" where
  "is_word c \<longleftrightarrow> in_range CHR ''a'' CHR ''z'' c \<or> in_range CHR ''A'' CHR ''Z'' c
     \<or> in_range CHR ''0'' CHR ''9'' c \<or> c = CHR ''_''
     \<or> c \<in> {CHR 0xAA, CHR 0xB2, CHR 0xB3, CHR 0xB5, CHR 0xB9, CHR 0xBA, CHR 0xBC, CHR 0xBD, CHR 0xBE}
     \<or> (in_range CHR 0xC0 CHR 0xFF c \<and> c \<noteq> CHR 0xD7 \<and> c \<noteq> CHR 0xF7)"

definition word_at :: "char option \<Rightarrow> bool" where
  "word_at co = (case co of None \<Rightarrow> False | Some c \<Rightarrow> is_word c)"

definition at_boundary :: "re_pos \<Rightarrow> bool" where
  "at_boundary st = (case st of (p, s, g) \<Rightarrow>
     word_at p \<noteq> word_at (case s of [] \<Rightarrow> None | c # _ \<Rightarrow> Some c))"

fun run_lit :: "string \<Rightarrow> char option \<Rightarrow> string \<Rightarrow> (nat \<times> string) list \<Rightarrow> re_pos list" where
  "run_lit [] p s g = [(p, s, g)]"
| "run_lit (d # ds) p [] g = []"
| "run_lit (d # ds) p (c # cs) g = (if c = d then run_lit ds (Some c) cs g else [])"

text \<open>The positions reached by consuming 0, 1, 2, ... characters of a class.\<close>

fun run_span :: "cset \<Rightarrow> char option \<Rightarrow> string \<Rightarrow> (nat \<times> string) list \<Rightarrow> re_pos list" where
  "run_span cl p [] g = [(p, [], g)]"
| "run_span cl p (c # cs) g =
     (p, c # cs, g) # (if in_cset cl c then run_span cl (Some c) cs g else [])"

fun re_run :: "regex \<Rightarrow> re_pos \<Rightarrow> re_pos list" where
  "re_run (RLit ds) (p, s, g) = run_lit ds p s g"
| "re_run (RSet cl) (p, s, g) =
     (case s of [] \<Rightarrow> [] | c # cs \<Rightarrow> if in_cset cl c then [(Some c, cs, g)] else [])"
| "re_run (RRep greedy cl lo hi) (p, s, g) =
     (let all = run_span cl p s g;
          upto = (case hi of None \<Rightarrow> all | Some n \<Rightarrow> take (Suc n) all);
          ok = drop lo upto
      in if greedy then rev ok else ok)"
| "re_run (RCat a b) st = concat (map (re_run b) (re_run a st))"
| "re_run (RAlt a b) st = re_run a st @ re_run b st"
| "re_run (ROpt a) st = re_run a st @ [st]"
| "re_run (RGrp n a) (p, s, g) =
     map (\<lambda>(p', s', g'). (p', s', (n, take (length s - length s') s) # g')) (re_run a (p, s, g))"
| "re_run RWordB st = (if at_boundary st then [st] else [])"
| "re_run (RLook a) st = (if re_run a st = [] then [] else [st])"
| "re_run RBol (p, s, g) = (if p = None then [(p, s, g)] else [])"
| "re_run REol (p, s, g) = (if s = [] \<or> s = [newline] then [(p, s, g)] else [])"

definition re_first :: "regex \<Rightarrow> char option \<Rightarrow> string \<Rightarrow> re_pos option" where
  "re_first r p s = (case re_run r (p, s, []) of [] \<Rightarrow> None | st # _ \<Rightarrow> Some st)"

text \<open>\<open>pattern.match(s)\<close>: anchored at the start, truthy when there is a match.\<close>

definition re_match :: "regex \<Rightarrow> string \<Rightarrow> bool" where
  "re_match r s = (re_first r None s \<noteq> None)"

text \<open>A match object: the matched text and the captured groups.\<close>

record re_hit =
  hit_text :: string
  hit_groups :: "(nat \<times> string) list"

definition group_of :: "re_hit \<Rightarrow> nat \<Rightarrow> string option" where
  "group_of h n = map_of (hit_groups h) n"

text \<open>Every position a match leads to is a suffix of the text it started from.\<close>

lemma run_lit_suffix: "(p', s', g') \<in> set (run_lit ds p s g) \<Longrightarrow> \<exists>c. s = c @ s'"
  by (induction ds p s g rule: run_lit.induct) (auto split: if_splits)

lemma run_span_suffix: "(p', s', g') \<in> set (run_span cl p s g) \<Longrightarrow> \<exists>c. s = c @ s'"
  by (induction cl p s g rule: run_span.induct) (auto split: if_splits)

lemma re_run_suffix: "(p', s', g') \<in> set (re_run r (p, s, g)) \<Longrightarrow> \<exists>c. s = c @ s'"
proof (induction r arbitrary: p s g p' s' g')
  case (RRep greedy cl lo hi)
  then show ?case
    by (auto simp: Let_def split: if_splits option.splits
        dest!: in_set_dropD in_set_takeD intro: run_span_suffix)
next
  case (RCat a b)
  then show ?case by fastforce
next
  case (RGrp n a)
  then show ?case by fastforce
next
  case (RLit x)
  then show ?case by (simp add: run_lit_suffix)
next
  case (RSet x)
  then show ?case by (auto split: list.splits if_splits)
next
  case (RAlt a b)
  then show ?case by auto
next
  case (ROpt a)
  then show ?case by auto
qed (auto split: if_splits)

text \<open>
  \<open>pattern.finditer(s)\<close>: scan left to right, resuming where a match ended. None of the
  repository's patterns matches the empty string; an empty match would be reported and
  the scan moved on by one character.
\<close>

function re_scan :: "regex \<Rightarrow> char option \<Rightarrow> string \<Rightarrow> re_hit list" where
  "re_scan r p s =
     (case re_first r p s of
        Some (p', s', g) \<Rightarrow>
          if length s' < length s
          then \<lparr>hit_text = take (length s - length s') s, hit_groups = g\<rparr> # re_scan r p' s'
          else \<lparr>hit_text = [], hit_groups = g\<rparr>
               # (case s of [] \<Rightarrow> [] | c # cs \<Rightarrow> re_scan r (Some c) cs)
      | None \<Rightarrow> (case s of [] \<Rightarrow> [] | c # cs \<Rightarrow> re_scan r (Some c) cs))"
  by pat_completeness auto
termination
  by (relation "measure (\<lambda>(r, p, s). length s)") auto

declare re_scan.simps [simp del]

definition re_finditer :: "regex \<Rightarrow> string \<Rightarrow> re_hit list" where
  "re_finditer r s = re_scan r None s"

definition re_findall :: "regex \<Rightarrow> string \<Rightarrow> string list" where
  "re_findall r s = map hit_text (re_finditer r s)"

text \<open>\<open>pattern.split(s)\<close> for a pattern without groups: the text between the matches.\<close>

function re_split_from :: "regex \<Rightarrow> string \<Rightarrow> char option \<Rightarrow> string \<Rightarrow> string list" where
  "re_split_from r cur p s =
     (case re_first r p s of
        Some (p', s', g) \<Rightarrow>
          if length s' < length s then rev cur # re_split_from r [] p' s'
          else (case s of [] \<Rightarrow> [rev cur] | c # cs \<Rightarrow> rev cur # re_split_from r [c] (Some c) cs)
      | None \<Rightarrow> (case s of [] \<Rightarrow> [rev cur] | c # cs \<Rightarrow> re_split_from r (c # cur) (Some c) cs))"
  by pat_completeness auto
termination
  by (relation "measure (\<lambda>(r, cur, p, s). length s)") auto

declare re_split_from.simps [simp del]

definition re_split :: "regex \<Rightarrow> string \<Rightarrow> string list" where
  "re_split r s = re_split_from r [] None s"

section \<open>The tokens \<open>[a-z0-9]+\<close>\<close>

text \<open>Shared by the resolver and the embedder.\<close>

definition token_class :: cset where
  "token_class = Ranges [(CHR ''a'', CHR ''z''), (CHR ''0'', CHR ''9'')]"

definition token_re :: regex where
  "token_re = RRep True token_class 1 None"

lemma run_span_last: "run_span cl p s g \<noteq> []"
  by (cases s) auto

lemma last_run_span:
  "last (run_span cl p s g) =
     (if takeWhile (in_cset cl) s = [] then p else Some (last (takeWhile (in_cset cl) s)),
      dropWhile (in_cset cl) s, g)"
  by (induction cl p s g rule: run_span.induct) (auto simp: run_span_last)

lemma length_run_span: "length (run_span cl p s g) = Suc (length (takeWhile (in_cset cl) s))"
  by (induction cl p s g rule: run_span.induct) auto

lemma re_first_token:
  "re_first token_re p s =
     (if takeWhile (in_cset token_class) s = [] then None
      else Some (Some (last (takeWhile (in_cset token_class) s)), dropWhile (in_cset token_class) s, []))"
proof -
  let ?all = "run_span token_class p s []"
  have run: "re_run token_re (p, s, []) = rev (drop 1 ?all)"
    by (simp add: token_re_def)
  show ?thesis
  proof (cases "takeWhile (in_cset token_class) s = []")
    case True
    then have "length (drop 1 ?all) = 0" by (simp add: length_run_span)
    with run True show ?thesis by (simp add: re_first_def)
  next
    case False
    then have "drop 1 ?all \<noteq> []" by (simp add: length_run_span)
    then obtain ys where "drop 1 ?all = ys @ [last ?all]"
      by (metis append_butlast_last_id last_drop length_drop length_greater_0_conv zero_less_diff)
    with run False show ?thesis
      by (simp add: re_first_def last_run_span)
  qed
qed

section \<open>Anchored repetition of one class: \<open>^[...]{lo,hi}$\<close>\<close>

lemma run_span_nth:
  "run_span cl p s g =
     map (\<lambda>k. (if k = 0 then p else Some (s ! (k - 1)), drop k s, g))
       [0..<Suc (length (takeWhile (in_cset cl) s))]"
proof (induction cl p s g rule: run_span.induct)
  case (2 cl p c cs g)
  show ?case
  proof (cases "in_cset cl c")
    case True
    let ?n = "length (takeWhile (in_cset cl) cs)"
    have "[0..<Suc (Suc ?n)] = 0 # map Suc [0..<Suc ?n]"
      by (simp only: map_Suc_upt) (simp add: upt_conv_Cons del: upt_Suc)
    then show ?thesis using True 2
      by (auto simp del: upt_Suc simp: nth_Cons' split: if_splits)
  qed simp
qed simp

lemma take_upt_min: "take h [0..<n] = [0..<min h n]"
  by (cases "h \<le> n") (simp_all add: take_upt min_def)

lemma set_anchored_rep:
  "set (re_run (RRep greedy cl lo (Some hi)) (p, s, g)) =
     {(if k = 0 then p else Some (s ! (k - 1)), drop k s, g) | k.
        lo \<le> k \<and> k \<le> hi \<and> k \<le> length (takeWhile (in_cset cl) s)}"
proof -
  let ?f = "\<lambda>k. (if k = 0 then p else Some (s ! (k - 1)), drop k s, g)"
  let ?n = "length (takeWhile (in_cset cl) s)"
  have "drop lo (take (Suc hi) (map ?f [0..<Suc ?n])) = map ?f [lo..<min (Suc hi) (Suc ?n)]"
    by (simp only: take_map drop_map take_upt_min drop_upt add_0)
  then have "re_run (RRep greedy cl lo (Some hi)) (p, s, g) =
      (if greedy then rev (map ?f [lo..<min (Suc hi) (Suc ?n)])
       else map ?f [lo..<min (Suc hi) (Suc ?n)])"
    by (simp only: re_run.simps Let_def run_span_nth option.case)
  then have "set (re_run (RRep greedy cl lo (Some hi)) (p, s, g)) = ?f ` {lo..<min (Suc hi) (Suc ?n)}"
    by (simp only: set_map set_rev set_upt if_distrib [of set] if_cancel)
  moreover have "k \<in> {lo..<min (Suc hi) (Suc ?n)} \<longleftrightarrow> lo \<le> k \<and> k \<le> hi \<and> k \<le> ?n" for k
    by auto
  ultimately show ?thesis by blast
qed

lemma takeWhile_at_least:
  "k \<le> length (takeWhile P s) \<longleftrightarrow> k \<le> length s \<and> list_all P (take k s)"
proof (induction s arbitrary: k)
  case (Cons c cs)
  then show ?case by (cases k) auto
qed simp

lemma re_match_anchored_rep:
  "re_match (RCat RBol (RCat (RRep greedy cl lo (Some hi)) REol)) s \<longleftrightarrow>
     (\<exists>w. lo \<le> length w \<and> length w \<le> hi \<and> list_all (in_cset cl) w \<and> (s = w \<or> s = w @ [newline]))"
  (is "?l \<longleftrightarrow> ?r")
proof -
  have ne: "?l \<longleftrightarrow> set (re_run (RCat RBol (RCat (RRep greedy cl lo (Some hi)) REol)) (None, s, [])) \<noteq> {}"
    by (simp add: re_match_def re_first_def del: re_run.simps split: list.split)
  have "?l \<longleftrightarrow> (\<exists>k. lo \<le> k \<and> k \<le> hi \<and> k \<le> length (takeWhile (in_cset cl) s) \<and>
      (drop k s = [] \<or> drop k s = [newline]))"
  proof
    assume ?l
    with ne show "\<exists>k. lo \<le> k \<and> k \<le> hi \<and> k \<le> length (takeWhile (in_cset cl) s) \<and>
      (drop k s = [] \<or> drop k s = [newline])"
      by (auto simp: set_anchored_rep simp del: re_run.simps(3) split: if_splits)
  next
    assume "\<exists>k. lo \<le> k \<and> k \<le> hi \<and> k \<le> length (takeWhile (in_cset cl) s) \<and>
      (drop k s = [] \<or> drop k s = [newline])"
    then obtain k where k: "lo \<le> k" "k \<le> hi" "k \<le> length (takeWhile (in_cset cl) s)"
      and d: "drop k s = [] \<or> drop k s = [newline]" by blast
    let ?st = "(if k = 0 then None else Some (s ! (k - 1)), drop k s, [] :: (nat \<times> string) list)"
    have "?st \<in> set (re_run (RRep greedy cl lo (Some hi)) (None, s, []))"
      unfolding set_anchored_rep using k by blast
    moreover have "?st \<in> set (re_run REol ?st)" using d by simp
    ultimately have "?st \<in> set (re_run (RCat (RRep greedy cl lo (Some hi)) REol) (None, s, []))"
      unfolding re_run.simps(4) set_concat set_map by blast
    then have "?st \<in> set (re_run (RCat RBol (RCat (RRep greedy cl lo (Some hi)) REol)) (None, s, []))"
      by (simp del: re_run.simps add: re_run.simps(4) re_run.simps(10))
    then show ?l unfolding ne by (metis empty_iff)
  qed
  also have "\<dots> \<longleftrightarrow> ?r"
  proof
    assume "\<exists>k. lo \<le> k \<and> k \<le> hi \<and> k \<le> length (takeWhile (in_cset cl) s) \<and>
      (drop k s = [] \<or> drop k s = [newline])"
    then obtain k where k: "lo \<le> k" "k \<le> hi" "k \<le> length s" "list_all (in_cset cl) (take k s)"
      and d: "drop k s = [] \<or> drop k s = [newline]"
      by (auto simp: takeWhile_at_least)
    from d have "s = take k s \<or> s = take k s @ [newline]"
      by (metis append_Nil2 append_take_drop_id)
    with k show ?r by (intro exI [of _ "take k s"]) simp
  next
    assume ?r
    then obtain w where w: "lo \<le> length w" "length w \<le> hi" "list_all (in_cset cl) w"
      "s = w \<or> s = w @ [newline]" by blast
    then show "\<exists>k. lo \<le> k \<and> k \<le> hi \<and> k \<le> length (takeWhile (in_cset cl) s) \<and>
      (drop k s = [] \<or> drop k s = [newline])"
      by (intro exI [of _ "length w"]) (auto simp: takeWhile_at_least)
  qed
  finally show ?thesis .
qed

end
