(* ===== verification/Enums.thy ===== *)
theory Enums
  imports PyRegex
begin

text \<open>
  \<open>enums.py\<close>: the wire-level enumerations with their string values, the rank that orders
  sensitivities, and the validator of source ids.
\<close>

section \<open>Source ids\<close>

definition source_id_class :: cset where
  "source_id_class = Ranges [(CHR ''a'', CHR ''z''), (CHR ''0'', CHR ''9''),
     (CHR ''_'', CHR ''_''), (CHR ''-'', CHR ''-'')]"

definition source_id_re :: regex where
  "source_id_re = RCat RBol (RCat (RRep True source_id_class 1 (Some 64)) REol)"

definition check_source_id :: "string \<Rightarrow> string result" where
  "check_source_id value =
     (if \<not> re_match source_id_re value then Inl (ValueError value) else Inr value)"

text \<open>What the error message promises: 1 to 64 characters of the class and nothing else.\<close>

definition well_formed_source_id :: "string \<Rightarrow> bool" where
  "well_formed_source_id s \<longleftrightarrow>
     1 \<le> length s \<and> length s \<le> 64 \<and> list_all (in_cset source_id_class) s"

lemma newline_not_source_char: "\<not> in_cset source_id_class newline"
  by (simp add: source_id_class_def in_range_def ord_of_def)

section \<open>Enumerations\<close>

datatype entity_kind = Person | Project | Artifact | Organization | Topic

fun kind_value :: "entity_kind \<Rightarrow> string" where
  "kind_value Person = ''person''"
| "kind_value Project = ''project''"
| "kind_value Artifact = ''artifact''"
| "kind_value Organization = ''organization''"
| "kind_value Topic = ''topic''"

datatype claim_status = Active | Superseded | Contradicted | Reconciled

fun status_value :: "claim_status \<Rightarrow> string" where
  "status_value Active = ''active''"
| "status_value Superseded = ''superseded''"
| "status_value Contradicted = ''contradicted''"
| "status_value Reconciled = ''reconciled''"

datatype fulfillment_status = Open | Fulfilled | Dropped

fun fulfillment_value :: "fulfillment_status \<Rightarrow> string" where
  "fulfillment_value Open = ''open''"
| "fulfillment_value Fulfilled = ''fulfilled''"
| "fulfillment_value Dropped = ''dropped''"

datatype sensitivity = Public | Personal | Confidential | Restricted

fun sensitivity_value :: "sensitivity \<Rightarrow> string" where
  "sensitivity_value Public = ''public''"
| "sensitivity_value Personal = ''personal''"
| "sensitivity_value Confidential = ''confidential''"
| "sensitivity_value Restricted = ''restricted''"

fun rank_of :: "sensitivity \<Rightarrow> nat" where
  "rank_of Public = 0"
| "rank_of Personal = 1"
| "rank_of Confidential = 2"
| "rank_of Restricted = 3"

datatype deny_reason =
    WrongOwner | GrantExpired | AgentRevoked | SourceNotInScope
  | EntityKindNotInScope | OutsideTimeWindow | TooSensitive

fun deny_value :: "deny_reason \<Rightarrow> string" where
  "deny_value WrongOwner = ''wrong_owner''"
| "deny_value GrantExpired = ''grant_expired''"
| "deny_value AgentRevoked = ''agent_revoked''"
| "deny_value SourceNotInScope = ''source_not_in_scope''"
| "deny_value EntityKindNotInScope = ''entity_kind_not_in_scope''"
| "deny_value OutsideTimeWindow = ''outside_time_window''"
| "deny_value TooSensitive = ''too_sensitive''"

text \<open>Calling the enum class on a string, \<open>ClaimStatus(s)\<close>: a value or \<open>ValueError\<close>.\<close>

definition claim_status_of :: "string \<Rightarrow> claim_status result" where
  "claim_status_of s =
     (if s = ''active'' then Inr Active else if s = ''superseded'' then Inr Superseded
      else if s = ''contradicted'' then Inr Contradicted
      else if s = ''reconciled'' then Inr Reconciled else Inl (ValueError s))"

definition fulfillment_of :: "string \<Rightarrow> fulfillment_status result" where
  "fulfillment_of s =
     (if s = ''open'' then Inr Open else if s = ''fulfilled'' then Inr Fulfilled
      else if s = ''dropped'' then Inr Dropped else Inl (ValueError s))"

definition kind_of_value :: "string \<Rightarrow> entity_kind result" where
  "kind_of_value s =
     (if s = ''person'' then Inr Person else if s = ''project'' then Inr Project
      else if s = ''artifact'' then Inr Artifact else if s = ''organization'' then Inr Organization
      else if s = ''topic'' then Inr Topic else Inl (ValueError s))"

text \<open>Sensitivities are ordered by rank, which is what the permission check compares.\<close>

instantiation sensitivity :: linorder
begin

definition less_eq_sensitivity :: "sensitivity \<Rightarrow> sensitivity \<Rightarrow> bool" where
  "a \<le> b \<longleftrightarrow> rank_of a \<le> rank_of b"

definition less_sensitivity :: "sensitivity \<Rightarrow> sensitivity \<Rightarrow> bool" where
  "a < b \<longleftrightarrow> rank_of a < rank_of b"

instance
proof
  show "x = y" if "x \<le> y" "y \<le> x" for x y :: sensitivity
    using that by (cases x; cases y) (simp_all add: less_eq_sensitivity_def)
qed (auto simp: less_eq_sensitivity_def less_sensitivity_def)

end

lemma status_roundtrip [simp]: "claim_status_of (status_value s) = Inr s"
  by (cases s) (simp_all add: claim_status_of_def)

lemma fulfillment_roundtrip [simp]: "fulfillment_of (fulfillment_value f) = Inr f"
  by (cases f) (simp_all add: fulfillment_of_def)

lemma kind_roundtrip [simp]: "kind_of_value (kind_value k) = Inr k"
  by (cases k) (simp_all add: kind_of_value_def)

lemma kind_value_inject [simp]: "kind_value a = kind_value b \<longleftrightarrow> a = b"
  by (metis kind_roundtrip sum.inject(2))

lemma status_value_inject [simp]: "status_value a = status_value b \<longleftrightarrow> a = b"
  by (metis status_roundtrip sum.inject(2))

lemma fulfillment_value_inject [simp]: "fulfillment_value a = fulfillment_value b \<longleftrightarrow> a = b"
  by (metis fulfillment_roundtrip sum.inject(2))

lemma deny_value_inject [simp]: "deny_value a = deny_value b \<longleftrightarrow> a = b"
  by (cases a; cases b) simp_all

text \<open>\<open>sorted({...}, key=lambda k: k.value)\<close>.\<close>

definition sorted_kinds :: "entity_kind list \<Rightarrow> entity_kind list" where
  "sorted_kinds ks = sort_key kind_value (remdups ks)"

lemma set_sorted_kinds [simp]: "set (sorted_kinds ks) = set ks"
  by (simp add: sorted_kinds_def)

section \<open>Properties\<close>

text \<open>The validator of source ids accepts exactly the ids of 1 to 64 characters of
  \<open>[a-z0-9_-]\<close>, and each of these again with one newline appended, because \<open>$\<close> also
  matches before a final newline. The error message and the comment, and
  \<open>SourceId::parse\<close> on the Rust side, rule the second form out.\<close>

theorem check_source_id_exact:
  "check_source_id v = Inr v \<longleftrightarrow>
     well_formed_source_id v \<or> (\<exists>w. well_formed_source_id w \<and> v = w @ [newline])"
  by (auto simp: check_source_id_def source_id_re_def re_match_anchored_rep
      well_formed_source_id_def)

lemma trailing_newline_not_well_formed: "\<not> well_formed_source_id (w @ [newline])"
  using newline_not_source_char by (simp add: well_formed_source_id_def)

end
