(* ===== verification/Permissions.thy ===== *)
theory Permissions
  imports Enums
begin

text \<open>
  \<open>permissions.py\<close>: scopes, access-control lists and the pure check \<open>evaluate\<close> every read
  runs per object. The wall clock is the argument \<open>clock\<close> (\<open>int(time.time() * 1000)\<close>).
\<close>

record object_acl =
  acl_owner_id :: string
  acl_sources :: "string list"
  acl_sensitivity :: sensitivity
  acl_entity_kinds :: "entity_kind list"
  acl_occurred_at_ms :: int
  acl_denied_agents :: "string list"

record scope =
  agent_id :: string
  scope_owner_id :: string
  scope_sources :: "string list"
  scope_entity_kinds :: "entity_kind list"
  not_before_ms :: "int option"
  not_after_ms :: "int option"
  max_sensitivity :: sensitivity
  expires_at_ms :: "int option"

record permission_decision =
  decision :: string
  reason :: "deny_reason option"

definition allowed :: "permission_decision \<Rightarrow> bool" where
  "allowed d \<longleftrightarrow> decision d = ''allow''"

definition allow_decision :: permission_decision where
  "allow_decision = \<lparr>decision = ''allow'', reason = None\<rparr>"

definition deny :: "deny_reason \<Rightarrow> permission_decision" where
  "deny r = \<lparr>decision = ''deny'', reason = Some r\<rparr>"

definition evaluate :: "int \<Rightarrow> scope \<Rightarrow> object_acl \<Rightarrow> int option \<Rightarrow> permission_decision" where
  "evaluate clock sc acl now_opt =
     (let now_ms = (case now_opt of None \<Rightarrow> clock | Some n \<Rightarrow> n) in
      if scope_owner_id sc \<noteq> acl_owner_id acl then deny WrongOwner
      else if (case expires_at_ms sc of None \<Rightarrow> False | Some e \<Rightarrow> e \<le> now_ms) then deny GrantExpired
      else if agent_id sc \<in> set (acl_denied_agents acl) then deny AgentRevoked
      else if acl_sources acl = [] \<or> \<not> list_all (\<lambda>s. s \<in> set (scope_sources sc)) (acl_sources acl)
        then deny SourceNotInScope
      else if acl_entity_kinds acl = []
          \<or> \<not> list_all (\<lambda>k. k \<in> set (scope_entity_kinds sc)) (acl_entity_kinds acl)
        then deny EntityKindNotInScope
      else if (case not_before_ms sc of None \<Rightarrow> False | Some t \<Rightarrow> acl_occurred_at_ms acl < t)
        then deny OutsideTimeWindow
      else if (case not_after_ms sc of None \<Rightarrow> False | Some t \<Rightarrow> t < acl_occurred_at_ms acl)
        then deny OutsideTimeWindow
      else if rank_of (max_sensitivity sc) < rank_of (acl_sensitivity acl) then deny TooSensitive
      else allow_decision)"

definition permits :: "int \<Rightarrow> scope \<Rightarrow> object_acl \<Rightarrow> int option \<Rightarrow> bool" where
  "permits clock sc acl now_opt = allowed (evaluate clock sc acl now_opt)"

section \<open>The specification: conditions of a grant and their order of precedence\<close>

fun violates :: "deny_reason \<Rightarrow> scope \<Rightarrow> object_acl \<Rightarrow> int \<Rightarrow> bool" where
  "violates WrongOwner sc acl now \<longleftrightarrow> scope_owner_id sc \<noteq> acl_owner_id acl"
| "violates GrantExpired sc acl now \<longleftrightarrow> (\<exists>e. expires_at_ms sc = Some e \<and> e \<le> now)"
| "violates AgentRevoked sc acl now \<longleftrightarrow> agent_id sc \<in> set (acl_denied_agents acl)"
| "violates SourceNotInScope sc acl now \<longleftrightarrow>
     acl_sources acl = [] \<or> \<not> set (acl_sources acl) \<subseteq> set (scope_sources sc)"
| "violates EntityKindNotInScope sc acl now \<longleftrightarrow>
     acl_entity_kinds acl = [] \<or> \<not> set (acl_entity_kinds acl) \<subseteq> set (scope_entity_kinds sc)"
| "violates OutsideTimeWindow sc acl now \<longleftrightarrow>
     (\<exists>t. not_before_ms sc = Some t \<and> acl_occurred_at_ms acl < t) \<or>
     (\<exists>t. not_after_ms sc = Some t \<and> t < acl_occurred_at_ms acl)"
| "violates TooSensitive sc acl now \<longleftrightarrow> max_sensitivity sc < acl_sensitivity acl"

definition deny_order :: "deny_reason list" where
  "deny_order = [WrongOwner, GrantExpired, AgentRevoked, SourceNotInScope,
     EntityKindNotInScope, OutsideTimeWindow, TooSensitive]"

definition spec_decision :: "scope \<Rightarrow> object_acl \<Rightarrow> int \<Rightarrow> permission_decision" where
  "spec_decision sc acl now =
     (case find (\<lambda>r. violates r sc acl now) deny_order of
        None \<Rightarrow> allow_decision | Some r \<Rightarrow> deny r)"

lemma allowed_simps [simp]: "allowed allow_decision" "\<not> allowed (deny r)" "reason (deny r) = Some r"
  by (simp_all add: allowed_def allow_decision_def deny_def)

lemma case_option_ex: "(case x of None \<Rightarrow> False | Some e \<Rightarrow> P e) \<longleftrightarrow> (\<exists>e. x = Some e \<and> P e)"
  by (cases x) simp_all

lemma code_conditions:
  "(case expires_at_ms sc of None \<Rightarrow> False | Some e \<Rightarrow> e \<le> now) \<longleftrightarrow> violates GrantExpired sc acl now"
  "(acl_sources acl = [] \<or> \<not> list_all (\<lambda>s. s \<in> set (scope_sources sc)) (acl_sources acl))
     \<longleftrightarrow> violates SourceNotInScope sc acl now"
  "(acl_entity_kinds acl = [] \<or> \<not> list_all (\<lambda>k. k \<in> set (scope_entity_kinds sc)) (acl_entity_kinds acl))
     \<longleftrightarrow> violates EntityKindNotInScope sc acl now"
  "(if (case not_before_ms sc of None \<Rightarrow> False | Some t \<Rightarrow> acl_occurred_at_ms acl < t) then x
    else if (case not_after_ms sc of None \<Rightarrow> False | Some t \<Rightarrow> t < acl_occurred_at_ms acl) then x else y)
     = (if violates OutsideTimeWindow sc acl now then x else y)"
  by (auto simp: case_option_ex list_all_iff)

lemma find_ifs:
  "(case find P (x # xs) of None \<Rightarrow> d | Some r \<Rightarrow> f r) =
     (if P x then f x else case find P xs of None \<Rightarrow> d | Some r \<Rightarrow> f r)"
  "(case find P [] of None \<Rightarrow> d | Some r \<Rightarrow> f r) = d"
  by simp_all

lemma evaluate_spec: "evaluate clock sc acl (Some now) = spec_decision sc acl now"
  unfolding evaluate_def spec_decision_def deny_order_def find_ifs Let_def option.case
    code_conditions [where now = now and acl = acl and sc = sc]
  unfolding violates.simps less_sensitivity_def by (rule refl)

lemma evaluate_None: "evaluate clock sc acl None = evaluate clock sc acl (Some clock)"
  by (simp add: evaluate_def)

lemma evaluate_clock: "evaluate clock sc acl now_opt =
    spec_decision sc acl (case now_opt of None \<Rightarrow> clock | Some n \<Rightarrow> n)"
  by (cases now_opt) (simp_all add: evaluate_None evaluate_spec)

lemma all_reasons: "r \<in> set deny_order"
  by (cases r) (simp_all add: deny_order_def)

lemma find_SomeD: "find P xs = Some x \<Longrightarrow> P x"
  by (auto simp: find_Some_iff)

lemma spec_allowed_iff: "allowed (spec_decision sc acl now) \<longleftrightarrow> (\<forall>r. \<not> violates r sc acl now)"
proof (cases "find (\<lambda>r. violates r sc acl now) deny_order")
  case None
  then have "\<forall>r \<in> set deny_order. \<not> violates r sc acl now" by (simp add: find_None_iff)
  with None all_reasons show ?thesis by (auto simp: spec_decision_def)
next
  case (Some r)
  from find_SomeD [OF this] have "violates r sc acl now" by simp
  with Some show ?thesis by (auto simp: spec_decision_def)
qed

lemma denied_has_reason: "\<not> allowed (evaluate clock sc acl now_opt) \<Longrightarrow>
    \<exists>r. evaluate clock sc acl now_opt = deny r"
  by (auto simp: evaluate_clock spec_decision_def split: option.splits)

lemma deny_not_allowed: "evaluate clock sc acl n = deny r \<Longrightarrow> \<not> allowed (evaluate clock sc acl n)"
  by simp

text \<open>A scope at least as wide in every dimension, for the same agent and owner.\<close>

definition widens :: "scope \<Rightarrow> scope \<Rightarrow> bool" where
  "widens wide narrow \<longleftrightarrow>
     agent_id wide = agent_id narrow \<and> scope_owner_id wide = scope_owner_id narrow \<and>
     set (scope_sources narrow) \<subseteq> set (scope_sources wide) \<and>
     set (scope_entity_kinds narrow) \<subseteq> set (scope_entity_kinds wide) \<and>
     (\<forall>t. not_before_ms wide = Some t \<longrightarrow> (\<exists>u. not_before_ms narrow = Some u \<and> t \<le> u)) \<and>
     (\<forall>t. not_after_ms wide = Some t \<longrightarrow> (\<exists>u. not_after_ms narrow = Some u \<and> u \<le> t)) \<and>
     (\<forall>t. expires_at_ms wide = Some t \<longrightarrow> (\<exists>u. expires_at_ms narrow = Some u \<and> u \<le> t)) \<and>
     max_sensitivity narrow \<le> max_sensitivity wide"

lemma violates_widens:
  assumes "widens wide narrow" and "violates r wide acl now"
  shows "violates r narrow acl now"
  using assms by (cases r) (fastforce simp: widens_def)+

section \<open>Properties\<close>

text \<open>C1: the permission check decides exactly by its seven conditions in the code's order
  of precedence: it denies with the first violated one, and allows when none is, so an
  object is visible only if the owner matches, the grant is live, the agent is not
  revoked, every source and every entity kind of the object is granted (and there is at
  least one of each), it lies in the time window and is not too sensitive.\<close>

theorem evaluate_refines_spec:
  "evaluate clock sc acl now_opt =
     (case find (\<lambda>r. violates r sc acl (case now_opt of None \<Rightarrow> clock | Some n \<Rightarrow> n)) deny_order of
        None \<Rightarrow> allow_decision | Some r \<Rightarrow> deny r)
   \<and> (permits clock sc acl now_opt \<longleftrightarrow>
       (\<forall>r. \<not> violates r sc acl (case now_opt of None \<Rightarrow> clock | Some n \<Rightarrow> n)))"
  by (simp add: permits_def evaluate_clock spec_allowed_iff) (simp add: spec_decision_def)

text \<open>Widening a scope (more sources, more kinds, a longer window, a later expiry, a
  higher sensitivity, for the same agent and owner), or evaluating it earlier, never loses
  access: what the narrow scope may see at a time, the wide one may see then and before.\<close>

theorem permits_monotone:
  assumes "widens wide narrow" and "t \<le> t'" and "permits clock narrow acl (Some t')"
  shows "permits clock wide acl (Some t)"
proof -
  have "\<not> violates r wide acl t" for r
  proof
    assume v: "violates r wide acl t"
    then have "violates r wide acl t'" using \<open>t \<le> t'\<close> by (cases r) auto
    then have "violates r narrow acl t'" using assms(1) violates_widens by blast
    with assms(3) show False by (simp add: permits_def evaluate_spec spec_allowed_iff)
  qed
  then show ?thesis by (simp add: permits_def evaluate_spec spec_allowed_iff)
qed

definition sample_acl :: object_acl where
  "sample_acl = \<lparr>acl_owner_id = ''o'', acl_sources = [''mock''], acl_sensitivity = Personal,
     acl_entity_kinds = [Project], acl_occurred_at_ms = 5, acl_denied_agents = []\<rparr>"

definition sample_scope :: scope where
  "sample_scope = \<lparr>agent_id = ''a'', scope_owner_id = ''o'', scope_sources = [''mock''],
     scope_entity_kinds = [Project], not_before_ms = Some 1, not_after_ms = None,
     max_sensitivity = Personal, expires_at_ms = Some 10\<rparr>"

theorem permits_monotone_witness:
  "permits 0 (sample_scope\<lparr>scope_sources := [''google'', ''mock''], max_sensitivity := Restricted\<rparr>)
     sample_acl (Some 3)"
  by (rule permits_monotone [of _ sample_scope 3 9])
    (auto simp: widens_def sample_scope_def sample_acl_def permits_def evaluate_spec spec_allowed_iff
      less_eq_sensitivity_def less_sensitivity_def elim!: violates.elims)

end
