(* ===== verification/Schema.thy ===== *)
theory Schema
  imports Permissions
begin

text \<open>
  \<open>schema.py\<close>: the memory objects. A \<open>float\<close> of the code is a \<open>pyfloat\<close>: a dyadic rational
  \<open>m * 2 ^ e\<close>, an infinity or a NaN. \<open>metadata\<close> is a JSON object, of which the extractor
  reads the list under \<open>cites\<close>.
\<close>

section \<open>Floats and JSON values\<close>

datatype pyfloat = Fin int int | Infinity bool | NaN

datatype json =
    JNull
  | JBool bool
  | JInt int
  | JFloat pyfloat
  | JStr string
  | JArr "json list"
  | JObj "(string \<times> json) list"

section \<open>JSON access\<close>

definition json_get :: "string \<Rightarrow> json \<Rightarrow> json option" where
  "json_get k j = (case j of JObj kvs \<Rightarrow> map_of kvs k | _ \<Rightarrow> None)"

text \<open>\<open>body[k]\<close>.\<close>

definition json_item :: "string \<Rightarrow> json \<Rightarrow> json result" where
  "json_item k j = (case j of
      JObj kvs \<Rightarrow> (case map_of kvs k of None \<Rightarrow> Inl (KeyError k) | Some v \<Rightarrow> Inr v)
    | _ \<Rightarrow> Inl (TypeError k))"

fun truthy :: "json \<Rightarrow> bool" where
  "truthy JNull = False"
| "truthy (JBool b) = b"
| "truthy (JInt i) = (i \<noteq> 0)"
| "truthy (JFloat x) = (case x of Fin m e \<Rightarrow> m \<noteq> 0 | _ \<Rightarrow> True)"
| "truthy (JStr s) = (s \<noteq> [])"
| "truthy (JArr xs) = (xs \<noteq> [])"
| "truthy (JObj kvs) = (kvs \<noteq> [])"

text \<open>A string field of a pydantic model, and the argument of \<open>b64decode\<close>.\<close>

definition json_string :: "py_error \<Rightarrow> json \<Rightarrow> string result" where
  "json_string e j = (case j of JStr s \<Rightarrow> Inr s | _ \<Rightarrow> Inl e)"

section \<open>Records\<close>

record source_ref =
  sr_connector :: string
  sr_external_id :: string
  sr_url :: "string option"
  sr_occurred_at_ms :: int
  sr_ingested_at_ms :: int

record citation =
  cit_event_id :: string
  cit_source :: source_ref
  cit_quote :: "string option"

record provenance =
  prov_citations :: "citation list"
  derived_by :: string
  confidence :: pyfloat
  created_at_ms :: int

record encrypted_content_ref =
  key_id :: string
  scheme :: string
  blob_id :: "string option"
  byte_len :: int

record entity =
  ent_id :: string
  ent_owner_id :: string
  ent_kind :: entity_kind
  ent_name :: string
  ent_aliases :: "string list"
  first_seen_at_ms :: int
  last_seen_at_ms :: int
  ent_provenance :: provenance
  ent_acl :: object_acl

record event =
  evt_id :: string
  evt_owner_id :: string
  summary :: string
  body :: "string option"
  entity_ids :: "string list"
  evt_source :: source_ref
  encrypted_content :: "encrypted_content_ref option"
  evt_provenance :: provenance
  evt_acl :: object_acl

record commitment =
  owed_by_entity_id :: string
  owed_to_entity_id :: "string option"
  due_at_ms :: "int option"
  fulfillment :: fulfillment_status
  settled_at_ms :: "int option"

record claim =
  clm_id :: string
  clm_owner_id :: string
  clm_statement :: string
  subject_entity_ids :: "string list"
  status :: claim_status
  supersedes :: "string list"
  contradicts :: "string list"
  reconciled_into :: "string option"
  clm_commitment :: "commitment option"
  asserted_at_ms :: int
  clm_provenance :: provenance
  clm_acl :: object_acl

datatype memory_node = EntityN entity | EventN event | ClaimN claim

record raw_record =
  rec_external_id :: string
  rec_connector :: string
  rec_occurred_at_ms :: int
  rec_title :: string
  rec_body :: string
  rec_url :: "string option"
  rec_sensitive :: bool
  rec_participants :: "string list"
  rec_metadata :: "(string \<times> json) list"

record candidate =
  cand_entities :: "entity list"
  cand_events :: "event list"
  cand_claims :: "claim list"

text \<open>Attributes every memory node has.\<close>

fun node_id :: "memory_node \<Rightarrow> string" where
  "node_id (EntityN e) = ent_id e"
| "node_id (EventN e) = evt_id e"
| "node_id (ClaimN c) = clm_id c"

fun node_owner :: "memory_node \<Rightarrow> string" where
  "node_owner (EntityN e) = ent_owner_id e"
| "node_owner (EventN e) = evt_owner_id e"
| "node_owner (ClaimN c) = clm_owner_id c"

fun node_acl :: "memory_node \<Rightarrow> object_acl" where
  "node_acl (EntityN e) = ent_acl e"
| "node_acl (EventN e) = evt_acl e"
| "node_acl (ClaimN c) = clm_acl c"

fun node_provenance :: "memory_node \<Rightarrow> provenance" where
  "node_provenance (EntityN e) = ent_provenance e"
| "node_provenance (EventN e) = evt_provenance e"
| "node_provenance (ClaimN c) = clm_provenance c"

end
