(* ===== verification/Store.thy ===== *)
theory Store
  imports Schema
begin

text \<open>
  \<open>storage/neo4j_store.py\<close>: the graph database behind the service. The Cypher statements
  are the repository's code, so each store method is a function on an explicit property
  graph: a list of rows (every row carries \<open>:Memory\<close> and exactly one of \<open>:Entity\<close>,
  \<open>:Event\<close>, \<open>:Claim\<close>), keyed by label and id as \<open>MERGE (n:Label {id: $id})\<close> does, and a
  list of relationships without duplicates, as \<open>MERGE (a)-[:R]->(b)\<close> keeps them. Rows of a
  query without \<open>ORDER BY\<close> come in the order of the row list. The vector index is the
  argument \<open>ann\<close> of \<open>vector_search\<close>. A \<open>payload\<close> is the model itself: that
  \<open>model_dump_json\<close> and \<open>model_validate_json\<close> are inverse is pydantic's contract, and the
  invariant below shows that a payload is always parsed by the class of its label.
\<close>

section \<open>Rows and columns\<close>

record stored_node =
  st_id :: string
  st_label :: string
  st_node :: memory_node
  st_text :: string
  st_occurred_at_ms :: int

fun label_of :: "memory_node \<Rightarrow> string" where
  "label_of (EntityN e) = ''Entity''"
| "label_of (EventN e) = ''Event''"
| "label_of (ClaimN c) = ''Claim''"

definition or_empty :: "string option \<Rightarrow> string" where
  "or_empty o' = (case o' of None \<Rightarrow> [] | Some s \<Rightarrow> s)"

fun text_of :: "memory_node \<Rightarrow> string" where
  "text_of (EntityN e) = py_join '' '' (ent_name e # ent_aliases e)"
| "text_of (EventN e) = py_strip (summary e @ '' '' @ or_empty (body e))"
| "text_of (ClaimN c) = clm_statement c"

fun occurred_at :: "memory_node \<Rightarrow> int" where
  "occurred_at (EntityN e) = last_seen_at_ms e"
| "occurred_at (EventN e) = sr_occurred_at_ms (evt_source e)"
| "occurred_at (ClaimN c) = asserted_at_ms c"

record promoted_columns =
  col_claim_status :: "string option"
  col_fulfillment :: "string option"
  col_due_at_ms :: "int option"
  col_owed_by :: "string option"
  col_owed_to :: "string option"

definition no_columns :: promoted_columns where
  "no_columns = \<lparr>col_claim_status = None, col_fulfillment = None, col_due_at_ms = None,
     col_owed_by = None, col_owed_to = None\<rparr>"

fun promoted :: "memory_node \<Rightarrow> promoted_columns" where
  "promoted (ClaimN c) =
     (let f = clm_commitment c in
      \<lparr>col_claim_status = Some (status_value (status c)),
       col_fulfillment = map_option (\<lambda>m. fulfillment_value (fulfillment m)) f,
       col_due_at_ms = Option.bind f due_at_ms,
       col_owed_by = map_option owed_by_entity_id f,
       col_owed_to = Option.bind f owed_to_entity_id\<rparr>)"
| "promoted (EntityN e) = no_columns"
| "promoted (EventN e) = no_columns"

record gnode =
  g_label :: string
  g_id :: string
  g_owner_id :: string
  g_payload :: memory_node
  g_text :: string
  g_occurred_at_ms :: int
  g_acl_sources :: "string list"
  g_acl_sensitivity :: string
  g_acl_entity_kinds :: "string list"
  g_embedding :: "real list"
  g_columns :: promoted_columns

type_synonym key = "string \<times> string"
type_synonym edge = "key \<times> string \<times> key"

record graph =
  gnodes :: "gnode list"
  gedges :: "edge list"

definition empty_graph :: graph where
  "empty_graph = \<lparr>gnodes = [], gedges = []\<rparr>"

definition gkey :: "gnode \<Rightarrow> key" where
  "gkey n = (g_label n, g_id n)"

definition hydrate :: "gnode \<Rightarrow> stored_node" where
  "hydrate n = \<lparr>st_id = g_id n, st_label = g_label n, st_node = g_payload n,
     st_text = g_text n, st_occurred_at_ms = g_occurred_at_ms n\<rparr>"

section \<open>Writes\<close>

definition row_of :: "memory_node \<Rightarrow> real list \<Rightarrow> gnode" where
  "row_of node emb =
     \<lparr>g_label = label_of node, g_id = node_id node, g_owner_id = node_owner node,
      g_payload = node, g_text = text_of node, g_occurred_at_ms = occurred_at node,
      g_acl_sources = acl_sources (node_acl node),
      g_acl_sensitivity = sensitivity_value (acl_sensitivity (node_acl node)),
      g_acl_entity_kinds = map kind_value (acl_entity_kinds (node_acl node)),
      g_embedding = emb, g_columns = promoted node\<rparr>"

definition upsert :: "memory_node \<Rightarrow> real list \<Rightarrow> graph \<Rightarrow> graph" where
  "upsert node emb G =
     (let row = row_of node emb in
      if list_ex (\<lambda>n. gkey n = gkey row) (gnodes G)
      then G\<lparr>gnodes := map (\<lambda>n. if gkey n = gkey row then row else n) (gnodes G)\<rparr>
      else G\<lparr>gnodes := gnodes G @ [row]\<rparr>)"

definition add_edge :: "edge \<Rightarrow> edge list \<Rightarrow> edge list" where
  "add_edge e es = (if e \<in> set es then es else es @ [e])"

definition link :: "string \<Rightarrow> string \<Rightarrow> string \<Rightarrow> graph \<Rightarrow> graph result" where
  "link from_id rel to_id G =
     (if \<not> is_identifier rel then Inl (ValueError rel)
      else Inr (G\<lparr>gedges := fold add_edge
             [(gkey a, rel, gkey b). a \<leftarrow> gnodes G, g_id a = from_id,
                                     b \<leftarrow> gnodes G, g_id b = to_id]
             (gedges G)\<rparr>))"

definition is_claim_row :: "string \<Rightarrow> gnode \<Rightarrow> bool" where
  "is_claim_row claim_id n \<longleftrightarrow> g_label n = ''Claim'' \<and> g_id n = claim_id"

definition set_payload :: "memory_node \<Rightarrow> gnode \<Rightarrow> gnode" where
  "set_payload node n = n\<lparr>g_payload := node, g_columns := promoted node\<rparr>"

definition mutate_claim ::
  "string \<Rightarrow> (claim \<Rightarrow> claim result) \<Rightarrow> graph \<Rightarrow> (claim option \<times> graph) result" where
  "mutate_claim claim_id mutate G =
     (case filter (is_claim_row claim_id) (gnodes G) of
        [] \<Rightarrow> Inr (None, G)
      | row # _ \<Rightarrow>
          (case g_payload row of
             ClaimN c \<Rightarrow> bind_e (mutate c) (\<lambda>c'.
               Inr (Some c', G\<lparr>gnodes := map (\<lambda>n. if is_claim_row claim_id n
                                                  then set_payload (ClaimN c') n else n) (gnodes G)\<rparr>))
           | _ \<Rightarrow> Inl (ValidationError claim_id)))"

definition set_claim_status :: "string \<Rightarrow> string \<Rightarrow> graph \<Rightarrow> graph result" where
  "set_claim_status claim_id st G =
     bind_e (mutate_claim claim_id (\<lambda>c. bind_e (claim_status_of st) (\<lambda>s. Inr (c\<lparr>status := s\<rparr>))) G)
       (\<lambda>(_, G'). Inr G')"

definition set_fulfillment ::
  "string \<Rightarrow> string \<Rightarrow> int option \<Rightarrow> graph \<Rightarrow> (claim option \<times> graph) result" where
  "set_fulfillment claim_id f settled_at G =
     bind_e (fulfillment_of f) (\<lambda>state.
       mutate_claim claim_id
         (\<lambda>c. case clm_commitment c of
                None \<Rightarrow> Inl (ValueError claim_id)
              | Some m \<Rightarrow> Inr (c\<lparr>clm_commitment :=
                  Some (m\<lparr>fulfillment := state,
                          settled_at_ms := (if state = Open then None else settled_at)\<rparr>)\<rparr>)) G)"

definition replace_payload :: "memory_node \<Rightarrow> graph \<Rightarrow> graph" where
  "replace_payload node G =
     G\<lparr>gnodes := map (\<lambda>n. if g_id n = node_id node then set_payload node n else n) (gnodes G)\<rparr>"

definition wipe_owner :: "string \<Rightarrow> graph \<Rightarrow> graph" where
  "wipe_owner owner G =
     (let gone = map gkey (filter (\<lambda>n. g_owner_id n = owner) (gnodes G)) in
      \<lparr>gnodes = filter (\<lambda>n. g_owner_id n \<noteq> owner) (gnodes G),
       gedges = filter (\<lambda>(a, r, b). a \<notin> set gone \<and> b \<notin> set gone) (gedges G)\<rparr>)"

section \<open>Reads\<close>

definition store_get :: "graph \<Rightarrow> string \<Rightarrow> stored_node option" where
  "store_get G i =
     (case filter (\<lambda>n. g_id n = i) (gnodes G) of [] \<Rightarrow> None | n # _ \<Rightarrow> Some (hydrate n))"

definition count_labels :: "graph \<Rightarrow> string \<Rightarrow> (string \<times> nat) list" where
  "count_labels G owner =
     (let labels = map g_label (filter (\<lambda>n. g_owner_id n = owner) (gnodes G)) in
      map (\<lambda>l. (l, length (filter (\<lambda>x. x = l) labels))) (dedup labels))"

definition claims_about :: "graph \<Rightarrow> string \<Rightarrow> string list \<Rightarrow> stored_node list" where
  "claims_about G owner ids =
     map hydrate (filter (\<lambda>c. g_label c = ''Claim'' \<and> g_owner_id c = owner \<and>
         list_ex (\<lambda>(a, r, b). a = gkey c \<and> r = ''ABOUT'' \<and> fst b = ''Entity'' \<and> snd b \<in> set ids)
           (gedges G))
       (gnodes G))"

text \<open>\<open>ORDER BY commitment_due_at_ms, id\<close> puts missing deadlines last.\<close>

definition due_order :: "gnode \<Rightarrow> nat \<times> int \<times> string" where
  "due_order n = (case col_due_at_ms (g_columns n) of
     Some d \<Rightarrow> (0, d, g_id n) | None \<Rightarrow> (1, 0, g_id n))"

definition is_open_row :: "string \<Rightarrow> int option \<Rightarrow> string option \<Rightarrow> bool \<Rightarrow> gnode \<Rightarrow> bool" where
  "is_open_row owner due_before owed_by include_superseded n \<longleftrightarrow>
     g_label n = ''Claim'' \<and> g_owner_id n = owner \<and>
     col_fulfillment (g_columns n) = Some ''open'' \<and>
     (include_superseded \<or> col_claim_status (g_columns n) = Some ''active'') \<and>
     (case due_before of None \<Rightarrow> True | Some b \<Rightarrow>
        (case col_due_at_ms (g_columns n) of None \<Rightarrow> False | Some d \<Rightarrow> d < b)) \<and>
     (case owed_by of None \<Rightarrow> True | Some e \<Rightarrow> col_owed_by (g_columns n) = Some e)"

definition open_commitments ::
  "graph \<Rightarrow> string \<Rightarrow> int option \<Rightarrow> string option \<Rightarrow> bool \<Rightarrow> stored_node list" where
  "open_commitments G owner due_before owed_by include_superseded =
     map hydrate (sort_key due_order
       (filter (is_open_row owner due_before owed_by include_superseded) (gnodes G)))"

definition vector_search ::
  "(nat \<Rightarrow> real list \<Rightarrow> (key \<times> real) list) \<Rightarrow> graph \<Rightarrow> string \<Rightarrow> real list \<Rightarrow> nat
    \<Rightarrow> (stored_node \<times> real) list" where
  "vector_search ann G owner emb top_k =
     take top_k [(hydrate n, score). (k, score) \<leftarrow> ann (max (top_k * 4) top_k) emb,
                                     n \<leftarrow> gnodes G, gkey n = k, g_owner_id n = owner]"

definition get_many :: "graph \<Rightarrow> string \<Rightarrow> string list \<Rightarrow> stored_node list" where
  "get_many G owner ids =
     map hydrate (filter (\<lambda>n. g_owner_id n = owner \<and> g_id n \<in> set ids) (gnodes G))"

subsection \<open>Variable-length patterns\<close>

text \<open>
  \<open>(a)-[:R*1..k]-(b)\<close> matches the undirected paths of length 1 to \<open>k\<close> that use no
  relationship twice. \<open>trails es k v used\<close> lists those from \<open>v\<close>, each as the nodes after
  \<open>v\<close> and the relationships taken.
\<close>

definition other_end :: "edge \<Rightarrow> key \<Rightarrow> key option" where
  "other_end e v = (case e of (a, r, b) \<Rightarrow> if a = v then Some b else if b = v then Some a else None)"

fun trails :: "edge list \<Rightarrow> nat \<Rightarrow> key \<Rightarrow> edge list \<Rightarrow> (key list \<times> edge list) list" where
  "trails es 0 v used = []"
| "trails es (Suc k) v used =
     concat (map (\<lambda>e. case other_end e v of
                 None \<Rightarrow> []
               | Some w \<Rightarrow> if e \<in> set used then []
                   else ([w], [e]) # map (\<lambda>(ws, fs). (w # ws, e # fs)) (trails es k w (e # used)))
       es)"

definition owned :: "graph \<Rightarrow> string \<Rightarrow> key \<Rightarrow> bool" where
  "owned G owner k = list_ex (\<lambda>n. gkey n = k \<and> g_owner_id n = owner) (gnodes G)"

definition rel_edges :: "string \<Rightarrow> graph \<Rightarrow> edge list" where
  "rel_edges r G = filter (\<lambda>(a, r', b). r' = r) (gedges G)"

text \<open>The paths all of whose nodes belong to the owner, \<open>ALL(n IN nodes(path) WHERE ...)\<close>.\<close>

definition owned_trails :: "graph \<Rightarrow> string \<Rightarrow> string \<Rightarrow> nat \<Rightarrow> key \<Rightarrow> (key list \<times> edge list) list" where
  "owned_trails G owner r k seed =
     filter (\<lambda>(ws, fs). list_all (owned G owner) (seed # ws)) (trails (rel_edges r G) k seed [])"

definition chain_keys :: "graph \<Rightarrow> string \<Rightarrow> nat \<Rightarrow> key \<Rightarrow> key list" where
  "chain_keys G owner max_hops seed =
     filter (\<lambda>k. fst k = ''Claim'')
       (map (\<lambda>(ws, fs). last ws) (owned_trails G owner ''SUPERSEDES'' max_hops seed)) @ [seed]"

definition chain_order :: "gnode \<Rightarrow> int \<times> string" where
  "chain_order n = (g_occurred_at_ms n, g_id n)"

definition supersession_chain :: "graph \<Rightarrow> string \<Rightarrow> string \<Rightarrow> nat \<Rightarrow> stored_node list" where
  "supersession_chain G owner claim_id max_hops =
     (let seeds = filter (\<lambda>n. is_claim_row claim_id n \<and> g_owner_id n = owner) (gnodes G);
          found = concat (map (\<lambda>s. chain_keys G owner max_hops (gkey s)) seeds)
      in map hydrate (sort_key chain_order (filter (\<lambda>n. gkey n \<in> set found) (gnodes G))))"

definition conflict_links :: "graph \<Rightarrow> string \<Rightarrow> string list \<Rightarrow> (string \<times> string) list" where
  "conflict_links G owner ids =
     sorted_set [(snd a, snd b). (a, r, b) \<leftarrow> rel_edges ''CONTRADICTS'' G,
        fst a = ''Claim'', fst b = ''Claim'', owned G owner a, owned G owner b,
        snd a \<in> set ids \<or> snd b \<in> set ids]"

text \<open>\<open>RETURN other.id AS id, min(length(path)) AS hops\<close>.\<close>

definition min_hops :: "(string \<times> nat) list \<Rightarrow> (string \<times> nat) list" where
  "min_hops ps = map (\<lambda>i. (i, Min (set (map snd (filter (\<lambda>p. fst p = i) ps))))) (dedup (map fst ps))"

definition cites_chain ::
  "graph \<Rightarrow> string \<Rightarrow> string \<Rightarrow> nat \<Rightarrow> (string \<times> nat) list \<times> (string \<times> string) list" where
  "cites_chain G owner node_id' hops =
     (let seeds = filter (\<lambda>n. g_id n = node_id' \<and> g_owner_id n = owner) (gnodes G);
          paths = concat (map (\<lambda>s. owned_trails G owner ''CITES'' hops (gkey s)) seeds)
      in (min_hops (map (\<lambda>(ws, fs). (snd (last ws), length ws)) paths),
          sorted_set [(snd a, snd b). (ws, fs) \<leftarrow> paths, (a, r, b) \<leftarrow> fs]))"

definition neighbour_ids :: "graph \<Rightarrow> string \<Rightarrow> string list \<Rightarrow> nat \<Rightarrow> (string \<times> nat) list" where
  "neighbour_ids G owner ids hops =
     (let seeds = filter (\<lambda>n. g_owner_id n = owner \<and> g_id n \<in> set ids) (gnodes G);
          paths = concat (map (\<lambda>s. trails (gedges G) hops (gkey s) []) seeds)
      in min_hops (map (\<lambda>(ws, fs). (snd (last ws), length ws))
                     (filter (\<lambda>(ws, fs). owned G owner (last ws)) paths)))"

definition edges_among :: "graph \<Rightarrow> string \<Rightarrow> string list \<Rightarrow> (string \<times> string \<times> string) list" where
  "edges_among G owner ids =
     (if ids = [] then []
      else sorted_set [(snd a, r, snd b). (a, r, b) \<leftarrow> gedges G,
             owned G owner a, owned G owner b, snd a \<in> set ids, snd b \<in> set ids])"

end
