(* ===== verification/Store_Inv.thy ===== *)
theory Store_Inv
  imports Store
begin

text \<open>
  The invariant of the graph store and what every write keeps of it: keys are unique, a
  payload is of the class and id its row says, the promoted columns are those of the
  payload, and relationships join existing rows and are not repeated. The writes are the
  rules of a step relation; \<open>reachable_store\<close> are the graphs they lead to from the empty one.
\<close>

section \<open>The invariant\<close>

definition row_ok :: "gnode \<Rightarrow> bool" where
  "row_ok n \<longleftrightarrow> g_label n = label_of (g_payload n) \<and> g_id n = node_id (g_payload n)
     \<and> g_columns n = promoted (g_payload n)"

definition keys :: "graph \<Rightarrow> key list" where
  "keys G = map gkey (gnodes G)"

definition store_ok :: "graph \<Rightarrow> bool" where
  "store_ok G \<longleftrightarrow> distinct (keys G) \<and> (\<forall>n \<in> set (gnodes G). row_ok n) \<and> distinct (gedges G)
     \<and> (\<forall>(a, r, b) \<in> set (gedges G). a \<in> set (keys G) \<and> b \<in> set (keys G))"

lemma store_okD:
  assumes "store_ok G"
  shows "distinct (keys G)" "n \<in> set (gnodes G) \<Longrightarrow> row_ok n" "distinct (gedges G)"
    "(a, r, b) \<in> set (gedges G) \<Longrightarrow> a \<in> set (keys G)"
    "(a, r, b) \<in> set (gedges G) \<Longrightarrow> b \<in> set (keys G)"
  using assms by (auto simp: store_ok_def)

lemma empty_store_ok: "store_ok empty_graph"
  by (simp add: store_ok_def empty_graph_def keys_def)

lemma row_of_simps [simp]:
  "g_label (row_of node emb) = label_of node" "g_id (row_of node emb) = node_id node"
  "g_owner_id (row_of node emb) = node_owner node" "g_payload (row_of node emb) = node"
  "g_text (row_of node emb) = text_of node" "g_columns (row_of node emb) = promoted node"
  "gkey (row_of node emb) = (label_of node, node_id node)"
  by (simp_all add: row_of_def gkey_def)

lemma row_ok_row_of [simp]: "row_ok (row_of node emb)"
  by (simp add: row_ok_def)

lemma set_payload_simps [simp]:
  "g_label (set_payload node n) = g_label n" "g_id (set_payload node n) = g_id n"
  "g_owner_id (set_payload node n) = g_owner_id n" "g_payload (set_payload node n) = node"
  "g_columns (set_payload node n) = promoted node" "gkey (set_payload node n) = gkey n"
  by (simp_all add: set_payload_def gkey_def)

lemma gkey_eq [simp]: "gkey n = (l, i) \<longleftrightarrow> g_label n = l \<and> g_id n = i"
  by (simp add: gkey_def)

lemma is_claim_row_key: "is_claim_row i n \<longleftrightarrow> gkey n = (''Claim'', i)"
  by (simp add: is_claim_row_def)

subsection \<open>Upsert\<close>

lemma keys_upsert: "keys (upsert node emb G) =
    (if (label_of node, node_id node) \<in> set (keys G) then keys G
     else keys G @ [(label_of node, node_id node)])"
proof -
  have "map (gkey \<circ> (\<lambda>n. if gkey n = gkey (row_of node emb) then row_of node emb else n)) (gnodes G)
      = map gkey (gnodes G)"
    by (rule map_cong) (simp_all del: gkey_eq row_of_simps(7))
  then show ?thesis
    by (auto simp: upsert_def keys_def Let_def list_ex_iff simp del: gkey_eq intro!: rev_image_eqI)
qed

lemma gedges_upsert [simp]: "gedges (upsert node emb G) = gedges G"
  by (simp add: upsert_def Let_def)

lemma set_gnodes_upsert:
  "set (gnodes (upsert node emb G)) =
     insert (row_of node emb) {n \<in> set (gnodes G). gkey n \<noteq> (label_of node, node_id node)}"
  by (auto simp: upsert_def Let_def list_ex_iff simp del: gkey_eq)

lemma upsert_ok:
  assumes "store_ok G"
  shows "store_ok (upsert node emb G)"
  using assms by (auto simp: store_ok_def keys_upsert set_gnodes_upsert)

subsection \<open>Relationships\<close>

lemma fold_add_edge:
  "distinct es \<Longrightarrow> distinct (fold add_edge new es)"
  "set (fold add_edge new es) = set es \<union> set new"
  by (induction new arbitrary: es) (auto simp: add_edge_def)

lemma link_Inr: "is_identifier rel \<Longrightarrow> \<exists>G'. link i rel j G = Inr G'"
  by (simp add: link_def)

lemma link_facts:
  assumes "link i rel j G = Inr G'"
  shows "gnodes G' = gnodes G"
    "set (gedges G') = set (gedges G) \<union>
       {(gkey a, rel, gkey b) | a b. a \<in> set (gnodes G) \<and> b \<in> set (gnodes G) \<and> g_id a = i \<and> g_id b = j}"
    "distinct (gedges G) \<Longrightarrow> distinct (gedges G')"
proof -
  let ?new = "[(gkey a, rel, gkey b). a \<leftarrow> gnodes G, g_id a = i, b \<leftarrow> gnodes G, g_id b = j]"
  have G': "G' = G\<lparr>gedges := fold add_edge ?new (gedges G)\<rparr>"
    using assms by (auto simp: link_def split: if_splits)
  show "gnodes G' = gnodes G" by (simp add: G')
  show "distinct (gedges G) \<Longrightarrow> distinct (gedges G')" by (simp add: G' fold_add_edge)
  have "set ?new = {(gkey a, rel, gkey b) | a b.
      a \<in> set (gnodes G) \<and> b \<in> set (gnodes G) \<and> g_id a = i \<and> g_id b = j}"
    by (auto simp del: gkey_eq split: if_splits)
  then show "set (gedges G') = set (gedges G) \<union>
       {(gkey a, rel, gkey b) | a b. a \<in> set (gnodes G) \<and> b \<in> set (gnodes G) \<and> g_id a = i \<and> g_id b = j}"
    unfolding G' by (simp add: fold_add_edge(2))
qed

lemma link_ok:
  assumes "store_ok G" and "link i rel j G = Inr G'"
  shows "store_ok G'"
  using assms(1) link_facts [OF assms(2)] by (auto simp: store_ok_def keys_def)

subsection \<open>Claim mutations\<close>

text \<open>The shape of every result: an unknown id, or a rewritten claim row.\<close>

lemma mutate_claim_cases:
  assumes "mutate_claim i f G = Inr (r, G')"
  obtains "r = None" "G' = G" "\<forall>n \<in> set (gnodes G). \<not> is_claim_row i n"
  | c c' n where "r = Some c'" "f c = Inr c'" "n \<in> set (gnodes G)" "is_claim_row i n"
      "g_payload n = ClaimN c"
      "G' = G\<lparr>gnodes := map (\<lambda>n. if is_claim_row i n then set_payload (ClaimN c') n else n) (gnodes G)\<rparr>"
proof (cases "filter (is_claim_row i) (gnodes G)")
  case Nil
  with assms that(1) show ?thesis by (auto simp: mutate_claim_def filter_empty_conv)
next
  case (Cons n ns)
  then have n: "n \<in> set (gnodes G)" "is_claim_row i n"
    using filter_eq_ConsD [OF Cons] by auto
  from assms Cons obtain c where "g_payload n = ClaimN c"
    by (auto simp: mutate_claim_def split: memory_node.splits)
  with assms Cons n that(2) show ?thesis
    by (auto simp: mutate_claim_def elim!: bind_e_InrE)
qed

lemma keys_set_payload:
  "map gkey (map (\<lambda>n. if P n then set_payload node n else n) ns) = map gkey ns"
  by (simp add: comp_def if_distrib [of gkey] cong: if_cong)

lemma mutate_claim_ok:
  assumes ok: "store_ok G" and m: "mutate_claim i f G = Inr (r, G')"
    and id: "\<And>c c'. f c = Inr c' \<Longrightarrow> clm_id c' = clm_id c"
  shows "store_ok G'"
  using m
proof (cases rule: mutate_claim_cases)
  case 1
  with ok show ?thesis by simp
next
  case (2 c c' n)
  have "clm_id c' = i"
    using store_okD(2) [OF ok 2(3)] 2 id by (simp add: row_ok_def is_claim_row_def)
  then have "row_ok (set_payload (ClaimN c') m)" if "is_claim_row i m" for m
    using that by (simp add: row_ok_def is_claim_row_def)
  with ok 2 show ?thesis
    by (auto simp: store_ok_def keys_def keys_set_payload simp del: map_map)
qed

lemma set_claim_status_cases:
  assumes "set_claim_status i st G = Inr G'"
  obtains r where "mutate_claim i (\<lambda>c. bind_e (claim_status_of st) (\<lambda>s. Inr (c\<lparr>status := s\<rparr>))) G
     = Inr (r, G')"
  using assms by (auto simp: set_claim_status_def elim!: bind_e_InrE)

lemma set_claim_status_ok:
  assumes "store_ok G" and "set_claim_status i st G = Inr G'"
  shows "store_ok G'"
proof -
  obtain r where "mutate_claim i (\<lambda>c. bind_e (claim_status_of st) (\<lambda>s. Inr (c\<lparr>status := s\<rparr>))) G
     = Inr (r, G')" by (rule set_claim_status_cases [OF assms(2)])
  then show ?thesis
    by (rule mutate_claim_ok [OF assms(1)]) (auto elim!: bind_e_InrE)
qed

lemma set_fulfillment_ok:
  assumes "store_ok G" and "set_fulfillment i f t G = Inr (r, G')"
  shows "store_ok G'"
  using assms unfolding set_fulfillment_def
  by (auto elim!: bind_e_InrE mutate_claim_ok split: option.splits)

text \<open>A known status never makes the update fail on a well-formed store.\<close>

lemma set_claim_status_total:
  assumes "store_ok G"
  shows "\<exists>G'. set_claim_status i (status_value s) G = Inr G'"
proof (cases "filter (is_claim_row i) (gnodes G)")
  case Nil
  then show ?thesis by (simp add: set_claim_status_def mutate_claim_def)
next
  case (Cons n ns)
  then have "n \<in> set (gnodes G)" "is_claim_row i n"
    using filter_eq_ConsD [OF Cons] by auto
  with store_okD(2) [OF assms] have "label_of (g_payload n) = ''Claim''"
    by (auto simp: row_ok_def is_claim_row_def)
  then obtain c where "g_payload n = ClaimN c" by (cases "g_payload n") auto
  with Cons show ?thesis by (simp add: set_claim_status_def mutate_claim_def)
qed

subsection \<open>Replacing a payload, wiping an owner\<close>

lemma replace_payload_ok:
  assumes "store_ok G"
    and "\<forall>n \<in> set (gnodes G). g_id n = node_id node \<longrightarrow> g_label n = label_of node"
  shows "store_ok (replace_payload node G)"
  using assms
  by (auto simp: store_ok_def keys_def replace_payload_def keys_set_payload row_ok_def simp del: map_map)

lemma keys_wipe: "keys (wipe_owner owner G) = map gkey (filter (\<lambda>n. g_owner_id n \<noteq> owner) (gnodes G))"
  by (simp add: wipe_owner_def keys_def Let_def)

lemma wipe_owner_ok:
  assumes "store_ok G"
  shows "store_ok (wipe_owner owner G)"
proof -
  let ?keep = "filter (\<lambda>n. g_owner_id n \<noteq> owner) (gnodes G)"
  let ?gone = "filter (\<lambda>n. g_owner_id n = owner) (gnodes G)"
  have "k \<in> gkey ` set ?keep" if "k \<in> set (keys G)" "k \<notin> gkey ` set ?gone" for k
    using that by (auto simp: keys_def simp del: gkey_eq)
  with assms show ?thesis
    by (auto simp: store_ok_def keys_def wipe_owner_def Let_def distinct_map_filter simp del: gkey_eq
        split: prod.splits)
qed

section \<open>Reachable stores\<close>

inductive store_step :: "graph \<Rightarrow> graph \<Rightarrow> bool" where
  step_upsert: "store_step G (upsert node emb G)"
| step_link: "link i rel j G = Inr G' \<Longrightarrow> store_step G G'"
| step_status: "set_claim_status i st G = Inr G' \<Longrightarrow> store_step G G'"
| step_fulfillment: "set_fulfillment i f t G = Inr (r, G') \<Longrightarrow> store_step G G'"
| step_replace: "\<forall>n \<in> set (gnodes G). g_id n = node_id node \<longrightarrow> g_label n = label_of node \<Longrightarrow>
    store_step G (replace_payload node G)"
| step_wipe: "store_step G (wipe_owner owner G)"

inductive reachable_store :: "graph \<Rightarrow> bool" where
  reach_empty: "reachable_store empty_graph"
| reach_step: "reachable_store G \<Longrightarrow> store_step G G' \<Longrightarrow> reachable_store G'"

lemma store_step_ok: "store_step G G' \<Longrightarrow> store_ok G \<Longrightarrow> store_ok G'"
  by (induction rule: store_step.induct)
    (auto intro: upsert_ok link_ok set_claim_status_ok set_fulfillment_ok replace_payload_ok wipe_owner_ok)

lemma reachable_ok: "reachable_store G \<Longrightarrow> store_ok G"
  by (induction rule: reachable_store.induct) (auto intro: empty_store_ok store_step_ok)


section \<open>Properties\<close>


definition sample_provenance :: provenance where
  "sample_provenance = \<lparr>prov_citations = [], derived_by = ''x'', confidence = Fin 1 0, created_at_ms = 0\<rparr>"

definition sample_claim :: claim where
  "sample_claim = \<lparr>clm_id = ''clm_1'', clm_owner_id = ''o'', clm_statement = ''project Atlas will use Redis.'',
     subject_entity_ids = [''ent_1''], status = Active, supersedes = [], contradicts = [],
     reconciled_into = None,
     clm_commitment = Some \<lparr>owed_by_entity_id = ''ent_2'', owed_to_entity_id = None,
        due_at_ms = Some 7, fulfillment = Open, settled_at_ms = None\<rparr>,
     asserted_at_ms = 5, clm_provenance = sample_provenance, clm_acl = sample_acl\<rparr>"

lemma sample_reachable: "reachable_store (upsert (ClaimN sample_claim) [] empty_graph)"
  by (rule reach_step [OF reach_empty step_upsert])


end
