(* ===== verification/Store_Reads.thy ===== *)
theory Store_Reads
  imports Store_Inv
begin

text \<open>
  What the store's operations mean for the claims it holds: the two update operations as
  updates of a map from ids to claims, and the commitment query on promoted columns as a
  query on the claims themselves.
\<close>

section \<open>The store as a map of claims\<close>

definition stored_claim :: "graph \<Rightarrow> string \<Rightarrow> claim option" where
  "stored_claim G i = (case filter (is_claim_row i) (gnodes G) of
     [] \<Rightarrow> None
   | n # _ \<Rightarrow> (case g_payload n of ClaimN c \<Rightarrow> Some c | _ \<Rightarrow> None))"

lemma claim_row_payload:
  assumes "row_ok n" and "is_claim_row i n"
  obtains c where "g_payload n = ClaimN c" and "clm_id c = i"
  using assms by (cases "g_payload n") (auto simp: row_ok_def is_claim_row_def)

lemma option_eq_by_Some: "(\<And>d. x = Some d \<longleftrightarrow> y = Some d) \<Longrightarrow> x = y"
  by (cases x; cases y) auto

lemma unique_claim_row:
  assumes "store_ok G" "n \<in> set (gnodes G)" "m \<in> set (gnodes G)" "gkey n = gkey m"
  shows "n = m"
  using assms store_okD(1) [OF assms(1)] by (auto simp: keys_def distinct_map dest: inj_onD)

lemma filter_claim_row:
  assumes "store_ok G" "n \<in> set (gnodes G)" "is_claim_row i n"
  shows "filter (is_claim_row i) (gnodes G) = [n]"
proof (rule filter_unique)
  show "distinct (gnodes G)" using store_okD(1) [OF assms(1)] by (simp add: keys_def distinct_map)
  show "is_claim_row i m \<longleftrightarrow> m = n" if "m \<in> set (gnodes G)" for m
    using that assms unique_claim_row [OF assms(1), of m n] by (metis is_claim_row_key)
qed (rule assms(2))

lemma stored_claim_iff:
  assumes "store_ok G"
  shows "stored_claim G i = Some c \<longleftrightarrow>
     (\<exists>n \<in> set (gnodes G). g_label n = ''Claim'' \<and> g_id n = i \<and> g_payload n = ClaimN c)"
proof
  assume "stored_claim G i = Some c"
  then obtain n ns where "filter (is_claim_row i) (gnodes G) = n # ns" "g_payload n = ClaimN c"
    by (auto simp: stored_claim_def split: list.splits memory_node.splits)
  then show "\<exists>n \<in> set (gnodes G). g_label n = ''Claim'' \<and> g_id n = i \<and> g_payload n = ClaimN c"
    by (intro bexI [of _ n]) (auto simp: is_claim_row_def dest: filter_eq_ConsD)
next
  assume "\<exists>n \<in> set (gnodes G). g_label n = ''Claim'' \<and> g_id n = i \<and> g_payload n = ClaimN c"
  then obtain n where n: "n \<in> set (gnodes G)" "is_claim_row i n" "g_payload n = ClaimN c"
    by (auto simp: is_claim_row_def)
  with filter_claim_row [OF assms n(1,2)] show "stored_claim G i = Some c"
    by (simp add: stored_claim_def)
qed

lemma stored_claim_id: "store_ok G \<Longrightarrow> stored_claim G i = Some c \<Longrightarrow> clm_id c = i"
  by (auto simp: stored_claim_iff row_ok_def dest: store_okD(2))

lemma no_claim_row:
  assumes "store_ok G" "stored_claim G i = None"
  shows "filter (is_claim_row i) (gnodes G) = []"
proof (rule ccontr)
  assume "filter (is_claim_row i) (gnodes G) \<noteq> []"
  then obtain n where n: "n \<in> set (gnodes G)" "is_claim_row i n" by (auto simp: filter_empty_conv)
  from claim_row_payload [OF store_okD(2) [OF assms(1) n(1)] n(2)] obtain c where "g_payload n = ClaimN c"
    by blast
  with n have "stored_claim G i = Some c"
    unfolding stored_claim_iff [OF assms(1)] is_claim_row_def by blast
  with assms show False by simp
qed

text \<open>\<open>mutate_claim\<close> is a partial update of the map of claims.\<close>

lemma mutate_claim_absent:
  "store_ok G \<Longrightarrow> stored_claim G i = None \<Longrightarrow> mutate_claim i f G = Inr (None, G)"
  by (simp add: mutate_claim_def no_claim_row)

lemma stored_claim_row:
  assumes "store_ok G" "stored_claim G i = Some c"
  obtains n where "n \<in> set (gnodes G)" "is_claim_row i n" "g_payload n = ClaimN c"
    "filter (is_claim_row i) (gnodes G) = [n]"
proof -
  from assms obtain n where n: "n \<in> set (gnodes G)" "is_claim_row i n" "g_payload n = ClaimN c"
    unfolding stored_claim_iff [OF assms(1)] is_claim_row_def by blast
  from that [OF n filter_claim_row [OF assms(1) n(1,2)]] show ?thesis .
qed

lemma mutate_claim_error:
  assumes "store_ok G" "stored_claim G i = Some c" "f c = Inl e"
  shows "mutate_claim i f G = Inl e"
  using assms(1,2)
proof (rule stored_claim_row)
  fix n assume "g_payload n = ClaimN c" "filter (is_claim_row i) (gnodes G) = [n]"
  with assms(3) show ?thesis by (simp add: mutate_claim_def)
qed

lemma mutate_claim_update:
  assumes ok: "store_ok G" and c: "stored_claim G i = Some c" and f: "f c = Inr c'"
    and id: "\<And>d d'. f d = Inr d' \<Longrightarrow> clm_id d' = clm_id d"
  shows "\<exists>G'. mutate_claim i f G = Inr (Some c', G') \<and>
    stored_claim G' = (stored_claim G)(i \<mapsto> c') \<and> gedges G' = gedges G \<and> keys G' = keys G"
proof -
  obtain n where n: "n \<in> set (gnodes G)" "is_claim_row i n" "g_payload n = ClaimN c"
    "filter (is_claim_row i) (gnodes G) = [n]"
    by (rule stored_claim_row [OF ok c])
  let ?upd = "\<lambda>m. if is_claim_row i m then set_payload (ClaimN c') m else m"
  let ?G = "G\<lparr>gnodes := map ?upd (gnodes G)\<rparr>"
  have m: "mutate_claim i f G = Inr (Some c', ?G)"
    using n f by (simp add: mutate_claim_def)
  have ok': "store_ok ?G" using mutate_claim_ok [OF ok m id] .
  have "stored_claim ?G j = ((stored_claim G)(i \<mapsto> c')) j" for j
  proof (cases "j = i")
    case True
    have "set_payload (ClaimN c') n \<in> set (gnodes ?G)" using n by force
    then have "stored_claim ?G i = Some c'"
      unfolding stored_claim_iff [OF ok'] using n(2)
      by (intro bexI [of _ "set_payload (ClaimN c') n"]) (simp_all add: is_claim_row_def)
    with True show ?thesis by simp
  next
    case False
    have eq: "g_label (?upd m) = ''Claim'' \<and> g_id (?upd m) = j \<and> g_payload (?upd m) = ClaimN d \<longleftrightarrow>
        g_label m = ''Claim'' \<and> g_id m = j \<and> g_payload m = ClaimN d" for m d
      using False by (cases "is_claim_row i m") (auto simp: is_claim_row_def)
    have rows: "gnodes ?G = map ?upd (gnodes G)" by simp
    have "stored_claim ?G j = Some d \<longleftrightarrow> stored_claim G j = Some d" for d
      unfolding stored_claim_iff [OF ok'] stored_claim_iff [OF ok] rows set_map bex_simps eq ..
    then have "stored_claim ?G j = stored_claim G j" by (rule option_eq_by_Some)
    with False show ?thesis by simp
  qed
  then have "stored_claim ?G = (stored_claim G)(i \<mapsto> c')" by blast
  with m show ?thesis by (simp add: keys_def keys_set_payload del: map_map)
qed

section \<open>Open commitments\<close>

text \<open>The specification: an outstanding obligation, read off the claim itself.\<close>

definition outstanding :: "int option \<Rightarrow> string option \<Rightarrow> bool \<Rightarrow> claim \<Rightarrow> bool" where
  "outstanding due_before owed_by include_superseded c \<longleftrightarrow>
     (\<exists>m. clm_commitment c = Some m \<and> fulfillment m = Open \<and>
        (include_superseded \<or> status c = Active) \<and>
        (\<forall>b. due_before = Some b \<longrightarrow> (\<exists>d. due_at_ms m = Some d \<and> d < b)) \<and>
        (\<forall>e. owed_by = Some e \<longrightarrow> owed_by_entity_id m = e))"

lemma is_open_row_iff:
  assumes "row_ok n"
  shows "is_open_row owner b e s n \<longleftrightarrow>
     g_owner_id n = owner \<and> (\<exists>c. g_payload n = ClaimN c \<and> outstanding b e s c)"
proof (cases "g_payload n")
  case (ClaimN c)
  have open_iff: "fulfillment_value f = ''open'' \<longleftrightarrow> f = Open" for f by (cases f) simp_all
  have active_iff: "status_value t = ''active'' \<longleftrightarrow> t = Active" for t by (cases t) simp_all
  from assms ClaimN show ?thesis
    by (cases "clm_commitment c"; cases b; cases e)
      (auto simp: row_ok_def is_open_row_def outstanding_def open_iff active_iff Let_def
        split: option.splits)
qed (use assms in \<open>auto simp: row_ok_def is_open_row_def\<close>)

text \<open>A commitment's place in the answer: deadlines ascending, those without one last.\<close>

definition due_rank :: "claim \<Rightarrow> nat \<times> int \<times> string" where
  "due_rank c = (case Option.bind (clm_commitment c) due_at_ms of
     Some d \<Rightarrow> (0, d, clm_id c) | None \<Rightarrow> (1, 0, clm_id c))"

lemma due_order_rank: "row_ok n \<Longrightarrow> g_payload n = ClaimN c \<Longrightarrow> due_order n = due_rank c"
  by (auto simp: row_ok_def due_order_def due_rank_def Let_def split: option.splits)

text \<open>\<open>set_claim_status\<close> as an update of the map of claims.\<close>

lemma set_claim_status_effect:
  assumes "store_ok G"
  shows "\<exists>G'. set_claim_status i (status_value s) G = Inr G' \<and> keys G' = keys G \<and> gedges G' = gedges G
     \<and> stored_claim G' = (case stored_claim G i of
           None \<Rightarrow> stored_claim G | Some c \<Rightarrow> (stored_claim G)(i \<mapsto> c\<lparr>status := s\<rparr>))"
proof (cases "stored_claim G i")
  case None
  with mutate_claim_absent [OF assms] show ?thesis by (auto simp: set_claim_status_def)
next
  case (Some c)
  let ?f = "\<lambda>c. Inr (c\<lparr>status := s\<rparr>)"
  have id: "\<And>d d'. ?f d = Inr d' \<Longrightarrow> clm_id d' = clm_id d" by auto
  from mutate_claim_update [OF assms Some, where f = ?f, OF refl id]
  obtain G' where "mutate_claim i ?f G = Inr (Some (c\<lparr>status := s\<rparr>), G')"
    "stored_claim G' = (stored_claim G)(i \<mapsto> c\<lparr>status := s\<rparr>)" "gedges G' = gedges G" "keys G' = keys G"
    by blast
  with Some show ?thesis by (simp add: set_claim_status_def)
qed

section \<open>Properties\<close>

text \<open>The two update operations move independent axes of a claim and nothing else.
  On a well-formed store, \<open>set_claim_status\<close> rewrites only \<open>status\<close> of the named claim
  (and is a no-op when there is none), so a superseded commitment stays open.\<close>

theorem set_claim_status_axis:
  assumes "store_ok G"
  shows "\<exists>G'. set_claim_status i (status_value s) G = Inr G' \<and> keys G' = keys G \<and> gedges G' = gedges G
     \<and> stored_claim G' = (case stored_claim G i of
           None \<Rightarrow> stored_claim G | Some c \<Rightarrow> (stored_claim G)(i \<mapsto> c\<lparr>status := s\<rparr>))"
  by (rule set_claim_status_effect [OF assms])

theorem set_claim_status_axis_witness:
  "\<exists>G'. set_claim_status ''clm_1'' ''superseded'' (upsert (ClaimN sample_claim) [] empty_graph) = Inr G'
     \<and> stored_claim G' ''clm_1'' = Some (sample_claim\<lparr>status := Superseded\<rparr>)"
proof -
  let ?G = "upsert (ClaimN sample_claim) [] empty_graph"
  have ok: "store_ok ?G" by (rule reachable_ok [OF sample_reachable])
  have "stored_claim ?G ''clm_1'' = Some sample_claim"
    by (simp add: stored_claim_def upsert_def empty_graph_def is_claim_row_def sample_claim_def)
  with set_claim_status_axis [OF ok, of "''clm_1''" Superseded] show ?thesis by auto
qed

text \<open>C0: \<open>set_fulfillment\<close> rewrites only the lifecycle fields of the commitment facet and
  leaves \<open>status\<close> alone; \<open>settled_at_ms\<close> is cleared when the commitment is reopened; an
  unknown state raises before anything is read, a claim without a facet raises and leaves
  no trace, and an unknown id returns \<open>None\<close>.\<close>

theorem set_fulfillment_axis:
  assumes "store_ok G"
  shows "(fulfillment_of f = Inl e \<longrightarrow> set_fulfillment i f t G = Inl e) \<and>
    (fulfillment_of f = Inr st \<longrightarrow>
      (case stored_claim G i of
         None \<Rightarrow> set_fulfillment i f t G = Inr (None, G)
       | Some c \<Rightarrow>
          (case clm_commitment c of
             None \<Rightarrow> set_fulfillment i f t G = Inl (ValueError i)
           | Some m \<Rightarrow>
              let c' = c\<lparr>clm_commitment := Some (m\<lparr>fulfillment := st,
                           settled_at_ms := (if st = Open then None else t)\<rparr>)\<rparr> in
              \<exists>G'. set_fulfillment i f t G = Inr (Some c', G')
                 \<and> stored_claim G' = (stored_claim G)(i \<mapsto> c') \<and> status c' = status c)))"
proof -
  let ?f = "\<lambda>c. case clm_commitment c of None \<Rightarrow> Inl (ValueError i)
     | Some m \<Rightarrow> Inr (c\<lparr>clm_commitment := Some (m\<lparr>fulfillment := st,
                          settled_at_ms := (if st = Open then None else t)\<rparr>)\<rparr>)"
  have id: "clm_id c' = clm_id c" if "?f c = Inr c'" for c c'
    using that by (auto split: option.splits)
  have run: "set_fulfillment i f t G = mutate_claim i ?f G" if "fulfillment_of f = Inr st"
    using that by (simp add: set_fulfillment_def)
  show ?thesis
  proof (cases "stored_claim G i")
    case None
    with mutate_claim_absent [OF assms] run show ?thesis by (auto simp: set_fulfillment_def)
  next
    case (Some c)
    show ?thesis
    proof (cases "clm_commitment c")
      case None
      with Some mutate_claim_error [OF assms Some, of ?f] run show ?thesis
        by (auto simp: set_fulfillment_def)
    next
      case (Some m)
      let ?c' = "c\<lparr>clm_commitment := Some (m\<lparr>fulfillment := st,
                     settled_at_ms := (if st = Open then None else t)\<rparr>)\<rparr>"
      have "?f c = Inr ?c'" using Some by simp
      from mutate_claim_update [OF assms \<open>stored_claim G i = Some c\<close>, where f = ?f, OF this id]
      obtain G' where "mutate_claim i ?f G = Inr (Some ?c', G')"
        "stored_claim G' = (stored_claim G)(i \<mapsto> ?c')" by blast
      then have "fulfillment_of f = Inr st \<Longrightarrow> \<exists>G'. set_fulfillment i f t G = Inr (Some ?c', G')
          \<and> stored_claim G' = (stored_claim G)(i \<mapsto> ?c') \<and> status ?c' = status c"
        by (simp only: run) simp
      with \<open>stored_claim G i = Some c\<close> Some show ?thesis
        by (simp add: Let_def) (simp add: set_fulfillment_def)
    qed
  qed
qed

theorem set_fulfillment_axis_witness:
  "set_fulfillment ''clm_9'' ''fulfilled'' (Some 3) (upsert (ClaimN sample_claim) [] empty_graph)
     = Inr (None, upsert (ClaimN sample_claim) [] empty_graph)"
proof -
  let ?G = "upsert (ClaimN sample_claim) [] empty_graph"
  have ok: "store_ok ?G" by (rule reachable_ok [OF sample_reachable])
  have "stored_claim ?G ''clm_9'' = None"
    by (simp add: stored_claim_def upsert_def empty_graph_def is_claim_row_def sample_claim_def)
  with set_fulfillment_axis [OF ok, of "''fulfilled''" _ "''clm_9''" "Some 3" Fulfilled]
  show ?thesis by (simp add: fulfillment_of_def)
qed

text \<open>The indexed query for outstanding commitments answers from promoted columns what a
  scan of the claims would: exactly the owner's claims whose commitment is open, that are
  active (unless superseded ones are asked for), past due and owed by the given person when
  that is asked, with deadlines ascending and commitments without a deadline last.\<close>

theorem open_commitments_spec:
  assumes "store_ok G"
  shows "set (open_commitments G owner due_before owed_by include_superseded) =
      {hydrate n | n c. n \<in> set (gnodes G) \<and> g_owner_id n = owner \<and> g_payload n = ClaimN c
         \<and> outstanding due_before owed_by include_superseded c}
    \<and> (\<exists>cs. map st_node (open_commitments G owner due_before owed_by include_superseded) = map ClaimN cs
         \<and> sorted (map due_rank cs))"
proof
  let ?rows = "sort_key due_order (filter (is_open_row owner due_before owed_by include_superseded) (gnodes G))"
  have rows: "\<forall>n \<in> set ?rows. row_ok n \<and> (\<exists>c. g_payload n = ClaimN c)"
    using store_okD(2) [OF assms] by (auto simp: is_open_row_iff)
  show "set (open_commitments G owner due_before owed_by include_superseded) =
      {hydrate n | n c. n \<in> set (gnodes G) \<and> g_owner_id n = owner \<and> g_payload n = ClaimN c
         \<and> outstanding due_before owed_by include_superseded c}"
    using store_okD(2) [OF assms] by (auto simp: open_commitments_def is_open_row_iff)
  let ?cs = "map (\<lambda>n. case g_payload n of ClaimN c \<Rightarrow> c) ?rows"
  have "map st_node (open_commitments G owner due_before owed_by include_superseded) = map ClaimN ?cs"
    using rows by (auto simp: open_commitments_def hydrate_def)
  moreover have "map due_rank ?cs = map due_order ?rows"
    using rows due_order_rank by fastforce
  ultimately show "\<exists>cs. map st_node (open_commitments G owner due_before owed_by include_superseded)
      = map ClaimN cs \<and> sorted (map due_rank cs)"
    by (metis sorted_sort_key)
qed

theorem open_commitments_spec_witness:
  "hydrate (row_of (ClaimN sample_claim) []) \<in>
     set (open_commitments (upsert (ClaimN sample_claim) [] empty_graph) ''o'' (Some 9) None False)"
proof -
  let ?G = "upsert (ClaimN sample_claim) [] empty_graph"
  have ok: "store_ok ?G" by (rule reachable_ok [OF sample_reachable])
  have "outstanding (Some 9) None False sample_claim" by (simp add: outstanding_def sample_claim_def)
  moreover have "gnodes ?G = [row_of (ClaimN sample_claim) []]"
    by (simp add: upsert_def empty_graph_def)
  ultimately show ?thesis
    unfolding conjunct1 [OF open_commitments_spec [OF ok]]
    by (force simp: sample_claim_def)
qed

end
