(* ===== verification/Store_Paths.thy ===== *)
theory Store_Paths
  imports Store_Reads "HOL-Library.Transitive_Closure_Table"
begin

text \<open>
  The owner-scoped reads. \<open>restrict owner G\<close> is the owner's subgraph; the locale
  \<open>owner_read\<close> states that a read depends on it alone, and its consequences hold for every
  read it is interpreted on. The second half shows that the supersession walk answers the
  same question from every claim of a run.
\<close>

section \<open>The owner's subgraph\<close>

definition own_edge :: "graph \<Rightarrow> string \<Rightarrow> edge \<Rightarrow> bool" where
  "own_edge G owner e = (case e of (a, r, b) \<Rightarrow> owned G owner a \<and> owned G owner b)"

definition restrict :: "string \<Rightarrow> graph \<Rightarrow> graph" where
  "restrict owner G = \<lparr>gnodes = filter (\<lambda>n. g_owner_id n = owner) (gnodes G),
                       gedges = filter (own_edge G owner) (gedges G)\<rparr>"

lemma owned_iff: "owned G owner k \<longleftrightarrow> (\<exists>n \<in> set (gnodes G). gkey n = k \<and> g_owner_id n = owner)"
  by (simp add: owned_def list_ex_iff del: gkey_eq)

lemma owned_restrict [simp]: "owned (restrict owner G) owner k = owned G owner k"
  by (auto simp: owned_iff restrict_def simp del: gkey_eq)

lemma owned_row:
  assumes "store_ok G" "owned G owner (gkey n)" "n \<in> set (gnodes G)"
  shows "g_owner_id n = owner"
  using assms unique_claim_row [OF assms(1)] by (metis owned_iff)

lemma owned_unique: "store_ok G \<Longrightarrow> owned G o1 k \<Longrightarrow> owned G o2 k \<Longrightarrow> o1 = o2"
  by (metis owned_iff unique_claim_row)

lemma gnodes_restrict: "gnodes (restrict owner G) = filter (\<lambda>n. g_owner_id n = owner) (gnodes G)"
  by (simp add: restrict_def)

lemma gedges_restrict: "gedges (restrict owner G) = filter (own_edge G owner) (gedges G)"
  by (simp add: restrict_def)

lemma rel_edges_restrict: "rel_edges r (restrict owner G) = filter (own_edge G owner) (rel_edges r G)"
  by (simp add: rel_edges_def gedges_restrict conj_commute)

subsection \<open>Paths inside the subgraph\<close>

lemma other_end_own:
  assumes "other_end e v = Some w" and "P v"
  shows "(case e of (a, r, b) \<Rightarrow> P a \<and> P b) \<longleftrightarrow> P w"
  using assms by (auto simp: other_end_def split: prod.splits if_splits)

lemma concat_map_filter: "concat (map f (filter P xs)) = concat (map (\<lambda>x. if P x then f x else []) xs)"
  by (induction xs) auto

lemma trails_inside:
  assumes "P v"
  shows "filter (\<lambda>(ws, fs). list_all P ws) (trails es k v used) =
    trails (filter (\<lambda>(a, r, b). P a \<and> P b) es) k v used"
  using assms
proof (induction k arbitrary: v used)
  case (Suc k)
  let ?Q = "\<lambda>(ws :: key list, fs :: edge list). list_all P ws"
  let ?E = "\<lambda>(a, r, b). P a \<and> P b"
  let ?step = "\<lambda>es' e. case other_end e v of None \<Rightarrow> []
      | Some w \<Rightarrow> if e \<in> set used then []
          else ([w], [e]) # map (\<lambda>(ws, fs). (w # ws, e # fs)) (trails es' k w (e # used))"
  have step: "filter ?Q (?step es e) = (if ?E e then ?step (filter ?E es) e else [])" for e
  proof (cases "other_end e v")
    case (Some w)
    have E: "?E e \<longleftrightarrow> P w" using other_end_own [of e v w P] Some Suc.prems by auto
    have "filter ?Q (map (\<lambda>(ws, fs). (w # ws, e # fs)) xs) =
        (if P w then map (\<lambda>(ws, fs). (w # ws, e # fs)) (filter ?Q xs) else [])" for xs
      by (induction xs) auto
    with Some E Suc.IH [of w "e # used"] show ?thesis by simp
  qed simp
  have "filter ?Q (trails es (Suc k) v used) = concat (map (\<lambda>e. filter ?Q (?step es e)) es)"
    by (simp add: filter_concat comp_def)
  also have "\<dots> = concat (map (\<lambda>e. if ?E e then ?step (filter ?E es) e else []) es)"
    by (simp only: step)
  also have "\<dots> = trails (filter ?E es) (Suc k) v used"
    by (simp only: trails.simps concat_map_filter)
  finally show ?case .
qed simp

lemma own_edge_alt: "own_edge G owner = (\<lambda>(a, r, b). owned G owner a \<and> owned G owner b)"
  by (auto simp: own_edge_def)

lemma owned_trails_inside:
  "owned G owner seed \<Longrightarrow> owned_trails G owner r k seed =
     trails (filter (own_edge G owner) (rel_edges r G)) k seed []"
  unfolding owned_trails_def own_edge_alt
  using trails_inside [of "owned G owner" seed "rel_edges r G" k "[]"] by simp

lemma owned_trails_restrict:
  "owned G owner seed \<Longrightarrow> owned_trails (restrict owner G) owner r k seed = owned_trails G owner r k seed"
  by (simp add: owned_trails_inside rel_edges_restrict) (simp add: own_edge_alt)

section \<open>Reads that depend on the owner's subgraph alone\<close>

locale owner_read =
  fixes read :: "graph \<Rightarrow> string \<Rightarrow> 'a"
  assumes local_read: "store_ok G \<Longrightarrow> read (restrict owner G) owner = read G owner"
begin

lemma same_subgraph:
  assumes "store_ok G" "store_ok G'" "restrict owner G = restrict owner G'"
  shows "read G owner = read G' owner"
  using local_read [OF assms(1), of owner] local_read [OF assms(2), of owner] assms(3) by simp

end

lemma filter_filter_same: "(\<And>x. x \<in> set xs \<Longrightarrow> P x \<Longrightarrow> Q x) \<Longrightarrow> filter P (filter Q xs) = filter P xs"
  by (induction xs) auto

lemma filter_gnodes_restrict:
  assumes "\<And>n. P n \<Longrightarrow> g_owner_id n = owner"
  shows "filter P (gnodes (restrict owner G)) = filter P (gnodes G)"
  unfolding gnodes_restrict by (rule filter_filter_same) (rule assms)

interpretation get_many_read: owner_read "\<lambda>G owner. get_many G owner ids" for ids
  by unfold_locales
    (unfold get_many_def, rule arg_cong [where f = "map hydrate"], rule filter_gnodes_restrict, simp)

lemma is_open_row_owner: "is_open_row owner b e s n \<Longrightarrow> g_owner_id n = owner"
  by (simp add: is_open_row_def)

interpretation open_read: owner_read "\<lambda>G owner. open_commitments G owner b e s" for b e s
  by unfold_locales
    (simp add: open_commitments_def filter_gnodes_restrict is_open_row_owner)

interpretation count_read: owner_read count_labels
  by unfold_locales (simp add: count_labels_def gnodes_restrict)

lemma seeds_restrict:
  "filter (\<lambda>n. P n \<and> g_owner_id n = owner) (gnodes (restrict owner G)) =
   filter (\<lambda>n. P n \<and> g_owner_id n = owner) (gnodes G)"
  by (rule filter_gnodes_restrict) simp

lemma owned_seed: "n \<in> set (gnodes G) \<Longrightarrow> g_owner_id n = owner \<Longrightarrow> owned G owner (gkey n)"
  by (auto simp: owned_iff simp del: gkey_eq)

lemma chain_keys_restrict:
  "owned G owner seed \<Longrightarrow> chain_keys (restrict owner G) owner h seed = chain_keys G owner h seed"
  by (simp add: chain_keys_def owned_trails_restrict)

lemma trails_nonempty: "(ws, fs) \<in> set (trails es k v used) \<Longrightarrow> ws \<noteq> []"
  by (cases k) (auto split: option.splits if_splits)

lemma chain_keys_owned:
  assumes "owned G owner seed" "k \<in> set (chain_keys G owner h seed)"
  shows "owned G owner k"
  using assms by (auto simp: chain_keys_def owned_trails_def list_all_iff dest: trails_nonempty)

definition chain_found :: "graph \<Rightarrow> string \<Rightarrow> string \<Rightarrow> nat \<Rightarrow> key list" where
  "chain_found G owner i h = concat (map (\<lambda>s. chain_keys G owner h (gkey s))
     (filter (\<lambda>n. is_claim_row i n \<and> g_owner_id n = owner) (gnodes G)))"

lemma supersession_chain_found:
  "supersession_chain G owner i h =
     map hydrate (sort_key chain_order (filter (\<lambda>n. gkey n \<in> set (chain_found G owner i h)) (gnodes G)))"
  by (simp add: supersession_chain_def chain_found_def Let_def)

lemma chain_found_owned: "k \<in> set (chain_found G owner i h) \<Longrightarrow> owned G owner k"
  by (auto simp: chain_found_def intro: chain_keys_owned owned_seed)

interpretation chain_read: owner_read "\<lambda>G owner. supersession_chain G owner i h" for i h
proof
  fix G owner assume ok: "store_ok G"
  have "chain_found (restrict owner G) owner i h = chain_found G owner i h"
    unfolding chain_found_def seeds_restrict
    by (intro arg_cong [where f = concat] map_cong refl chain_keys_restrict owned_seed) auto
  moreover have "filter (\<lambda>n. gkey n \<in> set (chain_found G owner i h)) (gnodes (restrict owner G)) =
      filter (\<lambda>n. gkey n \<in> set (chain_found G owner i h)) (gnodes G)"
    unfolding gnodes_restrict
    by (rule filter_filter_same) (metis chain_found_owned owned_row [OF ok])
  ultimately show "supersession_chain (restrict owner G) owner i h = supersession_chain G owner i h"
    by (simp only: supersession_chain_found)
qed

interpretation cites_read: owner_read "\<lambda>G owner. cites_chain G owner i h" for i h
proof
  fix G owner assume "store_ok G"
  have "concat (map (\<lambda>s. owned_trails (restrict owner G) owner ''CITES'' h (gkey s))
        (filter (\<lambda>n. g_id n = i \<and> g_owner_id n = owner) (gnodes (restrict owner G)))) =
      concat (map (\<lambda>s. owned_trails G owner ''CITES'' h (gkey s))
        (filter (\<lambda>n. g_id n = i \<and> g_owner_id n = owner) (gnodes G)))"
    unfolding seeds_restrict
    by (intro arg_cong [where f = concat] map_cong refl owned_trails_restrict owned_seed) auto
  then show "cites_chain (restrict owner G) owner i h = cites_chain G owner i h"
    by (simp only: cites_chain_def Let_def)
qed

lemma map_filter_concat_restrict:
  "(\<And>e. \<not> Q e \<Longrightarrow> f e = []) \<Longrightarrow> concat (map f (filter Q es)) = concat (map f es)"
  by (induction es) auto

interpretation conflict_read: owner_read "\<lambda>G owner. conflict_links G owner ids" for ids
proof
  fix G owner assume "store_ok G"
  show "conflict_links (restrict owner G) owner ids = conflict_links G owner ids"
    unfolding conflict_links_def rel_edges_restrict owned_restrict
    by (rule arg_cong [where f = sorted_set], rule map_filter_concat_restrict)
      (auto simp: own_edge_def split: prod.splits if_split_asm)
qed

interpretation edges_read: owner_read "\<lambda>G owner. edges_among G owner ids" for ids
proof
  fix G owner assume "store_ok G"
  show "edges_among (restrict owner G) owner ids = edges_among G owner ids"
    unfolding edges_among_def gedges_restrict owned_restrict
    by (intro if_cong refl arg_cong [where f = sorted_set] map_filter_concat_restrict)
      (auto simp: own_edge_def split: prod.splits if_split_asm)
qed

subsection \<open>Writes to other owners\<close>

lemma restrict_wipe_other:
  assumes "store_ok G" "other \<noteq> owner"
  shows "restrict owner (wipe_owner other G) = restrict owner G"
proof -
  let ?W = "wipe_owner other G"
  have owned: "owned ?W owner k = owned G owner k" for k
    using assms(2) by (auto simp: owned_iff wipe_owner_def Let_def simp del: gkey_eq)
  have gone: "\<not> owned G owner k" if "k \<in> set (map gkey (filter (\<lambda>n. g_owner_id n = other) (gnodes G)))" for k
    using that assms owned_unique [OF assms(1), of owner k other] owned_seed by fastforce
  have edges: "gedges ?W = filter (\<lambda>(a, r, b).
      a \<notin> set (map gkey (filter (\<lambda>n. g_owner_id n = other) (gnodes G))) \<and>
      b \<notin> set (map gkey (filter (\<lambda>n. g_owner_id n = other) (gnodes G)))) (gedges G)"
    by (simp add: wipe_owner_def Let_def)
  have "filter (own_edge ?W owner) (gedges ?W) = filter (own_edge G owner) (gedges G)"
    unfolding own_edge_alt owned edges
    by (rule filter_filter_same) (use gone in \<open>auto simp del: set_map\<close>)
  moreover have "gnodes (restrict owner ?W) = gnodes (restrict owner G)"
    using assms(2) unfolding gnodes_restrict wipe_owner_def Let_def graph.simps
    by (intro filter_filter_same) auto
  ultimately show ?thesis by (simp add: restrict_def)
qed

lemma restrict_upsert_other:
  assumes "store_ok G" "node_owner node \<noteq> owner" "\<not> owned G owner (label_of node, node_id node)"
  shows "restrict owner (upsert node emb G) = restrict owner G"
proof -
  let ?U = "upsert node emb G"
  have owned: "owned ?U owner k = owned G owner k" for k
    using assms(2,3) by (auto simp: owned_iff set_gnodes_upsert simp del: gkey_eq)
  have keep: "filter (\<lambda>n. g_owner_id n = owner) (map (\<lambda>n. if gkey n = kk then row_of node emb else n) ns)
      = filter (\<lambda>n. g_owner_id n = owner) ns"
    if "\<forall>n \<in> set ns. gkey n = kk \<longrightarrow> g_owner_id n \<noteq> owner" for ns kk
    using that assms(2) by (induction ns) (auto simp del: gkey_eq)
  have "\<forall>n \<in> set (gnodes G). gkey n = (label_of node, node_id node) \<longrightarrow> g_owner_id n \<noteq> owner"
    using assms(3) by (auto simp: owned_iff)
  then have "gnodes (restrict owner ?U) = gnodes (restrict owner G)"
    using assms(2) keep by (auto simp: gnodes_restrict upsert_def Let_def simp del: gkey_eq)
  then show ?thesis by (simp add: restrict_def own_edge_alt owned)
qed

section \<open>Supersession runs\<close>

definition run_edges :: "graph \<Rightarrow> string \<Rightarrow> edge list" where
  "run_edges G owner = filter (own_edge G owner) (rel_edges ''SUPERSEDES'' G)"

definition joins :: "edge list \<Rightarrow> key \<Rightarrow> key \<Rightarrow> bool" where
  "joins es a b \<longleftrightarrow> (\<exists>e \<in> set es. other_end e a = Some b)"

text \<open>The claims tied to one claim by any number of the owner's \<open>SUPERSEDES\<close> links.\<close>

definition run_of :: "graph \<Rightarrow> string \<Rightarrow> string \<Rightarrow> key set" where
  "run_of G owner i = {k. (joins (run_edges G owner))\<^sup>*\<^sup>* (''Claim'', i) k}"

lemma other_end_sym: "other_end e a = Some b \<Longrightarrow> other_end e b = Some a"
  by (cases e) (auto simp: other_end_def split: if_splits)

lemma joins_sym: "joins es a b \<Longrightarrow> joins es b a"
  unfolding joins_def using other_end_sym by blast

lemma joins_rtrancl_sym: "(joins es)\<^sup>*\<^sup>* a b \<Longrightarrow> (joins es)\<^sup>*\<^sup>* b a"
  by (induction rule: rtranclp_induct) (auto intro: joins_sym converse_rtranclp_into_rtranclp)

lemma trails_Suc_iff:
  "(ws, fs) \<in> set (trails es (Suc k) v used) \<longleftrightarrow>
     (\<exists>e \<in> set es. \<exists>w. other_end e v = Some w \<and> e \<notin> set used \<and>
        (ws = [w] \<and> fs = [e] \<or>
         (\<exists>ws' fs'. ws = w # ws' \<and> fs = e # fs' \<and> (ws', fs') \<in> set (trails es k w (e # used)))))"
proof -
  have opt: "x \<in> set (case o' of None \<Rightarrow> [] | Some w \<Rightarrow> if c then [] else f w) \<longleftrightarrow>
      (\<exists>w. o' = Some w \<and> \<not> c \<and> x \<in> set (f w))" for x :: "key list \<times> edge list" and o' :: "key option" and c f
    by (cases o') auto
  have cons: "(ws, fs) \<in> set (([w], [e]) # map (\<lambda>(ws, fs). (w # ws, e # fs)) xs) \<longleftrightarrow>
      (ws = [w] \<and> fs = [e] \<or> (\<exists>ws' fs'. ws = w # ws' \<and> fs = e # fs' \<and> (ws', fs') \<in> set xs))"
    for w :: key and e :: edge and xs
    by force
  show ?thesis
    unfolding trails.simps set_concat set_map UN_iff bex_simps opt cons image_image by blast
qed

lemma trails_reach:
  "(ws, fs) \<in> set (trails es k v used) \<Longrightarrow> (joins es)\<^sup>*\<^sup>* v (last ws)"
proof (induction k arbitrary: v used ws fs)
  case (Suc k)
  then obtain e w where e: "e \<in> set es" "other_end e v = Some w" and
    cases: "ws = [w] \<or> (\<exists>ws' fs'. ws = w # ws' \<and> (ws', fs') \<in> set (trails es k w (e # used)))"
    unfolding trails_Suc_iff by blast
  have "joins es v w" using e by (auto simp: joins_def)
  from cases show ?case
  proof
    assume "ws = [w]"
    with \<open>joins es v w\<close> show ?thesis by auto
  next
    assume "\<exists>ws' fs'. ws = w # ws' \<and> (ws', fs') \<in> set (trails es k w (e # used))"
    then obtain ws' fs' where ws': "ws = w # ws'" "(ws', fs') \<in> set (trails es k w (e # used))" by blast
    from Suc.IH [OF ws'(2)] trails_nonempty [OF ws'(2)] ws'(1) \<open>joins es v w\<close> show ?thesis
      by (auto intro: converse_rtranclp_into_rtranclp)
  qed
qed simp

lemma other_end_incident: "other_end (a, r, b) v = Some w \<Longrightarrow> v \<in> {a, b} \<and> w \<in> {a, b} \<and> {a, b} = {v, w}"
  by (auto simp: other_end_def split: if_splits)

text \<open>A path without repeated nodes repeats no relationship, so the walk finds it.\<close>

lemma simple_path_trail:
  assumes "rtrancl_path (joins es) v ws w" and "distinct (v # ws)" and "ws \<noteq> []" and "length ws \<le> k"
    and "\<forall>(a, r, b) \<in> set used. a \<notin> set ws \<and> b \<notin> set ws"
  shows "\<exists>fs. (ws, fs) \<in> set (trails es k v used)"
  using assms
proof (induction arbitrary: k used rule: rtrancl_path.induct)
  case (step x y ys z)
  then obtain k' where k: "k = Suc k'" by (cases k) auto
  from step.hyps(1) obtain e where e: "e \<in> set es" "other_end e x = Some y" by (auto simp: joins_def)
  obtain a r b where abr: "e = (a, r, b)" by (cases e)
  have inc: "{a, b} = {x, y}" using other_end_incident e(2) abr by blast
  have fresh: "e \<notin> set used" using step.prems(4) inc abr by fastforce
  show ?case
  proof (cases "ys = []")
    case True
    then have "([y], [e]) \<in> set (trails es k x used)"
      unfolding k trails_Suc_iff using e fresh by blast
    with True show ?thesis by blast
  next
    case False
    have "\<forall>(a, r, b) \<in> set (e # used). a \<notin> set ys \<and> b \<notin> set ys"
      using step.prems inc abr by auto
    moreover have "distinct (y # ys)" "length ys \<le> k'" using step.prems k by auto
    ultimately obtain fs where "(ys, fs) \<in> set (trails es k' y (e # used))"
      using step.IH False by blast
    then have "(y # ys, e # fs) \<in> set (trails es k x used)"
      unfolding k trails_Suc_iff using e fresh by blast
    then show ?thesis by blast
  qed
qed simp

lemma chain_keys_eq:
  assumes "owned G owner seed"
  shows "chain_keys G owner h seed =
     filter (\<lambda>k. fst k = ''Claim'') (map (\<lambda>(ws, fs). last ws) (trails (run_edges G owner) h seed [])) @ [seed]"
  by (simp add: chain_keys_def owned_trails_inside [OF assms] run_edges_def)

lemma chain_keys_run:
  assumes "owned G owner (''Claim'', i)" and fin: "finite (run_of G owner i)"
    and card: "card (run_of G owner i) \<le> Suc h"
  shows "set (chain_keys G owner h (''Claim'', i)) = {k \<in> run_of G owner i. fst k = ''Claim''}"
proof -
  let ?es = "run_edges G owner" and ?seed = "(''Claim'', i)"
  have "k \<in> set (chain_keys G owner h ?seed)" if "k \<in> run_of G owner i" "fst k = ''Claim''" for k
  proof -
    from that obtain xs where "rtrancl_path (joins ?es) ?seed xs k"
      by (auto simp: run_of_def rtranclp_eq_rtrancl_path)
    then obtain ws where ws: "rtrancl_path (joins ?es) ?seed ws k" "distinct (?seed # ws)"
      by (rule rtrancl_path_distinct)
    have reach: "(joins ?es)\<^sup>*\<^sup>* v u" if "rtrancl_path (joins ?es) v ps w" "u \<in> set (v # ps)" for v ps w u
      using that by (induction rule: rtrancl_path.induct) (auto intro: converse_rtranclp_into_rtranclp)
    have "set (?seed # ws) \<subseteq> run_of G owner i" using reach [OF ws(1)] by (auto simp: run_of_def)
    from card_mono [OF fin this] distinct_card [OF ws(2)] card have "length ws \<le> h" by simp
    show ?thesis
    proof (cases "ws = []")
      case True
      with ws(1) have "k = ?seed" by (auto elim: rtrancl_path.cases)
      then show ?thesis by (simp add: chain_keys_def)
    next
      case False
      from simple_path_trail [OF ws(1,2) False \<open>length ws \<le> h\<close>, of "[]"]
      obtain fs where "(ws, fs) \<in> set (trails ?es h ?seed [])" by auto
      then have "last ws \<in> set (map (\<lambda>(ws, fs). last ws) (trails ?es h ?seed []))"
        unfolding set_map by (rule rev_image_eqI) simp
      moreover have "last ws = k" using rtrancl_path_last [OF ws(1) False] .
      ultimately show ?thesis using that(2) by (simp add: chain_keys_eq [OF assms(1)])
    qed
  qed
  moreover have "k \<in> run_of G owner i \<and> fst k = ''Claim''" if "k \<in> set (chain_keys G owner h ?seed)" for k
    using that by (auto simp: chain_keys_eq [OF assms(1)] run_of_def dest: trails_reach)
  ultimately show ?thesis by blast
qed

lemma chain_found_single:
  assumes "store_ok G" "owned G owner (''Claim'', i)"
  shows "chain_found G owner i h = chain_keys G owner h (''Claim'', i)"
proof -
  from assms(2) obtain n where n: "n \<in> set (gnodes G)" "gkey n = (''Claim'', i)" "g_owner_id n = owner"
    by (auto simp: owned_iff simp del: gkey_eq)
  have "filter (\<lambda>n. is_claim_row i n \<and> g_owner_id n = owner) (gnodes G) = [n]"
  proof (rule filter_unique)
    show "distinct (gnodes G)" using store_okD(1) [OF assms(1)] by (simp add: keys_def distinct_map)
    show "(is_claim_row i m \<and> g_owner_id m = owner) = (m = n)" if "m \<in> set (gnodes G)" for m
      unfolding is_claim_row_key using that n unique_claim_row [OF assms(1), of m n] by metis
  qed (rule n)
  with n(2) show ?thesis by (simp add: chain_found_def del: gkey_eq)
qed

lemma chain_member:
  assumes "store_ok G" "c \<in> set (supersession_chain G owner i h)"
  shows "(st_label c, st_id c) \<in> set (chain_found G owner i h)" "owned G owner (''Claim'', i)"
proof -
  show mem: "(st_label c, st_id c) \<in> set (chain_found G owner i h)"
    using assms(2) by (auto simp: supersession_chain_found hydrate_def gkey_def)
  have "filter (\<lambda>n. is_claim_row i n \<and> g_owner_id n = owner) (gnodes G) \<noteq> []"
  proof
    assume "filter (\<lambda>n. is_claim_row i n \<and> g_owner_id n = owner) (gnodes G) = []"
    then have "chain_found G owner i h = []" unfolding chain_found_def by simp
    with mem show False by simp
  qed
  then show "owned G owner (''Claim'', i)"
    by (auto simp: filter_empty_conv owned_iff is_claim_row_key simp del: gkey_eq)
qed

lemma joins_owned: "joins (run_edges G owner) a b \<Longrightarrow> owned G owner b"
  by (auto simp: joins_def run_edges_def own_edge_def other_end_def split: if_splits)

lemma run_of_owned:
  assumes "owned G owner (''Claim'', i)" "k \<in> run_of G owner i"
  shows "owned G owner k"
proof -
  have "(joins (run_edges G owner))\<^sup>*\<^sup>* (''Claim'', i) k" using assms(2) by (simp add: run_of_def)
  then show ?thesis using assms(1) by (cases rule: rtranclp.cases) (auto intro: joins_owned)
qed

lemma finite_run: "finite (run_of G owner i)"
proof (rule finite_subset)
  show "run_of G owner i \<subseteq> insert (''Claim'', i) (set (keys G))"
  proof
    fix k assume "k \<in> run_of G owner i"
    then have "(joins (run_edges G owner))\<^sup>*\<^sup>* (''Claim'', i) k" by (simp add: run_of_def)
    then show "k \<in> insert (''Claim'', i) (set (keys G))"
      by (cases rule: rtranclp.cases) (auto dest!: joins_owned simp: owned_iff keys_def)
  qed
qed simp

lemma supersession_chain_run:
  assumes "store_ok G" "owned G owner (''Claim'', i)"
    and "card (run_of G owner i) \<le> Suc h"
  shows "supersession_chain G owner i h = map hydrate (sort_key chain_order
           (filter (\<lambda>n. gkey n \<in> run_of G owner i \<and> g_label n = ''Claim'') (gnodes G)))"
  unfolding supersession_chain_found chain_found_single [OF assms(1,2)] chain_keys_run [OF assms(2) finite_run assms(3)]
  by (simp add: gkey_def del: gkey_eq)

lemma run_of_same:
  assumes "k \<in> run_of G owner i" "k = (''Claim'', j)"
  shows "run_of G owner j = run_of G owner i"
proof -
  have ij: "(joins (run_edges G owner))\<^sup>*\<^sup>* (''Claim'', i) (''Claim'', j)"
    using assms by (simp add: run_of_def)
  note ji = joins_rtrancl_sym [OF ij]
  show ?thesis unfolding run_of_def using rtranclp_trans [OF ij] rtranclp_trans [OF ji] by blast
qed

section \<open>Hop counts\<close>

lemma min_hops_in:
  assumes "(i, d) \<in> set (min_hops ps)"
  shows "(i, d) \<in> set ps"
proof -
  from assms have i: "i \<in> fst ` set ps" and d: "d = Min (set (map snd (filter (\<lambda>p. fst p = i) ps)))"
    by (auto simp: min_hops_def)
  then have "d \<in> set (map snd (filter (\<lambda>p. fst p = i) ps))"
    unfolding d by (intro Min_in) (auto simp: filter_empty_conv)
  then show ?thesis by auto
qed

lemma min_hops_least:
  assumes "(i, d) \<in> set ps" "\<And>d'. (i, d') \<in> set ps \<Longrightarrow> d \<le> d'"
  shows "(i, d) \<in> set (min_hops ps)"
proof -
  have "Min (set (map snd (filter (\<lambda>p. fst p = i) ps))) = d"
    using assms by (intro Min_eqI) force+
  moreover have "i \<in> set (dedup (map fst ps))" using assms(1) by force
  ultimately show ?thesis unfolding min_hops_def by (auto simp: image_iff)
qed

lemma trails_length:
  "(ws, fs) \<in> set (trails es k v used) \<Longrightarrow> 1 \<le> length ws \<and> length ws \<le> k"
proof (induction k arbitrary: v used ws fs)
  case (Suc k)
  then show ?case unfolding trails_Suc_iff by fastforce
qed simp

definition hop_paths :: "graph \<Rightarrow> string \<Rightarrow> string list \<Rightarrow> nat \<Rightarrow> (string \<times> nat) list" where
  "hop_paths G owner ids hops = [(snd (last ws), length ws).
     s \<leftarrow> filter (\<lambda>n. g_owner_id n = owner \<and> g_id n \<in> set ids) (gnodes G),
     (ws, fs) \<leftarrow> trails (gedges G) hops (gkey s) [], owned G owner (last ws)]"

lemma neighbour_ids_paths: "neighbour_ids G owner ids hops = min_hops (hop_paths G owner ids hops)"
proof -
  have "map (\<lambda>(ws, fs). (snd (last ws), length ws)) (filter (\<lambda>(ws, fs). owned G owner (last ws)) (concat xs))
     = [(snd (last ws), length ws). x \<leftarrow> xs, (ws, fs) \<leftarrow> x, owned G owner (last ws)]"
    for xs :: "(key list \<times> edge list) list list"
  proof (induction xs)
    case (Cons x xs)
    have "map (\<lambda>(ws, fs). (snd (last ws), length ws)) (filter (\<lambda>(ws, fs). owned G owner (last ws)) x)
        = [(snd (last ws), length ws). (ws, fs) \<leftarrow> x, owned G owner (last ws)]"
      by (induction x) auto
    with Cons show ?case by simp
  qed simp
  then show ?thesis by (simp add: neighbour_ids_def hop_paths_def Let_def comp_def)
qed

lemma hop_paths_range:
  "(j, d) \<in> set (hop_paths G owner ids hops) \<Longrightarrow> 1 \<le> d \<and> d \<le> hops \<and> (\<exists>l. owned G owner (l, j))"
  unfolding hop_paths_def by (auto dest!: trails_length split: if_split_asm) (metis prod.collapse)+

lemma hop_paths_edge:
  assumes "(a, r, b) \<in> set (gedges G)" "owned G owner a" "owned G owner b" "snd a \<in> set ids" "hops \<noteq> 0"
  shows "(snd b, 1) \<in> set (hop_paths G owner ids hops)"
proof -
  obtain k where k: "hops = Suc k" using assms(5) by (cases hops) auto
  obtain n where n: "n \<in> set (gnodes G)" "gkey n = a" "g_owner_id n = owner"
    using assms(2) by (auto simp: owned_iff simp del: gkey_eq)
  have "([b], [(a, r, b)]) \<in> set (trails (gedges G) hops a [])"
    unfolding k trails_Suc_iff
    by (rule bexI [OF _ assms(1)]) (simp add: other_end_def)
  with n assms show ?thesis
    unfolding hop_paths_def by (auto simp: gkey_def intro!: bexI [of _ n] bexI [of _ "([b], [(a, r, b)])"])
qed

section \<open>Properties\<close>

text \<open>C33: an owner-scoped read answers from the owner's subgraph alone. Two stores that agree
  on the rows of an owner and the relationships between them give that owner the same rows
  by id, open commitments, supersession chain, conflict pairs, \<open>CITES\<close> neighbourhood,
  internal edges and counts, whatever other owners have stored and linked.\<close>

theorem reads_owner_local:
  assumes "store_ok G" "store_ok G'" "restrict owner G = restrict owner G'"
  shows "get_many G owner ids = get_many G' owner ids
     \<and> open_commitments G owner before by_whom ended = open_commitments G' owner before by_whom ended
     \<and> supersession_chain G owner i h = supersession_chain G' owner i h
     \<and> conflict_links G owner ids = conflict_links G' owner ids
     \<and> cites_chain G owner i h = cites_chain G' owner i h
     \<and> edges_among G owner ids = edges_among G' owner ids
     \<and> count_labels G owner = count_labels G' owner"
  using get_many_read.same_subgraph [OF assms] open_read.same_subgraph [OF assms]
    chain_read.same_subgraph [OF assms] conflict_read.same_subgraph [OF assms]
    cites_read.same_subgraph [OF assms] edges_read.same_subgraph [OF assms]
    count_read.same_subgraph [OF assms]
  by (intro conjI)

definition other_claim :: claim where
  "other_claim = sample_claim\<lparr>clm_id := ''clm_2'', clm_owner_id := ''p'', clm_commitment := None\<rparr>"

definition two_owners :: graph where
  "two_owners = upsert (ClaimN other_claim) [] (upsert (ClaimN sample_claim) [] empty_graph)"

lemma two_owners_ok: "store_ok two_owners"
  unfolding two_owners_def by (intro reachable_ok reach_step [OF _ step_upsert] reach_empty)

lemma two_owners_rows:
  "gnodes two_owners = [row_of (ClaimN sample_claim) [], row_of (ClaimN other_claim) []]"
  "gedges two_owners = []"
  by (simp_all add: two_owners_def upsert_def empty_graph_def other_claim_def sample_claim_def)

theorem reads_owner_local_witness:
  "open_commitments two_owners ''o'' None None False =
     open_commitments (upsert (ClaimN sample_claim) [] empty_graph) ''o'' None None False"
proof -
  have "restrict ''o'' two_owners = restrict ''o'' (upsert (ClaimN sample_claim) [] empty_graph)"
    unfolding two_owners_def
    by (rule restrict_upsert_other [OF reachable_ok [OF sample_reachable]])
      (simp_all add: other_claim_def sample_claim_def owned_def upsert_def empty_graph_def)
  from reads_owner_local [OF two_owners_ok reachable_ok [OF sample_reachable] this]
  show ?thesis by blast
qed

text \<open>C37: \<open>wipe_owner\<close> deletes every row of the owner and every relationship that touches one,
  and nothing else: the subgraph of every other owner is what it was, so every owner-scoped
  read of another owner returns what it did.\<close>

theorem wipe_owner_exact:
  assumes "store_ok G"
  shows "count_labels (wipe_owner owner G) owner = [] \<and> get_many (wipe_owner owner G) owner ids = []
     \<and> (\<forall>(a, r, b) \<in> set (gedges (wipe_owner owner G)). \<not> owned G owner a \<and> \<not> owned G owner b)
     \<and> (\<forall>other. other \<noteq> owner \<longrightarrow> restrict other (wipe_owner owner G) = restrict other G
          \<and> supersession_chain (wipe_owner owner G) other i h = supersession_chain G other i h)"
proof (intro conjI allI impI)
  show "count_labels (wipe_owner owner G) owner = []" "get_many (wipe_owner owner G) owner ids = []"
    by (simp_all add: count_labels_def get_many_def wipe_owner_def Let_def filter_empty_conv dedup_def)
  show "\<forall>(a, r, b) \<in> set (gedges (wipe_owner owner G)). \<not> owned G owner a \<and> \<not> owned G owner b"
  proof -
    have gone: "k \<in> set (map gkey (filter (\<lambda>n. g_owner_id n = owner) (gnodes G))) \<longleftrightarrow> owned G owner k" for k
      unfolding owned_iff by auto
    show ?thesis unfolding wipe_owner_def Let_def graph.simps gone by auto
  qed
  fix other assume other: "other \<noteq> owner"
  show same: "restrict other (wipe_owner owner G) = restrict other G"
    by (rule restrict_wipe_other [OF assms other [symmetric]])
  show "supersession_chain (wipe_owner owner G) other i h = supersession_chain G other i h"
    by (rule chain_read.same_subgraph [OF wipe_owner_ok [OF assms] assms same])
qed

theorem wipe_owner_exact_witness:
  "restrict ''o'' (wipe_owner ''p'' two_owners) = restrict ''o'' two_owners \<and>
   count_labels (wipe_owner ''p'' two_owners) ''p'' = []"
  using wipe_owner_exact [OF two_owners_ok, of "''p''"] by simp

lemma hop_paths_positive: "(j, d) \<in> set (hop_paths G owner ids hops) \<Longrightarrow> 1 \<le> d"
  using hop_paths_range by blast

text \<open>Every id \<open>neighbour_ids\<close> reports is a row of the owner, at a distance between one and
  the hop limit, and the other end of a relationship of the owner's subgraph that starts at
  one of the given ids is reported at distance one.\<close>

theorem neighbour_ids_owned:
  assumes "hops \<noteq> 0"
  shows "(\<forall>j d. (j, d) \<in> set (neighbour_ids G owner ids hops) \<longrightarrow>
            1 \<le> d \<and> d \<le> hops \<and> (\<exists>l. owned G owner (l, j)))
    \<and> (\<forall>a r b. (a, r, b) \<in> set (gedges G) \<longrightarrow> owned G owner a \<longrightarrow> owned G owner b \<longrightarrow> snd a \<in> set ids
          \<longrightarrow> (snd b, 1) \<in> set (neighbour_ids G owner ids hops))"
  unfolding neighbour_ids_paths
proof (intro conjI [where P = "\<forall>j d. _ j d"] allI impI)
  fix j d assume "(j, d) \<in> set (min_hops (hop_paths G owner ids hops))"
  from hop_paths_range [OF min_hops_in [OF this]]
  show "1 \<le> d \<and> d \<le> hops \<and> (\<exists>l. owned G owner (l, j))" .
next
  fix a r b assume "(a, r, b) \<in> set (gedges G)" "owned G owner a" "owned G owner b" "snd a \<in> set ids"
  from hop_paths_edge [OF this assms] hop_paths_positive
  show "(snd b, 1) \<in> set (min_hops (hop_paths G owner ids hops))" by (rule min_hops_least)
qed

text \<open>A path that leaves the owner's subgraph and comes back: the walk follows it, although
  \<open>supersession_chain\<close> and \<open>cites_chain\<close> would not.\<close>

definition far_claim :: claim where
  "far_claim = sample_claim\<lparr>clm_id := ''clm_3'', clm_commitment := None\<rparr>"

definition through_other :: graph where
  "through_other =
     \<lparr>gnodes = [row_of (ClaimN sample_claim) [], row_of (ClaimN other_claim) [], row_of (ClaimN far_claim) []],
      gedges = [((''Claim'', ''clm_1''), ''SUPERSEDES'', (''Claim'', ''clm_2'')),
                ((''Claim'', ''clm_2''), ''SUPERSEDES'', (''Claim'', ''clm_3''))]\<rparr>"

theorem neighbour_ids_owned_witness:
  "\<exists>l. owned through_other ''o'' (l, ''clm_3'')"
proof -
  have "(''clm_3'', 2) \<in> set (neighbour_ids through_other ''o'' [''clm_1''] 2)"
    by code_simp
  with neighbour_ids_owned [of 2 through_other "''o''" "[''clm_1'']"] show ?thesis by fastforce
qed

lemma neighbour_ids_crosses_owners:
  "neighbour_ids through_other ''o'' [''clm_1''] 2 = [(''clm_3'', 2)]
   \<and> map st_id (supersession_chain through_other ''o'' ''clm_1'' 2) = [''clm_1'']
   \<and> neighbour_ids (restrict ''o'' through_other) ''o'' [''clm_1''] 2 = []"
  by code_simp

text \<open>The supersession chain is the same from every claim of a run (the current one, the
  original or one in the middle) and holds exactly the claims of the run, oldest first, as
  long as the run has at most one claim more than the hop limit.\<close>

theorem supersession_chain_same_run:
  assumes "store_ok G" "owned G owner (''Claim'', i)"
    and "card (run_of G owner i) \<le> Suc h" "(''Claim'', j) \<in> run_of G owner i"
  shows "supersession_chain G owner j h = supersession_chain G owner i h
     \<and> set (supersession_chain G owner i h) =
        hydrate ` {n \<in> set (gnodes G). gkey n \<in> run_of G owner i \<and> g_label n = ''Claim''}
     \<and> sorted (map (\<lambda>s. (st_occurred_at_ms s, st_id s)) (supersession_chain G owner i h))"
proof -
  have run: "run_of G owner j = run_of G owner i" by (rule run_of_same [OF assms(4) refl])
  have j: "owned G owner (''Claim'', j)" by (rule run_of_owned [OF assms(2,4)])
  have i: "supersession_chain G owner i h = map hydrate (sort_key chain_order
           (filter (\<lambda>n. gkey n \<in> run_of G owner i \<and> g_label n = ''Claim'') (gnodes G)))"
    by (rule supersession_chain_run [OF assms(1-3)])
  moreover have "supersession_chain G owner j h = supersession_chain G owner i h"
    unfolding i using supersession_chain_run [OF assms(1) j, of h] assms(3) run by simp
  moreover have "(\<lambda>s. (st_occurred_at_ms s, st_id s)) \<circ> hydrate = chain_order"
    by (auto simp: chain_order_def hydrate_def)
  ultimately show ?thesis by (simp add: sorted_sort_key)
qed

definition run_graph :: graph where
  "run_graph = \<lparr>gnodes = [row_of (ClaimN sample_claim) [], row_of (ClaimN far_claim) []],
     gedges = [((''Claim'', ''clm_3''), ''SUPERSEDES'', (''Claim'', ''clm_1''))]\<rparr>"

lemma run_graph_ok: "store_ok run_graph"
  by (simp add: store_ok_def run_graph_def keys_def far_claim_def sample_claim_def)

lemma run_graph_run: "run_of run_graph ''o'' ''clm_1'' = {(''Claim'', ''clm_1''), (''Claim'', ''clm_3'')}"
proof -
  have edges: "run_edges run_graph ''o'' = [((''Claim'', ''clm_3''), ''SUPERSEDES'', (''Claim'', ''clm_1''))]"
    by code_simp
  have "run_of run_graph ''o'' ''clm_1'' \<subseteq> {(''Claim'', ''clm_1''), (''Claim'', ''clm_3'')}"
  proof
    fix k assume "k \<in> run_of run_graph ''o'' ''clm_1''"
    then have "(joins (run_edges run_graph ''o''))\<^sup>*\<^sup>* (''Claim'', ''clm_1'') k" by (simp add: run_of_def)
    then show "k \<in> {(''Claim'', ''clm_1''), (''Claim'', ''clm_3'')}"
      by (cases rule: rtranclp.cases) (auto simp: edges joins_def other_end_def split: if_splits)
  qed
  moreover have "joins (run_edges run_graph ''o'') (''Claim'', ''clm_1'') (''Claim'', ''clm_3'')"
    by (simp add: edges joins_def other_end_def)
  then have "(''Claim'', ''clm_3'') \<in> run_of run_graph ''o'' ''clm_1''" by (auto simp: run_of_def)
  moreover have "(''Claim'', ''clm_1'') \<in> run_of run_graph ''o'' ''clm_1''" by (simp add: run_of_def)
  ultimately show ?thesis by blast
qed

lemma run_graph_owned: "owned run_graph ''o'' (''Claim'', ''clm_1'')"
  by code_simp

theorem supersession_chain_same_run_witness:
  "supersession_chain run_graph ''o'' ''clm_3'' 24 = supersession_chain run_graph ''o'' ''clm_1'' 24"
  using supersession_chain_same_run [OF run_graph_ok run_graph_owned, of 24 "''clm_3''"]
  by (simp add: run_graph_run)

end
