(* ===== verification/Resolver.thy ===== *)
theory Resolver
  imports Store_Paths PyRegex
begin

text \<open>
  \<open>resolution/resolver.py\<close>: every candidate claim is compared with the stored claims about
  its subjects and with the claims of the batch resolved before it. The code's \<open>pending\<close>
  list is shared between the records of a batch and its claims are mutated by later ones;
  here it is passed along explicitly and a \<open>resolution\<close> names its new claims by their
  positions in that list, which is what the shared references amount to. The stored claims
  are fresh copies for every candidate claim, so what is written to them is dropped. The two
  store reads are arguments; the locale \<open>claim_reads\<close> states what they promise.
\<close>

section \<open>What a claim is about\<close>

definition stopwords :: "string set" where
  "stopwords = set [''a'', ''after'', ''all'', ''an'', ''and'', ''at'', ''be'', ''for'', ''from'', ''in'', ''of'',
    ''on'', ''pending'', ''primary'', ''review'', ''the'', ''that'', ''to'', ''will'', ''with'']"

definition content_words :: "string \<Rightarrow> string list" where
  "content_words statement =
     filter (\<lambda>t. t \<notin> stopwords) (re_findall token_re (py_lower statement))"

definition topic :: "string \<Rightarrow> string set" where
  "topic statement = set (take 3 (content_words statement))"

definition tokens :: "string \<Rightarrow> string set" where
  "tokens statement = set (content_words statement)"

type_synonym obligation = "string option \<times> string option \<times> int option"

definition obligation :: "claim \<Rightarrow> obligation" where
  "obligation c = (case clm_commitment c of
      None \<Rightarrow> (None, None, None)
    | Some m \<Rightarrow> (Some (owed_by_entity_id m), owed_to_entity_id m, due_at_ms m))"

section \<open>Resolving one claim\<close>

record resolution =
  new_claims :: "nat list"
  supersessions :: "(string \<times> string) list"
  contradictions :: "(string \<times> string) list"
  duplicates :: "string list"

definition empty_resolution :: resolution where
  "empty_resolution = \<lparr>new_claims = [], supersessions = [], contradictions = [], duplicates = []\<rparr>"

text \<open>The loop body: the claim at hand, one other claim and the resolution, all three mutated.\<close>

definition compare_one ::
  "string set \<Rightarrow> string set \<Rightarrow> obligation \<Rightarrow> claim \<Rightarrow> claim \<Rightarrow> resolution \<Rightarrow> claim \<times> claim \<times> resolution" where
  "compare_one tp tk ob c other res =
     (if clm_id other = clm_id c then (c, other, res)
      else if topic (clm_statement other) \<noteq> tp then (c, other, res)
      else if tokens (clm_statement other) = tk \<and> obligation other = ob then (c, other, res)
      else if status other \<noteq> Active then (c, other, res)
      else if asserted_at_ms c > asserted_at_ms other then
        (c\<lparr>supersedes := supersedes c @ [clm_id other]\<rparr>, other\<lparr>status := Superseded\<rparr>,
         res\<lparr>supersessions := supersessions res @ [(clm_id c, clm_id other)]\<rparr>)
      else if asserted_at_ms c = asserted_at_ms other then
        (c\<lparr>contradicts := contradicts c @ [clm_id other], status := Contradicted\<rparr>, other,
         res\<lparr>contradictions := contradictions res @ [(clm_id c, clm_id other)]\<rparr>)
      else
        (c\<lparr>status := Superseded\<rparr>, other,
         res\<lparr>supersessions := supersessions res @ [(clm_id other, clm_id c)]\<rparr>))"

fun compare_loop ::
  "string set \<Rightarrow> string set \<Rightarrow> obligation \<Rightarrow> claim \<Rightarrow> claim list \<Rightarrow> resolution \<Rightarrow> claim \<times> claim list \<times> resolution" where
  "compare_loop tp tk ob c [] res = (c, [], res)"
| "compare_loop tp tk ob c (other # rest) res =
     (let (c1, other1, res1) = compare_one tp tk ob c other res;
          (c2, rest2, res2) = compare_loop tp tk ob c1 rest res1
      in (c2, other1 # rest2, res2))"

fun claim_of :: "memory_node \<Rightarrow> claim option" where
  "claim_of (ClaimN c) = Some c"
| "claim_of (EntityN e) = None"
| "claim_of (EventN e) = None"

definition stored_claims :: "stored_node list \<Rightarrow> claim list" where
  "stored_claims ss = List.map_filter (\<lambda>s. claim_of (st_node s)) ss"

definition resolve_claim ::
  "(string \<Rightarrow> stored_node option) \<Rightarrow> (string \<Rightarrow> string list \<Rightarrow> stored_node list) \<Rightarrow> string
    \<Rightarrow> claim \<Rightarrow> claim list \<times> resolution \<Rightarrow> claim list \<times> resolution" where
  "resolve_claim get about owner c pr =
     (case pr of (prior, res) \<Rightarrow>
       if get (clm_id c) \<noteq> None then (prior, res\<lparr>duplicates := duplicates res @ [clm_id c]\<rparr>)
       else
         (let stored = stored_claims (about owner (subject_entity_ids c));
              (c', existing', res') =
                compare_loop (topic (clm_statement c)) (tokens (clm_statement c)) (obligation c) c
                  (stored @ prior) res;
              prior' = drop (length stored) existing'
          in (prior' @ [c'], res'\<lparr>new_claims := new_claims res' @ [length prior']\<rparr>)))"

text \<open>\<open>resolve\<close> with the shared list; called without one, the code starts a fresh list.\<close>

definition resolve ::
  "(string \<Rightarrow> stored_node option) \<Rightarrow> (string \<Rightarrow> string list \<Rightarrow> stored_node list) \<Rightarrow> string
    \<Rightarrow> candidate \<Rightarrow> claim list \<Rightarrow> claim list \<times> resolution" where
  "resolve get about owner cand pending =
     fold (resolve_claim get about owner) (cand_claims cand) (pending, empty_resolution)"

fun resolve_all ::
  "(string \<Rightarrow> stored_node option) \<Rightarrow> (string \<Rightarrow> string list \<Rightarrow> stored_node list) \<Rightarrow> string
    \<Rightarrow> candidate list \<Rightarrow> claim list \<Rightarrow> claim list \<times> resolution list" where
  "resolve_all get about owner [] pending = (pending, [])"
| "resolve_all get about owner (cand # cands) pending =
     (let (pending1, r) = resolve get about owner cand pending;
          (pending2, rs) = resolve_all get about owner cands pending1
      in (pending2, r # rs))"

definition resolve_batch ::
  "(string \<Rightarrow> stored_node option) \<Rightarrow> (string \<Rightarrow> string list \<Rightarrow> stored_node list) \<Rightarrow> string
    \<Rightarrow> candidate list \<Rightarrow> claim list \<times> resolution list" where
  "resolve_batch get about owner cands = resolve_all get about owner cands []"

text \<open>\<open>resolution.new_claims\<close> once the batch is resolved.\<close>

definition claims_at :: "claim list \<Rightarrow> resolution \<Rightarrow> claim list" where
  "claims_at pending r = map (\<lambda>i. pending ! i) (new_claims r)"

section \<open>Lemmas about the loop\<close>

text \<open>What resolving leaves of a claim alone, and the relation it looks for.\<close>

definition strip :: "claim \<Rightarrow> claim" where
  "strip c = c\<lparr>status := Active, supersedes := [], contradicts := []\<rparr>"

definition conflicting :: "claim \<Rightarrow> claim \<Rightarrow> bool" where
  "conflicting c d \<longleftrightarrow> clm_id d \<noteq> clm_id c \<and> topic (clm_statement d) = topic (clm_statement c)
     \<and> \<not> (tokens (clm_statement d) = tokens (clm_statement c) \<and> obligation d = obligation c)"

lemma strip_updates [simp]:
  "strip (c\<lparr>status := s\<rparr>) = strip c" "strip (c\<lparr>supersedes := xs\<rparr>) = strip c"
  "strip (c\<lparr>contradicts := xs\<rparr>) = strip c"
  by (simp_all add: strip_def)

lemma strip_keeps [simp]:
  "clm_id (strip c) = clm_id c" "clm_statement (strip c) = clm_statement c"
  "clm_commitment (strip c) = clm_commitment c" "asserted_at_ms (strip c) = asserted_at_ms c"
  "subject_entity_ids (strip c) = subject_entity_ids c"
  by (simp_all add: strip_def)

lemma conflicting_strip [simp]:
  "conflicting (strip c) d = conflicting c d" "conflicting c (strip d) = conflicting c d"
  by (simp_all add: conflicting_def obligation_def)

lemma strip_same:
  assumes "strip c = strip c'"
  shows "clm_id c = clm_id c'" "clm_statement c = clm_statement c'" "obligation c = obligation c'"
    "asserted_at_ms c = asserted_at_ms c'" "subject_entity_ids c = subject_entity_ids c'"
    "conflicting c d = conflicting c' d" "conflicting d c = conflicting d c'"
  using arg_cong [OF assms, of clm_id] arg_cong [OF assms, of clm_statement]
    arg_cong [OF assms, of clm_commitment] arg_cong [OF assms, of asserted_at_ms]
    arg_cong [OF assms, of subject_entity_ids]
  by (simp_all add: conflicting_def obligation_def)

definition super_ok :: "claim set \<Rightarrow> string \<times> string \<Rightarrow> bool" where
  "super_ok U p \<longleftrightarrow> (\<exists>x \<in> U. \<exists>y \<in> U. p = (clm_id x, clm_id y) \<and> conflicting x y
     \<and> asserted_at_ms y < asserted_at_ms x)"

definition contra_ok :: "claim set \<Rightarrow> string \<times> string \<Rightarrow> bool" where
  "contra_ok U p \<longleftrightarrow> (\<exists>x \<in> U. \<exists>y \<in> U. p = (clm_id x, clm_id y) \<and> conflicting x y
     \<and> asserted_at_ms y = asserted_at_ms x)"

lemma super_ok_mono: "super_ok U p \<Longrightarrow> U \<subseteq> V \<Longrightarrow> super_ok V p"
  unfolding super_ok_def by blast

lemma contra_ok_mono: "contra_ok U p \<Longrightarrow> U \<subseteq> V \<Longrightarrow> contra_ok V p"
  unfolding contra_ok_def by blast

lemma conflicting_sym: "conflicting c d = conflicting d c"
  unfolding conflicting_def by auto

text \<open>One comparison: the three outcomes for a conflicting active claim, nothing otherwise.\<close>

abbreviation compare_with :: "claim \<Rightarrow> claim \<Rightarrow> claim \<Rightarrow> resolution \<Rightarrow> claim \<times> claim \<times> resolution" where
  "compare_with k \<equiv> compare_one (topic (clm_statement k)) (tokens (clm_statement k)) (obligation k)"

lemma compare_one_cases:
  assumes "strip k = strip c"
  shows "compare_with k c d r =
    (if \<not> conflicting c d \<or> status d \<noteq> Active then (c, d, r)
     else if asserted_at_ms d < asserted_at_ms c then
       (c\<lparr>supersedes := supersedes c @ [clm_id d]\<rparr>, d\<lparr>status := Superseded\<rparr>,
        r\<lparr>supersessions := supersessions r @ [(clm_id c, clm_id d)]\<rparr>)
     else if asserted_at_ms c = asserted_at_ms d then
       (c\<lparr>contradicts := contradicts c @ [clm_id d], status := Contradicted\<rparr>, d,
        r\<lparr>contradictions := contradictions r @ [(clm_id c, clm_id d)]\<rparr>)
     else (c\<lparr>status := Superseded\<rparr>, d, r\<lparr>supersessions := supersessions r @ [(clm_id d, clm_id c)]\<rparr>))"
proof (cases "tokens (clm_statement d) = tokens (clm_statement c) \<and> obligation d = obligation c")
  case True
  then show ?thesis using strip_same(2,3) [OF assms] by (simp add: compare_one_def conflicting_def)
next
  case False
  then show ?thesis
    unfolding compare_one_def conflicting_def strip_same(2,3) [OF assms] by (simp only: if_False) simp
qed

definition touched :: "claim \<Rightarrow> claim \<Rightarrow> bool" where
  "touched d d' \<longleftrightarrow> d' = d \<or> d' = d\<lparr>status := Superseded\<rparr>"

text \<open>What one comparison, and so the whole loop, keeps and achieves.\<close>

definition progress :: "claim \<Rightarrow> claim list \<Rightarrow> resolution \<Rightarrow> claim \<Rightarrow> claim list \<Rightarrow> resolution \<Rightarrow> bool" where
  "progress c ds r c' ds' r' \<longleftrightarrow>
     strip c' = strip c \<and> list_all2 touched ds ds'
   \<and> new_claims r' = new_claims r \<and> duplicates r' = duplicates r
   \<and> (status c \<noteq> Active \<longrightarrow> status c' \<noteq> Active)
   \<and> set (supersedes c) \<subseteq> set (supersedes c')
   \<and> (\<forall>d' \<in> set ds'. conflicting c d' \<longrightarrow> status d' = Active \<longrightarrow> status c' \<noteq> Active)
   \<and> (\<forall>d \<in> set ds. conflicting c d \<longrightarrow> status d = Active \<longrightarrow>
        clm_id d \<in> set (supersedes c') \<or> status c' \<noteq> Active)
   \<and> (\<exists>ps qs. supersessions r' = supersessions r @ ps \<and> contradictions r' = contradictions r @ qs
        \<and> (\<forall>p \<in> set ps. super_ok (strip ` set (c # ds)) p) \<and> (\<forall>q \<in> set qs. contra_ok (strip ` set (c # ds)) q))"

lemma progressD:
  assumes "progress c ds r c' ds' r'"
  shows "strip c' = strip c" "list_all2 touched ds ds'"
    "new_claims r' = new_claims r" "duplicates r' = duplicates r"
    "status c \<noteq> Active \<Longrightarrow> status c' \<noteq> Active"
    "set (supersedes c) \<subseteq> set (supersedes c')"
    "d' \<in> set ds' \<Longrightarrow> conflicting c d' \<Longrightarrow> status d' = Active \<Longrightarrow> status c' \<noteq> Active"
    "d \<in> set ds \<Longrightarrow> conflicting c d \<Longrightarrow> status d = Active \<Longrightarrow>
        clm_id d \<in> set (supersedes c') \<or> status c' \<noteq> Active"
    "\<exists>ps qs. supersessions r' = supersessions r @ ps \<and> contradictions r' = contradictions r @ qs
        \<and> (\<forall>p \<in> set ps. super_ok (strip ` set (c # ds)) p) \<and> (\<forall>q \<in> set qs. contra_ok (strip ` set (c # ds)) q)"
  using assms unfolding progress_def by blast+

lemma super_okI: "x \<in> U \<Longrightarrow> y \<in> U \<Longrightarrow> conflicting x y \<Longrightarrow> asserted_at_ms y < asserted_at_ms x
    \<Longrightarrow> clm_id x = a \<Longrightarrow> clm_id y = b \<Longrightarrow> super_ok U (a, b)"
  unfolding super_ok_def by blast

lemma contra_okI: "x \<in> U \<Longrightarrow> y \<in> U \<Longrightarrow> conflicting x y \<Longrightarrow> asserted_at_ms y = asserted_at_ms x
    \<Longrightarrow> clm_id x = a \<Longrightarrow> clm_id y = b \<Longrightarrow> contra_ok U (a, b)"
  unfolding contra_ok_def by blast

lemma compare_one_progress:
  assumes "strip k = strip c" and "compare_with k c d r = (c', d', r')"
  shows "progress c [d] r c' [d'] r'"
proof -
  have c: "strip c \<in> strip ` set [c, d]" "strip d \<in> strip ` set [c, d]" by auto
  consider (none) "c' = c" "d' = d" "r' = r" "\<not> conflicting c d \<or> status d \<noteq> Active"
    | (later) "c' = c\<lparr>supersedes := supersedes c @ [clm_id d]\<rparr>" "d' = d\<lparr>status := Superseded\<rparr>"
        "r' = r\<lparr>supersessions := supersessions r @ [(clm_id c, clm_id d)]\<rparr>"
        "conflicting c d" "asserted_at_ms d < asserted_at_ms c"
    | (same) "c' = c\<lparr>contradicts := contradicts c @ [clm_id d], status := Contradicted\<rparr>" "d' = d"
        "r' = r\<lparr>contradictions := contradictions r @ [(clm_id c, clm_id d)]\<rparr>"
        "conflicting c d" "asserted_at_ms d = asserted_at_ms c"
    | (earlier) "c' = c\<lparr>status := Superseded\<rparr>" "d' = d"
        "r' = r\<lparr>supersessions := supersessions r @ [(clm_id d, clm_id c)]\<rparr>"
        "conflicting d c" "asserted_at_ms c < asserted_at_ms d"
  proof (cases "conflicting c d \<and> status d = Active")
    case False
    then have "\<not> conflicting c d \<or> status d \<noteq> Active" by blast
    with assms(2) that(1) show ?thesis unfolding compare_one_cases [OF assms(1)] by simp
  next
    case True
    then have "(\<not> conflicting c d \<or> status d \<noteq> Active) = False" "conflicting d c"
      using conflicting_sym by auto
    note eq = assms(2) [unfolded compare_one_cases [OF assms(1)] this(1) if_False]
    consider "asserted_at_ms d < asserted_at_ms c" | "asserted_at_ms d = asserted_at_ms c"
      | "asserted_at_ms c < asserted_at_ms d" by linarith
    then show ?thesis
    proof cases
      case 1
      with eq True show ?thesis by (intro that(2)) simp_all
    next
      case 2
      with eq True show ?thesis by (intro that(3)) auto
    next
      case 3
      with eq \<open>conflicting d c\<close> show ?thesis by (intro that(4)) auto
    qed
  qed
  then show ?thesis
  proof cases
    case none
    then show ?thesis by (auto simp: progress_def touched_def)
  next
    case later
    have "super_ok (strip ` set [c, d]) (clm_id c, clm_id d)"
      by (rule super_okI [OF c]) (use later in simp_all)
    with later show ?thesis by (simp add: progress_def touched_def subset_insertI)
  next
    case same
    have "contra_ok (strip ` set [c, d]) (clm_id c, clm_id d)"
      by (rule contra_okI [OF c]) (use same in simp_all)
    with same show ?thesis by (simp add: progress_def touched_def)
  next
    case earlier
    have "super_ok (strip ` set [c, d]) (clm_id d, clm_id c)"
      by (rule super_okI [OF c(2,1)]) (use earlier in simp_all)
    with earlier show ?thesis by (simp add: progress_def touched_def)
  qed
qed

lemma touched_strip: "touched d d' \<Longrightarrow> strip d' = strip d"
  by (auto simp: touched_def)

lemma touched_status: "touched d d' \<Longrightarrow> status d' = Active \<Longrightarrow> d' = d"
  by (auto simp: touched_def)

lemma touched_trans: "touched d e \<Longrightarrow> touched e f \<Longrightarrow> touched d f"
  by (auto simp: touched_def)

lemma progress_Cons:
  assumes "progress c [d] r c1 [d1] r1" and "progress c1 ds r1 c2 ds2 r2"
  shows "progress c (d # ds) r c2 (d1 # ds2) r2"
proof -
  note one = progressD [OF assms(1)] and two = progressD [OF assms(2)]
  note strip1 = one(1)
  have conf: "conflicting c1 = conflicting c" using strip_same(6) [OF strip1] by blast
  obtain ps qs ps2 qs2 where
    p: "supersessions r1 = supersessions r @ ps" "contradictions r1 = contradictions r @ qs"
      "\<forall>p \<in> set ps. super_ok (strip ` set [c, d]) p" "\<forall>q \<in> set qs. contra_ok (strip ` set [c, d]) q"
    and p2: "supersessions r2 = supersessions r1 @ ps2" "contradictions r2 = contradictions r1 @ qs2"
      "\<forall>p \<in> set ps2. super_ok (strip ` set (c1 # ds)) p" "\<forall>q \<in> set qs2. contra_ok (strip ` set (c1 # ds)) q"
    using one(9) two(9) by blast
  have sub: "strip ` set [c, d] \<subseteq> strip ` set (c # d # ds)"
    "strip ` set (c1 # ds) \<subseteq> strip ` set (c # d # ds)" using strip1 by auto
  have "supersessions r2 = supersessions r @ (ps @ ps2)" "contradictions r2 = contradictions r @ (qs @ qs2)"
    using p p2 by simp_all
  moreover have "\<forall>x \<in> set (ps @ ps2). super_ok (strip ` set (c # d # ds)) x"
    unfolding set_append ball_Un
    using p(3) p2(3) super_ok_mono [OF _ sub(1)] super_ok_mono [OF _ sub(2)] by simp
  moreover have "\<forall>x \<in> set (qs @ qs2). contra_ok (strip ` set (c # d # ds)) x"
    unfolding set_append ball_Un
    using p(4) p2(4) contra_ok_mono [OF _ sub(1)] contra_ok_mono [OF _ sub(2)] by simp
  ultimately have pairs: "\<exists>ps qs. supersessions r2 = supersessions r @ ps \<and> contradictions r2 = contradictions r @ qs
      \<and> (\<forall>p \<in> set ps. super_ok (strip ` set (c # d # ds)) p) \<and> (\<forall>q \<in> set qs. contra_ok (strip ` set (c # d # ds)) q)"
    by blast
  have mono: "set (supersedes c1) \<subseteq> set (supersedes c2)" "status c1 \<noteq> Active \<Longrightarrow> status c2 \<noteq> Active"
    by (fact two)+
  have "\<forall>d' \<in> set (d1 # ds2). conflicting c d' \<longrightarrow> status d' = Active \<longrightarrow> status c2 \<noteq> Active"
    using one(7) two(7) mono(2) unfolding conf by (simp only: list.set ball_simps) blast
  moreover have "\<forall>d' \<in> set (d # ds). conflicting c d' \<longrightarrow> status d' = Active \<longrightarrow>
        clm_id d' \<in> set (supersedes c2) \<or> status c2 \<noteq> Active"
    using one(8) two(8) mono unfolding conf by (simp only: list.set ball_simps) blast
  moreover have "strip c2 = strip c" "new_claims r2 = new_claims r" "duplicates r2 = duplicates r"
    unfolding two(1,3,4) one(1,3,4) by (rule refl)+
  moreover have "list_all2 touched (d # ds) (d1 # ds2)" using one(2) two(2) by simp
  moreover have "status c \<noteq> Active \<longrightarrow> status c2 \<noteq> Active" using one(5) mono(2) by blast
  moreover have "set (supersedes c) \<subseteq> set (supersedes c2)" using one(6) mono(1) by (rule subset_trans)
  ultimately show ?thesis
    unfolding progress_def using pairs by (intro conjI)
qed

lemma compare_loop_progress:
  assumes "compare_loop (topic (clm_statement k)) (tokens (clm_statement k)) (obligation k) c ds r = (c', ds', r')"
    and "strip k = strip c"
  shows "progress c ds r c' ds' r'"
  using assms
proof (induction ds arbitrary: c r c' ds' r')
  case Nil
  then show ?case by (auto simp: progress_def)
next
  case (Cons d ds)
  obtain c1 d1 r1 where one: "compare_with k c d r = (c1, d1, r1)" by (metis prod_cases3)
  obtain c2 ds2 r2 where two: "compare_loop (topic (clm_statement k)) (tokens (clm_statement k))
      (obligation k) c1 ds r1 = (c2, ds2, r2)" by (metis prod_cases3)
  have p1: "progress c [d] r c1 [d1] r1" by (rule compare_one_progress [OF Cons.prems(2) one])
  then have "strip k = strip c1" using Cons.prems(2) by (simp add: progress_def)
  from Cons.IH [OF two this] p1 have "progress c (d # ds) r c2 (d1 # ds2) r2" by (rule progress_Cons [rotated])
  moreover have "c' = c2" "ds' = d1 # ds2" "r' = r2" using Cons.prems(1) by (simp_all add: one two)
  ultimately show ?case by simp
qed

section \<open>A whole batch\<close>

definition grows :: "claim list \<Rightarrow> claim list \<Rightarrow> bool" where
  "grows P P' \<longleftrightarrow> (\<exists>Q R. P' = Q @ R \<and> list_all2 touched P Q)"

lemma touched_refl [simp]: "touched d d"
  by (simp add: touched_def)

lemma grows_refl [simp]: "grows P P"
  unfolding grows_def by (intro exI [of _ P] exI [of _ "[]"]) (simp add: list.rel_refl)

lemma grows_trans:
  assumes "grows P P'" "grows P' P''"
  shows "grows P P''"
proof -
  obtain Q R Q' R' where *: "P' = Q @ R" "list_all2 touched P Q" "P'' = Q' @ R'" "list_all2 touched P' Q'"
    using assms unfolding grows_def by blast
  from *(1,4) obtain Q1 Q2 where q: "Q' = Q1 @ Q2" "list_all2 touched Q Q1"
    by (auto simp: list_all2_append1)
  have "list_all2 touched P Q1"
    using list_all2_trans [of touched touched touched P Q Q1] touched_trans *(2) q(2) by blast
  with *(3) q(1) show ?thesis unfolding grows_def by (intro exI [of _ Q1] exI [of _ "Q2 @ R'"]) simp
qed

lemma grows_strip: "grows P P' \<Longrightarrow> map strip (take (length P) P') = map strip P"
proof -
  assume "grows P P'"
  then obtain Q R where *: "P' = Q @ R" "list_all2 touched P Q" unfolding grows_def by blast
  from *(2) have "map strip Q = map strip P"
    by (induction rule: list_all2_induct) (auto dest: touched_strip)
  with * show ?thesis by (simp add: list_all2_lengthD)
qed

lemma grows_length: "grows P P' \<Longrightarrow> length P \<le> length P'"
  by (auto simp: grows_def dest: list_all2_lengthD)

text \<open>The claims a batch is resolved against: its own and the stored ones it reads.\<close>

definition seen ::
  "(string \<Rightarrow> string list \<Rightarrow> stored_node list) \<Rightarrow> string \<Rightarrow> claim list \<Rightarrow> claim set" where
  "seen about owner P = strip ` set P \<union>
     (\<Union>c \<in> set P. strip ` set (stored_claims (about owner (subject_entity_ids c))))"

lemma seen_grows:
  assumes "grows P P'"
  shows "seen about owner P \<subseteq> seen about owner P'"
proof -
  have sub: "\<exists>c' \<in> set P'. strip c' = strip c" if c: "c \<in> set P" for c
  proof -
    have "strip c \<in> set (map strip P)" using c by simp
    then have "strip c \<in> strip ` set (take (length P) P')"
      unfolding grows_strip [OF assms, symmetric] by simp
    then show ?thesis by (metis imageE in_set_takeD)
  qed
  show ?thesis
  proof
    fix x assume "x \<in> seen about owner P"
    then obtain c where c: "c \<in> set P" and
      x: "x = strip c \<or> x \<in> strip ` set (stored_claims (about owner (subject_entity_ids c)))"
      unfolding seen_def by blast
    obtain c' where c': "c' \<in> set P'" "strip c' = strip c" using sub [OF c] by blast
    from x show "x \<in> seen about owner P'"
    proof
      assume "x = strip c"
      then have "x = strip c'" using c'(2) by simp
      with c'(1) show ?thesis unfolding seen_def by blast
    next
      assume "x \<in> strip ` set (stored_claims (about owner (subject_entity_ids c)))"
      then have "x \<in> strip ` set (stored_claims (about owner (subject_entity_ids c')))"
        unfolding strip_same(5) [OF c'(2)] .
      with c'(1) show ?thesis unfolding seen_def by blast
    qed
  qed
qed

definition both_active :: "claim \<Rightarrow> claim \<Rightarrow> bool" where
  "both_active d c \<longleftrightarrow> conflicting c d \<and> status c = Active \<and> status d = Active"

definition batch_inv ::
  "(string \<Rightarrow> string list \<Rightarrow> stored_node list) \<Rightarrow> string \<Rightarrow> claim list \<Rightarrow> bool" where
  "batch_inv about owner P \<longleftrightarrow> sorted_wrt (\<lambda>d c. \<not> both_active d c) P \<and>
     (\<forall>c \<in> set P. \<forall>s \<in> set (stored_claims (about owner (subject_entity_ids c))).
        conflicting c s \<longrightarrow> status s = Active \<longrightarrow> clm_id s \<in> set (supersedes c) \<or> status c \<noteq> Active)"

definition pairs_ok ::
  "(string \<Rightarrow> string list \<Rightarrow> stored_node list) \<Rightarrow> string \<Rightarrow> claim list \<Rightarrow> resolution \<Rightarrow> bool" where
  "pairs_ok about owner P r \<longleftrightarrow>
     (\<forall>p \<in> set (supersessions r). super_ok (seen about owner P) p) \<and>
     (\<forall>p \<in> set (contradictions r). contra_ok (seen about owner P) p)"

lemma pairs_ok_grows: "pairs_ok about owner P r \<Longrightarrow> grows P P' \<Longrightarrow> pairs_ok about owner P' r"
  unfolding pairs_ok_def using seen_grows super_ok_mono contra_ok_mono by metis

lemma touched_settled:
  assumes "list_all2 touched P Q" "sorted_wrt (\<lambda>d c. \<not> both_active d c) P"
  shows "sorted_wrt (\<lambda>d c. \<not> both_active d c) Q"
proof -
  have *: "touched d d' \<Longrightarrow> touched c c' \<Longrightarrow> both_active d' c' \<Longrightarrow> both_active d c" for d d' c c'
    unfolding both_active_def using touched_status by blast
  show ?thesis
    using assms
  proof (induction rule: list_all2_induct)
    case (Cons x xs y ys)
    have "\<not> both_active y z" if z: "z \<in> set ys" for z
    proof -
      obtain w where "w \<in> set xs" "touched w z"
        by (rule list_all2_right [OF Cons.hyps(2) z])
      with Cons.hyps(1) Cons.prems * show ?thesis by auto
    qed
    with Cons show ?case by simp
  qed simp
qed

text \<open>One candidate claim that is not stored.\<close>

lemma resolve_claim_new:
  assumes "get (clm_id c) = None" "resolve_claim get about owner c (P, r) = (P', r')"
  obtains Q c' where "P' = Q @ [c']" "list_all2 touched P Q" "new_claims r' = new_claims r @ [length P]"
    "duplicates r' = duplicates r" "strip c' = strip c"
    "\<And>d. d \<in> set Q \<Longrightarrow> \<not> both_active d c'"
    "\<And>s. s \<in> set (stored_claims (about owner (subject_entity_ids c))) \<Longrightarrow> conflicting c s \<Longrightarrow>
       status s = Active \<Longrightarrow> clm_id s \<in> set (supersedes c') \<or> status c' \<noteq> Active"
    "pairs_ok about owner P r \<Longrightarrow> pairs_ok about owner P' r'"
proof -
  let ?S = "stored_claims (about owner (subject_entity_ids c))"
  obtain c' ds r1 where loop: "compare_loop (topic (clm_statement c)) (tokens (clm_statement c)) (obligation c)
      c (?S @ P) r = (c', ds, r1)" by (metis prod_cases3)
  note pr = progressD [OF compare_loop_progress [OF loop refl]]
  from pr(2) obtain S' Q where ds: "ds = S' @ Q" "list_all2 touched ?S S'" "list_all2 touched P Q"
    by (auto simp: list_all2_append1)
  have len: "length S' = length ?S" "length Q = length P" using ds by (simp_all add: list_all2_lengthD)
  have res: "P' = Q @ [c']" "r' = r1\<lparr>new_claims := new_claims r1 @ [length P]\<rparr>"
    using assms(2) by (simp_all add: resolve_claim_def assms(1) Let_def loop ds(1) len)
  have pairs: "pairs_ok about owner P' r'" if ok: "pairs_ok about owner P r"
  proof -
    obtain ps qs where pq: "supersessions r' = supersessions r @ ps" "contradictions r' = contradictions r @ qs"
      "\<forall>p \<in> set ps. super_ok (strip ` set (c # ?S @ P)) p" "\<forall>q \<in> set qs. contra_ok (strip ` set (c # ?S @ P)) q"
      using pr(9) res(2) by auto
    have g: "grows P P'" unfolding grows_def using res(1) ds(3) by blast
    have "strip ` set P \<subseteq> seen about owner P'" using seen_grows [OF g] unfolding seen_def by blast
    moreover have "strip c \<in> seen about owner P'"
      using pr(1) res(1) by (auto simp: seen_def)
    moreover have "strip ` set ?S \<subseteq> seen about owner P'"
      using strip_same(5) [OF pr(1)] by (auto simp: seen_def res(1))
    ultimately have sub: "strip ` set (c # ?S @ P) \<subseteq> seen about owner P'" by auto
    show ?thesis
      using pairs_ok_grows [OF ok g] pq(3,4) super_ok_mono [OF _ sub] contra_ok_mono [OF _ sub]
      unfolding pairs_ok_def pq(1,2) by auto
  qed
  show thesis
  proof (rule that [OF res(1) ds(3)])
    show "new_claims r' = new_claims r @ [length P]" "duplicates r' = duplicates r" "strip c' = strip c"
      using res(2) pr(1,3,4) by simp_all
    show "\<not> both_active d c'" if "d \<in> set Q" for d
      using pr(7) [of d] that strip_same(6) [OF pr(1)] ds(1) unfolding both_active_def by auto
    show "clm_id s \<in> set (supersedes c') \<or> status c' \<noteq> Active"
      if "s \<in> set ?S" "conflicting c s" "status s = Active" for s
      using pr(8) [of s] that by simp
    show "pairs_ok about owner P' r'" if "pairs_ok about owner P r" by (rule pairs [OF that])
  qed
qed

abbreviation is_new :: "(string \<Rightarrow> stored_node option) \<Rightarrow> claim \<Rightarrow> bool" where
  "is_new get c \<equiv> get (clm_id c) = None"

text \<open>What a run of candidate claims does to the shared list and one resolution.\<close>

definition run_ok ::
  "(string \<Rightarrow> stored_node option) \<Rightarrow> (string \<Rightarrow> string list \<Rightarrow> stored_node list) \<Rightarrow> string
    \<Rightarrow> claim list \<Rightarrow> claim list \<times> resolution \<Rightarrow> claim list \<times> resolution \<Rightarrow> bool" where
  "run_ok get about owner cs s s' \<longleftrightarrow> (case (s, s') of ((P, r), (P', r')) \<Rightarrow>
      grows P P' \<and> length P' = length P + length (filter (is_new get) cs)
    \<and> new_claims r' = new_claims r @ [length P ..< length P']
    \<and> map strip (drop (length P) P') = map strip (filter (is_new get) cs)
    \<and> duplicates r' = duplicates r @ map clm_id (filter (\<lambda>c. \<not> is_new get c) cs)
    \<and> (batch_inv about owner P \<longrightarrow> batch_inv about owner P')
    \<and> (pairs_ok about owner P r \<longrightarrow> pairs_ok about owner P' r'))"

lemma batch_inv_new:
  assumes "batch_inv about owner P" "list_all2 touched P Q" "strip c' = strip c"
    and "\<And>d. d \<in> set Q \<Longrightarrow> \<not> both_active d c'"
    and "\<And>s. s \<in> set (stored_claims (about owner (subject_entity_ids c))) \<Longrightarrow> conflicting c s \<Longrightarrow>
       status s = Active \<Longrightarrow> clm_id s \<in> set (supersedes c') \<or> status c' \<noteq> Active"
  shows "batch_inv about owner (Q @ [c'])"
proof -
  have old: "clm_id s \<in> set (supersedes d') \<or> status d' \<noteq> Active"
    if "d' \<in> set Q" "s \<in> set (stored_claims (about owner (subject_entity_ids d')))"
      "conflicting d' s" "status s = Active" for d' s
  proof -
    obtain d where d: "d \<in> set P" "touched d d'" using list_all2_right [OF assms(2) \<open>d' \<in> set Q\<close>] .
    note same = strip_same [OF touched_strip [OF d(2)]]
    have "clm_id s \<in> set (supersedes d) \<or> status d \<noteq> Active"
      using assms(1) d(1) that(2-4) unfolding batch_inv_def same(5,6) by blast
    with d(2) show ?thesis by (auto simp: touched_def)
  qed
  have new: "clm_id s \<in> set (supersedes c') \<or> status c' \<noteq> Active"
    if "s \<in> set (stored_claims (about owner (subject_entity_ids c')))" "conflicting c' s" "status s = Active" for s
    using assms(5) that unfolding strip_same(5,6) [OF assms(3)] by blast
  have "sorted_wrt (\<lambda>d c. \<not> both_active d c) (Q @ [c'])"
    using touched_settled [OF assms(2)] assms(1,4) by (simp add: batch_inv_def sorted_wrt_append)
  with old new show ?thesis unfolding batch_inv_def by (simp only: set_append list.set) blast
qed

lemma run_ok_step: "run_ok get about owner [c] (P, r) (resolve_claim get about owner c (P, r))"
proof (cases "get (clm_id c)")
  case (Some s)
  then show ?thesis by (simp add: run_ok_def resolve_claim_def pairs_ok_def)
next
  case None
  obtain P' r' where step: "resolve_claim get about owner c (P, r) = (P', r')" by fastforce
  obtain Q c' where new: "P' = Q @ [c']" "list_all2 touched P Q" "new_claims r' = new_claims r @ [length P]"
    "duplicates r' = duplicates r" "strip c' = strip c" "\<And>d. d \<in> set Q \<Longrightarrow> \<not> both_active d c'"
    "\<And>s. s \<in> set (stored_claims (about owner (subject_entity_ids c))) \<Longrightarrow> conflicting c s \<Longrightarrow>
       status s = Active \<Longrightarrow> clm_id s \<in> set (supersedes c') \<or> status c' \<noteq> Active"
    "pairs_ok about owner P r \<Longrightarrow> pairs_ok about owner P' r'"
    using resolve_claim_new [OF None step] by metis
  have len: "length Q = length P" using new(2) by (simp add: list_all2_lengthD)
  have "grows P P'" using new(1,2) unfolding grows_def by blast
  moreover have "batch_inv about owner P \<longrightarrow> batch_inv about owner P'"
    using batch_inv_new new(1,2,5-7) by metis
  ultimately show ?thesis
    using None new(1,3-5,8) len by (simp add: run_ok_def step)
qed

lemma run_ok_append:
  assumes "run_ok get about owner cs s1 s2" "run_ok get about owner ds s2 s3"
  shows "run_ok get about owner (cs @ ds) s1 s3"
proof -
  obtain P1 r1 P2 r2 P3 r3 where s: "s1 = (P1, r1)" "s2 = (P2, r2)" "s3 = (P3, r3)"
    by (metis surj_pair)
  have one: "grows P1 P2" "length P2 = length P1 + length (filter (is_new get) cs)"
    "new_claims r2 = new_claims r1 @ [length P1 ..< length P2]"
    "map strip (drop (length P1) P2) = map strip (filter (is_new get) cs)"
    "duplicates r2 = duplicates r1 @ map clm_id (filter (\<lambda>c. \<not> is_new get c) cs)"
    "batch_inv about owner P1 \<longrightarrow> batch_inv about owner P2"
    "pairs_ok about owner P1 r1 \<longrightarrow> pairs_ok about owner P2 r2"
    using assms(1) by (simp_all add: run_ok_def s)
  have two: "grows P2 P3" "length P3 = length P2 + length (filter (is_new get) ds)"
    "new_claims r3 = new_claims r2 @ [length P2 ..< length P3]"
    "map strip (drop (length P2) P3) = map strip (filter (is_new get) ds)"
    "duplicates r3 = duplicates r2 @ map clm_id (filter (\<lambda>c. \<not> is_new get c) ds)"
    "batch_inv about owner P2 \<longrightarrow> batch_inv about owner P3"
    "pairs_ok about owner P2 r2 \<longrightarrow> pairs_ok about owner P3 r3"
    using assms(2) by (simp_all add: run_ok_def s)
  have len: "length P1 \<le> length P2" "length P2 \<le> length P3" using one(1) two(1) grows_length by blast+
  have "map strip P3 = map strip P2 @ map strip (filter (is_new get) ds)"
    using grows_strip [OF two(1)] two(4) by (metis append_take_drop_id map_append)
  then have "map strip (drop (length P1) P3) = map strip (filter (is_new get) (cs @ ds))"
    using one(4) len by (simp add: drop_map [symmetric])
  moreover have "[length P1 ..< length P3] = [length P1 ..< length P2] @ [length P2 ..< length P3]"
    using len by (metis le_add_diff_inverse upt_add_eq_append)
  ultimately show ?thesis
    using one two grows_trans [OF one(1) two(1)] by (simp add: run_ok_def s)
qed

lemma resolve_run: "run_ok get about owner cs s (fold (resolve_claim get about owner) cs s)"
proof (induction cs arbitrary: s)
  case Nil
  then show ?case by (cases s) (simp add: run_ok_def)
next
  case (Cons c cs)
  have "run_ok get about owner [c] s (resolve_claim get about owner c s)"
    using run_ok_step by (cases s) blast
  from run_ok_append [OF this Cons] show ?case by simp
qed

lemma resolve_ok:
  assumes "resolve get about owner cand P = (P', r)"
  shows "run_ok get about owner (cand_claims cand) (P, empty_resolution) (P', r)"
  using resolve_run [of get about owner "cand_claims cand" "(P, empty_resolution)"] assms
  by (simp add: resolve_def)

definition classified :: "(string \<Rightarrow> stored_node option) \<Rightarrow> claim list \<Rightarrow> candidate \<Rightarrow> resolution \<Rightarrow> bool" where
  "classified get P cand r \<longleftrightarrow>
     map strip (claims_at P r) = map strip (filter (is_new get) (cand_claims cand))
   \<and> duplicates r = map clm_id (filter (\<lambda>c. \<not> is_new get c) (cand_claims cand))"

lemma claims_at_grows:
  assumes "grows P P'" "\<forall>i \<in> set (new_claims r). i < length P"
  shows "map strip (claims_at P' r) = map strip (claims_at P r)"
proof -
  have "strip (P' ! i) = strip (P ! i)" if "i < length P" for i
    using grows_strip [OF assms(1)] that grows_length [OF assms(1)]
    by (metis length_take min.absorb2 nth_map nth_take)
  with assms(2) show ?thesis by (simp add: claims_at_def)
qed

lemma claims_at_upt:
  "new_claims r = [m ..< length P] \<Longrightarrow> claims_at P r = drop m P"
  by (rule nth_equalityI) (auto simp: claims_at_def)

lemma resolve_all_ok:
  assumes "resolve_all get about owner cands P = (P', rs)"
  shows "grows P P' \<and> concat (map new_claims rs) = [length P ..< length P']
    \<and> list_all2 (classified get P') cands rs \<and> (batch_inv about owner P \<longrightarrow> batch_inv about owner P')
    \<and> list_all (pairs_ok about owner P') rs"
  using assms
proof (induction cands arbitrary: P P' rs)
  case Nil
  then show ?case by simp
next
  case (Cons cand cands)
  obtain P1 r where first: "resolve get about owner cand P = (P1, r)" by fastforce
  obtain rs' where rest: "resolve_all get about owner cands P1 = (P', rs')" and rs: "rs = r # rs'"
    using Cons.prems first by (auto split: prod.splits)
  note ih = Cons.IH [OF rest]
  have ok: "grows P P1" "new_claims r = [length P ..< length P1]"
    "map strip (drop (length P) P1) = map strip (filter (is_new get) (cand_claims cand))"
    "duplicates r = map clm_id (filter (\<lambda>c. \<not> is_new get c) (cand_claims cand))"
    "batch_inv about owner P \<longrightarrow> batch_inv about owner P1" "pairs_ok about owner P1 r"
    using resolve_ok [OF first] by (simp_all add: run_ok_def empty_resolution_def pairs_ok_def)
  have len: "length P \<le> length P1" "length P1 \<le> length P'"
    using ok(1) ih grows_length by blast+
  have "classified get P' cand r"
    using claims_at_grows [of P1 P' r] ih ok(2-4) claims_at_upt [OF ok(2)] by (simp add: classified_def)
  moreover have "[length P ..< length P'] = [length P ..< length P1] @ [length P1 ..< length P']"
    using len by (metis le_add_diff_inverse upt_add_eq_append)
  moreover have "pairs_ok about owner P' r" using pairs_ok_grows [OF ok(6)] ih by blast
  ultimately show ?case
    using ih ok grows_trans [OF ok(1)] by (simp add: rs)
qed

lemma resolve_batch_ok:
  assumes "resolve_batch get about owner cands = (P, rs)"
  shows "concat (map new_claims rs) = [0 ..< length P]" "list_all2 (classified get P) cands rs"
    "batch_inv about owner P" "list_all (pairs_ok about owner P) rs"
  using resolve_all_ok [of get about owner cands "[]" P rs] assms
  by (simp_all add: resolve_batch_def batch_inv_def)

section \<open>The store as the resolver sees it\<close>

locale claim_reads =
  fixes ok :: "'st \<Rightarrow> bool"
    and get :: "'st \<Rightarrow> string \<Rightarrow> stored_node option"
    and about :: "'st \<Rightarrow> string \<Rightarrow> string list \<Rightarrow> stored_node list"
  assumes about_stored: "ok st \<Longrightarrow> s \<in> set (about st owner ids) \<Longrightarrow>
      get st (st_id s) \<noteq> None \<and> node_id (st_node s) = st_id s"
begin

text \<open>A stored claim never has the id of a claim the batch adds.\<close>

lemma stored_id_taken:
  assumes "ok st" "d \<in> set (stored_claims (about st owner ids))"
  shows "get st (clm_id d) \<noteq> None"
proof -
  obtain s where s: "s \<in> set (about st owner ids)" "claim_of (st_node s) = Some d"
    using assms(2) by (auto simp: stored_claims_def List.map_filter_def split: if_splits)
  then have "node_id (st_node s) = clm_id d" by (cases "st_node s") auto
  with about_stored [OF assms(1) s(1)] show ?thesis by simp
qed

lemma new_ids:
  assumes "resolve_batch (get st) (about st) owner cands = (P, rs)" "c \<in> set P"
  shows "get st (clm_id c) = None"
proof -
  obtain i where i: "i < length P" "P ! i = c" using assms(2) by (metis in_set_conv_nth)
  then have "i \<in> set (concat (map new_claims rs))"
    using resolve_batch_ok(1) [OF assms(1)] by simp
  then obtain r where r: "r \<in> set rs" "i \<in> set (new_claims r)" by auto
  obtain cand where "classified (get st) P cand r"
    by (rule list_all2_right [OF resolve_batch_ok(2) [OF assms(1)] r(1)])
  then have "map strip (claims_at P r) = map strip (filter (is_new (get st)) (cand_claims cand))"
    by (simp add: classified_def)
  moreover have "strip c \<in> set (map strip (claims_at P r))"
    using i(2) r(2) by (auto simp: claims_at_def)
  ultimately obtain c0 where c0: "strip c = strip c0" "get st (clm_id c0) = None" by auto
  from c0(2) strip_same(1) [OF c0(1)] show ?thesis by simp
qed

text \<open>So an active stored claim on the same topic that says something else is superseded by
  the new claim, or the new claim itself is not active.\<close>

lemma stored_conflict_settled:
  assumes "ok st" "resolve_batch (get st) (about st) owner cands = (P, rs)"
    and "c \<in> set P" "d \<in> set (stored_claims (about st owner (subject_entity_ids c)))"
    and "topic (clm_statement d) = topic (clm_statement c)" "status d = Active"
    and "\<not> (tokens (clm_statement d) = tokens (clm_statement c) \<and> obligation d = obligation c)"
  shows "clm_id d \<in> set (supersedes c) \<or> status c \<noteq> Active"
proof -
  have "clm_id d \<noteq> clm_id c"
    using stored_id_taken [OF assms(1,4)] new_ids [OF assms(2,3)] by auto
  with assms(5,7) have "conflicting c d" unfolding conflicting_def by blast
  with resolve_batch_ok(3) [OF assms(2)] assms(3,4,6) show ?thesis unfolding batch_inv_def by blast
qed

end

lemma store_get_row: "n \<in> set (gnodes G) \<Longrightarrow> store_get G (g_id n) \<noteq> None"
  by (auto simp: store_get_def filter_empty_conv split: list.splits)

lemma claims_about_rows:
  "s \<in> set (claims_about G owner ids) \<Longrightarrow> \<exists>n \<in> set (gnodes G). s = hydrate n \<and> g_owner_id n = owner
     \<and> g_label n = ''Claim''"
  by (auto simp: claims_about_def)

interpretation stored: claim_reads store_ok store_get claims_about
proof
  fix G s owner ids assume ok: "store_ok G" and s: "s \<in> set (claims_about G owner ids)"
  obtain n where n: "n \<in> set (gnodes G)" "s = hydrate n" using claims_about_rows [OF s] by blast
  then show "store_get G (st_id s) \<noteq> None \<and> node_id (st_node s) = st_id s"
    using store_get_row [OF n(1)] store_okD(2) [OF ok n(1)] by (simp add: hydrate_def row_ok_def)
qed

section \<open>Properties\<close>

text \<open>Resolving a batch classifies every candidate claim exactly once. Each resolution
  lists, in order, the ids already stored as duplicates and the other claims as new; every
  claim of the batch list belongs to exactly one resolution; and of a new claim only the
  status, \<open>supersedes\<close> and \<open>contradicts\<close> differ from the candidate.\<close>

theorem resolve_batch_classifies:
  "case resolve_batch get about owner cands of (P, rs) \<Rightarrow>
     concat (map new_claims rs) = [0 ..< length P] \<and>
     list_all2 (\<lambda>cand r.
         map strip (claims_at P r) = map strip (filter (\<lambda>c. get (clm_id c) = None) (cand_claims cand))
       \<and> duplicates r = map clm_id (filter (\<lambda>c. get (clm_id c) \<noteq> None) (cand_claims cand))) cands rs"
proof (cases "resolve_batch get about owner cands")
  case (Pair P rs)
  then show ?thesis
    using resolve_batch_ok(1,2) [OF Pair] by (simp add: classified_def [abs_def])
qed

definition late_claim :: claim where
  "late_claim = sample_claim\<lparr>clm_id := ''clm_7'', clm_statement := ''project Atlas will use Postgres.'', asserted_at_ms := 3\<rparr>"

definition newer_claim :: claim where
  "newer_claim = sample_claim\<lparr>clm_id := ''clm_8'', clm_statement := ''Project Atlas: use Kafka'', asserted_at_ms := 9\<rparr>"

abbreviation claims_candidate :: "claim list \<Rightarrow> candidate" where
  "claims_candidate cs \<equiv> \<lparr>cand_entities = [], cand_events = [], cand_claims = cs\<rparr>"

lemma content_words_samples:
  "content_words ''project Atlas will use Postgres.'' = [''project'', ''atlas'', ''use'', ''postgres'']"
  "content_words ''Project Atlas: use Kafka'' = [''project'', ''atlas'', ''use'', ''kafka'']"
  "content_words ''project Atlas will use Redis.'' = [''project'', ''atlas'', ''use'', ''redis'']"
  by code_simp+

lemma samples_conflict: "conflicting newer_claim late_claim"
proof -
  have st: "clm_statement newer_claim = ''Project Atlas: use Kafka''"
    "clm_statement late_claim = ''project Atlas will use Postgres.''"
    "clm_id newer_claim = ''clm_8''" "clm_id late_claim = ''clm_7''"
    by (simp_all add: newer_claim_def late_claim_def)
  have "topic (clm_statement late_claim) = topic (clm_statement newer_claim)"
    by (simp add: st topic_def content_words_samples)
  moreover have "''kafka'' \<in> tokens (clm_statement newer_claim)" "''kafka'' \<notin> tokens (clm_statement late_claim)"
    by (simp_all add: st tokens_def content_words_samples)
  ultimately show ?thesis using st(3,4) unfolding conflicting_def by auto
qed

lemma sample_batch:
  "resolve_batch (\<lambda>i. None) (\<lambda>o' ids. []) ''o'' [claims_candidate [late_claim], claims_candidate [newer_claim]] =
     ([late_claim\<lparr>status := Superseded\<rparr>, newer_claim\<lparr>supersedes := [''clm_7'']\<rparr>],
      [empty_resolution\<lparr>new_claims := [0]\<rparr>,
       empty_resolution\<lparr>new_claims := [1], supersessions := [(''clm_8'', ''clm_7'')]\<rparr>])"
proof -
  have "status late_claim = Active" "asserted_at_ms late_claim < asserted_at_ms newer_claim"
    "supersedes newer_claim = []" "clm_id newer_claim = ''clm_8''" "clm_id late_claim = ''clm_7''"
    by (simp_all add: late_claim_def newer_claim_def sample_claim_def)
  then show ?thesis
    by (simp add: resolve_batch_def resolve_def resolve_claim_def stored_claims_def samples_conflict
        empty_resolution_def compare_one_cases [OF refl] List.map_filter_def)
qed

text \<open>C25: every recorded pair is justified. A supersession names two different claims of the
  batch or of the stored claims it was compared with, of one topic, that differ in their
  words or their obligation, the first asserted later; a contradiction names two such claims
  asserted at the same time.\<close>

theorem resolve_batch_sound:
  "case resolve_batch get about owner cands of (P, rs) \<Rightarrow> \<forall>r \<in> set rs.
     (\<forall>(a, b) \<in> set (supersessions r). \<exists>x \<in> seen about owner P. \<exists>y \<in> seen about owner P.
        clm_id x = a \<and> clm_id y = b \<and> conflicting x y \<and> asserted_at_ms y < asserted_at_ms x) \<and>
     (\<forall>(a, b) \<in> set (contradictions r). \<exists>x \<in> seen about owner P. \<exists>y \<in> seen about owner P.
        clm_id x = a \<and> clm_id y = b \<and> conflicting x y \<and> asserted_at_ms y = asserted_at_ms x)"
proof (cases "resolve_batch get about owner cands")
  case (Pair P rs)
  have "super_ok (seen about owner P) (a, b) \<Longrightarrow> \<exists>x \<in> seen about owner P. \<exists>y \<in> seen about owner P.
        clm_id x = a \<and> clm_id y = b \<and> conflicting x y \<and> asserted_at_ms y < asserted_at_ms x"
    "contra_ok (seen about owner P) (a, b) \<Longrightarrow> \<exists>x \<in> seen about owner P. \<exists>y \<in> seen about owner P.
        clm_id x = a \<and> clm_id y = b \<and> conflicting x y \<and> asserted_at_ms y = asserted_at_ms x" for a b
    unfolding super_ok_def contra_ok_def by auto
  then show ?thesis
    using resolve_batch_ok(4) [OF Pair] by (fastforce simp: Pair list_all_iff pairs_ok_def)
qed

theorem resolve_batch_sound_witness:
  "\<exists>x y. clm_id x = ''clm_8'' \<and> clm_id y = ''clm_7'' \<and> conflicting x y \<and> asserted_at_ms y < asserted_at_ms x"
  using resolve_batch_sound [where get = "\<lambda>i. None" and about = "\<lambda>o' ids. []" and owner = "''o''"
      and cands = "[claims_candidate [late_claim], claims_candidate [newer_claim]]", unfolded sample_batch]
  by (simp add: empty_resolution_def) blast

text \<open>C14: no conflict is missed. Against a store in order, two claims of a resolved batch with
  different ids, one topic and different content are not both active; and an active stored
  claim about a subject of a new claim, with its topic and other content, is superseded by
  the new claim or the new claim is not active itself.\<close>

theorem resolve_batch_complete:
  assumes "store_ok G" "resolve_batch (store_get G) (claims_about G) owner cands = (P, rs)"
  shows "\<not> (i < j \<and> j < length P \<and> conflicting (P ! j) (P ! i)
            \<and> status (P ! i) = Active \<and> status (P ! j) = Active)
    \<and> \<not> (c \<in> set P \<and> d \<in> set (stored_claims (claims_about G owner (subject_entity_ids c)))
            \<and> topic (clm_statement d) = topic (clm_statement c) \<and> status d = Active
            \<and> \<not> (tokens (clm_statement d) = tokens (clm_statement c) \<and> obligation d = obligation c)
            \<and> clm_id d \<notin> set (supersedes c) \<and> status c = Active)"
proof -
  have "sorted_wrt (\<lambda>d c. \<not> both_active d c) P"
    using resolve_batch_ok(3) [OF assms(2)] by (simp add: batch_inv_def)
  then have "i < j \<Longrightarrow> j < length P \<Longrightarrow> \<not> both_active (P ! i) (P ! j)"
    by (simp add: sorted_wrt_iff_nth_less)
  then show ?thesis
    using stored.stored_conflict_settled [OF assms] unfolding both_active_def by blast
qed

theorem resolve_batch_complete_witness:
  "case resolve_batch (store_get empty_graph) (claims_about empty_graph) ''o''
       [claims_candidate [late_claim], claims_candidate [newer_claim]] of (P, rs) \<Rightarrow>
     conflicting (P ! 1) (P ! 0) \<and> \<not> (status (P ! 0) = Active \<and> status (P ! 1) = Active)"
proof -
  have "store_get empty_graph = (\<lambda>i. None)" "claims_about empty_graph = (\<lambda>o' ids. [])"
    by (auto simp: store_get_def claims_about_def empty_graph_def fun_eq_iff)
  with sample_batch have run: "resolve_batch (store_get empty_graph) (claims_about empty_graph) ''o''
       [claims_candidate [late_claim], claims_candidate [newer_claim]] =
     ([late_claim\<lparr>status := Superseded\<rparr>, newer_claim\<lparr>supersedes := [''clm_7'']\<rparr>],
      [empty_resolution\<lparr>new_claims := [0]\<rparr>,
       empty_resolution\<lparr>new_claims := [1], supersessions := [(''clm_8'', ''clm_7'')]\<rparr>])"
    by (simp only:)
  have "conflicting (newer_claim\<lparr>supersedes := [''clm_7'']\<rparr>) (late_claim\<lparr>status := Superseded\<rparr>)"
    using samples_conflict by (simp add: conflicting_def obligation_def)
  with resolve_batch_complete [OF empty_store_ok run, where i = 0 and j = 1] run show ?thesis by simp
qed

text \<open>The order of arrival decides what is linked. When the newer of two conflicting claims
  comes first, the pair is recorded and the older claim is born superseded, but the newer one
  does not list it under \<open>supersedes\<close>; in the other order it does.\<close>

theorem late_arrival_not_listed:
  assumes "conflicting a b" "asserted_at_ms b < asserted_at_ms a" "status a = Active" "status b = Active"
  shows "resolve_batch (\<lambda>i. None) (\<lambda>o' ids. []) owner [claims_candidate [a, b]] =
      ([a, b\<lparr>status := Superseded\<rparr>],
       [empty_resolution\<lparr>new_claims := [0, 1], supersessions := [(clm_id a, clm_id b)]\<rparr>])
   \<and> resolve_batch (\<lambda>i. None) (\<lambda>o' ids. []) owner [claims_candidate [b, a]] =
      ([b\<lparr>status := Superseded\<rparr>, a\<lparr>supersedes := supersedes a @ [clm_id b]\<rparr>],
       [empty_resolution\<lparr>new_claims := [0, 1], supersessions := [(clm_id a, clm_id b)]\<rparr>])"
proof -
  have "conflicting b a" using assms(1) conflicting_sym by blast
  with assms show ?thesis
    by (simp add: resolve_batch_def resolve_def resolve_claim_def stored_claims_def
        empty_resolution_def compare_one_cases [OF refl] List.map_filter_def)
qed

theorem late_arrival_not_listed_witness:
  "map supersedes (fst (resolve_batch (\<lambda>i. None) (\<lambda>o' ids. []) ''o''
      [claims_candidate [newer_claim, late_claim]])) = [[], []]"
proof -
  have "asserted_at_ms late_claim < asserted_at_ms newer_claim" "status newer_claim = Active"
    "status late_claim = Active" by (simp_all add: late_claim_def newer_claim_def sample_claim_def)
  from late_arrival_not_listed [OF samples_conflict this, of "''o''"] show ?thesis
    by (simp add: late_claim_def newer_claim_def sample_claim_def)
qed

end
