(* ===== verification/Base64.thy ===== *)
theory Base64
  imports Prelude
begin

text \<open>
  The part of Python's \<open>base64\<close> and \<open>str.encode\<close> the gateway client and the ingestion
  pipeline use. Bytes are characters. Decoding follows \<open>binascii.a2b_base64\<close> without strict
  mode: characters outside the alphabet are skipped, padding ends the input, and an
  incomplete group is an error.
\<close>

definition utf8_char :: "char \<Rightarrow> string" where
  "utf8_char c = (if ord_of c < 128 then [c]
     else [char_of (192 + ord_of c div 64), char_of (128 + ord_of c mod 64)])"

definition utf8 :: "string \<Rightarrow> string" where
  "utf8 s = concat (map utf8_char s)"

definition b64_char :: "nat \<Rightarrow> char" where
  "b64_char n = (if n < 26 then char_of (n + 65) else if n < 52 then char_of (n + 71)
     else if n < 62 then char_of (n - 4) else if n = 62 then CHR ''+'' else CHR ''/'')"

fun b64encode :: "string \<Rightarrow> string" where
  "b64encode [] = []"
| "b64encode [a] = [b64_char (ord_of a div 4), b64_char (ord_of a mod 4 * 16), CHR ''='', CHR ''='']"
| "b64encode [a, b] = [b64_char (ord_of a div 4), b64_char (ord_of a mod 4 * 16 + ord_of b div 16),
     b64_char (ord_of b mod 16 * 4), CHR ''='']"
| "b64encode (a # b # c # cs) = b64_char (ord_of a div 4) # b64_char (ord_of a mod 4 * 16 + ord_of b div 16)
     # b64_char (ord_of b mod 16 * 4 + ord_of c div 64) # b64_char (ord_of c mod 64) # b64encode cs"

definition b64_value :: "char \<Rightarrow> nat option" where
  "b64_value c =
     (if in_range CHR ''A'' CHR ''Z'' c then Some (ord_of c - 65)
      else if in_range CHR ''a'' CHR ''z'' c then Some (ord_of c - 71)
      else if in_range CHR ''0'' CHR ''9'' c then Some (ord_of c + 4)
      else if c = CHR ''+'' then Some 62
      else if c = CHR ''/'' then Some 63 else None)"

definition out_byte :: "nat \<Rightarrow> string result \<Rightarrow> string result" where
  "out_byte b r = bind_e r (\<lambda>s. Inr (char_of b # s))"

text \<open>The decoder's state: position in the group, bits left over, padding characters seen.\<close>

fun b64_dec :: "nat \<Rightarrow> nat \<Rightarrow> nat \<Rightarrow> string \<Rightarrow> string result" where
  "b64_dec q l p [] = (if q = 0 then Inr [] else Inl (ValueError ''Incorrect padding''))"
| "b64_dec q l p (c # cs) =
     (if c = CHR ''='' then
        (if q \<ge> 2 then (if q + (p + 1) \<ge> 4 then Inr [] else b64_dec q l (p + 1) cs)
         else b64_dec q l p cs)
      else (case b64_value c of
          None \<Rightarrow> b64_dec q l p cs
        | Some v \<Rightarrow>
           (if q = 0 then b64_dec 1 v 0 cs
            else if q = 1 then out_byte (l * 4 + v div 16) (b64_dec 2 (v mod 16) 0 cs)
            else if q = 2 then out_byte (l * 16 + v div 4) (b64_dec 3 (v mod 4) 0 cs)
            else out_byte (l * 64 + v) (b64_dec 0 0 0 cs))))"

definition b64decode :: "string \<Rightarrow> string result" where
  "b64decode s = (if list_all (\<lambda>c. ord_of c < 128) s then b64_dec 0 0 0 s
     else Inl (ValueError ''string argument should contain only ASCII characters''))"

section \<open>Decoding inverts encoding\<close>

lemma ord_of_char_of [simp]: "n < 256 \<Longrightarrow> ord_of (char_of n) = n"
  by (simp add: ord_of_def)

lemma ord_of_consts [simp]: "ord_of (CHR ''='') = 61" "ord_of (CHR ''+'') = 43" "ord_of (CHR ''/'') = 47"
  "ord_of (CHR ''A'') = 65" "ord_of (CHR ''Z'') = 90" "ord_of (CHR ''a'') = 97" "ord_of (CHR ''z'') = 122"
  "ord_of (CHR ''0'') = 48" "ord_of (CHR ''9'') = 57"
  by (simp_all add: ord_of_def)

lemma ord_of_inj: "ord_of c = ord_of d \<longleftrightarrow> c = d"
  by (simp add: ord_of_def)

lemma ord_b64_char:
  "n < 64 \<Longrightarrow> ord_of (b64_char n) = (if n < 26 then n + 65 else if n < 52 then n + 71
     else if n < 62 then n - 4 else if n = 62 then 43 else 47)"
  by (simp add: b64_char_def)

lemma b64_char_facts [simp]:
  assumes "n < 64"
  shows "b64_value (b64_char n) = Some n" "b64_char n \<noteq> CHR ''=''" "ord_of (b64_char n) < 128"
  using ord_b64_char [OF assms] assms
  by (auto simp: b64_value_def in_range_def ord_of_inj [symmetric] split: if_splits)

lemma ord_of_less [simp]: "ord_of c < 256"
  by (simp add: ord_of_def)

lemma char_of_ord [simp]: "char_of (ord_of c) = c"
  by (simp add: ord_of_def)

lemma high_bits [simp]:
  "ord_of c div 4 < 64" "ord_of c div 16 < 16" "ord_of c div 64 < 4"
  using ord_of_less [of c] by (simp_all add: div_less_iff_less_mult)

lemma high_bits_groups [simp]:
  "ord_of c div 16 div 16 = 0" "ord_of c div 16 mod 16 = ord_of c div 16"
  "ord_of c div 64 div 4 = 0" "ord_of c div 64 mod 4 = ord_of c div 64"
  by simp_all

lemma group_bounds [simp]:
  "ord_of a mod 4 * 16 + ord_of b div 16 < 64" "ord_of b mod 16 * 4 + ord_of c div 64 < 64"
  "ord_of c mod 64 < 64" "ord_of a mod 4 * 16 < 64" "ord_of b mod 16 * 4 < 64"
proof -
  have "ord_of a mod 4 < 4" "ord_of b mod 16 < 16" by simp_all
  then show "ord_of a mod 4 * 16 + ord_of b div 16 < 64" "ord_of b mod 16 * 4 + ord_of c div 64 < 64"
    "ord_of c mod 64 < 64" "ord_of a mod 4 * 16 < 64" "ord_of b mod 16 * 4 < 64"
    using high_bits(2) [of b] high_bits(3) [of c] by linarith+
qed

lemma b64encode_ascii: "list_all (\<lambda>c. ord_of c < 128) (b64encode bs)"
  by (induction bs rule: b64encode.induct) simp_all

lemma b64_dec_encode: "b64_dec 0 0 0 (b64encode bs) = Inr bs"
  by (induction bs rule: b64encode.induct) (simp_all add: out_byte_def del: mult_Suc_right)

lemma b64_roundtrip: "b64decode (b64encode bs) = Inr bs"
  by (simp add: b64decode_def b64encode_ascii b64_dec_encode)

end
