(* ===== verification/Gateway.thy ===== *)
theory Gateway
  imports Schema Base64
begin

text \<open>
  \<open>gateway_client.py\<close>: the HTTP client of the Rust gateway. The server is the argument
  \<open>http\<close>: the answer to a request given its path, JSON body and headers (an exception of
  the HTTP library is an error value). \<open>Scope.model_validate\<close> is pydantic's and an argument
  too; \<open>dump_scope\<close> is the JSON form of a scope, field by field. A session token is kept as
  the JSON value the gateway sent, as the code does; \<open>fmt\<close> formats one that is not a string.
\<close>

section \<open>The client\<close>

record http_response =
  http_status :: int
  http_text :: string
  http_json :: "json result"

type_synonym headers = "(string \<times> string) list"
type_synonym http = "string \<Rightarrow> json option \<Rightarrow> headers \<Rightarrow> http_response result"

record gateway_client =
  base_url :: string
  session_token :: json

definition rstrip_slash :: "string \<Rightarrow> string" where
  "rstrip_slash s = rev (dropWhile (\<lambda>c. c = CHR ''/'') (rev s))"

definition new_client :: "string \<Rightarrow> gateway_client" where
  "new_client url = \<lparr>base_url = rstrip_slash url, session_token = JNull\<rparr>"

definition unwrap :: "http_response \<Rightarrow> json result" where
  "unwrap response =
     (if http_status response \<ge> 400
      then Inl (GatewayError (''gateway '' @ str_of_int (http_status response) @ '': '' @ http_text response))
      else http_json response)"

definition owner_session :: "gateway_client \<Rightarrow> json result" where
  "owner_session g = (if session_token g = JNull
     then Inl (GatewayError ''no owner session; call open_session() first'') else Inr (session_token g))"

definition py_format :: "(json \<Rightarrow> string) \<Rightarrow> json \<Rightarrow> string" where
  "py_format fmt j = (case j of JStr s \<Rightarrow> s | _ \<Rightarrow> fmt j)"

definition http_get :: "http \<Rightarrow> string \<Rightarrow> json result" where
  "http_get http path = bind_e (http path None []) unwrap"

definition http_post ::
  "(json \<Rightarrow> string) \<Rightarrow> http \<Rightarrow> gateway_client \<Rightarrow> string \<Rightarrow> json \<Rightarrow> bool \<Rightarrow> json result" where
  "http_post fmt http g path payload auth =
     bind_e (if auth then bind_e (owner_session g)
                            (\<lambda>t. Inr [(''Authorization'', ''Bearer '' @ py_format fmt t)])
             else Inr [])
       (\<lambda>headers. bind_e (http path (Some payload) headers) unwrap)"

definition health :: "http \<Rightarrow> json result" where
  "health http = http_get http ''/health''"

fun json_opt :: "string option \<Rightarrow> json" where
  "json_opt None = JNull"
| "json_opt (Some s) = JStr s"

definition open_session ::
  "(json \<Rightarrow> string) \<Rightarrow> http \<Rightarrow> gateway_client \<Rightarrow> string option \<Rightarrow> string option
    \<Rightarrow> (json \<times> gateway_client) result" where
  "open_session fmt http g google github =
     bind_e (http_post fmt http g ''/auth/session''
        (JObj [(''google_token'', json_opt google), (''github_token'', json_opt github)]) False)
       (\<lambda>body. bind_e (json_item ''session_token'' body)
         (\<lambda>t. Inr (body, g\<lparr>session_token := t\<rparr>)))"

definition adopt_session :: "string \<Rightarrow> gateway_client \<Rightarrow> gateway_client" where
  "adopt_session t g = g\<lparr>session_token := JStr t\<rparr>"

record sealed_content =
  sl_ciphertext :: string
  sl_ref :: encrypted_content_ref
  sl_attestation :: json

definition seal_encrypt ::
  "(json \<Rightarrow> string) \<Rightarrow> http \<Rightarrow> gateway_client \<Rightarrow> string \<Rightarrow> sealed_content result" where
  "seal_encrypt fmt http g plaintext =
     bind_e (http_post fmt http g ''/memory/seal/encrypt''
        (JObj [(''owner_id'', JStr []), (''plaintext_b64'', JStr (b64encode plaintext))]) True)
       (\<lambda>body. bind_e (json_item ''ciphertext_b64'' body)
       (\<lambda>c. bind_e (json_string (TypeError ''ciphertext_b64'') c)
       (\<lambda>c. bind_e (b64decode c)
       (\<lambda>ciphertext. bind_e (json_item ''key_id'' body)
       (\<lambda>k. bind_e (json_item ''scheme'' body)
       (\<lambda>s. bind_e (json_string (ValidationError ''key_id'') k)
       (\<lambda>k. bind_e (json_string (ValidationError ''scheme'') s)
       (\<lambda>s. bind_e (json_item ''attestation'' body)
       (\<lambda>att. Inr \<lparr>sl_ciphertext = ciphertext,
          sl_ref = \<lparr>key_id = k, scheme = s, blob_id = None, byte_len = int (length ciphertext)\<rparr>,
          sl_attestation = att\<rparr>)))))))))"

definition json_int_opt :: "int option \<Rightarrow> json" where
  "json_int_opt x = (case x of None \<Rightarrow> JNull | Some i \<Rightarrow> JInt i)"

definition dump_scope :: "scope \<Rightarrow> json" where
  "dump_scope sc = JObj
     [(''agent_id'', JStr (agent_id sc)), (''owner_id'', JStr (scope_owner_id sc)),
      (''sources'', JArr (map JStr (scope_sources sc))),
      (''entity_kinds'', JArr (map (\<lambda>k. JStr (kind_value k)) (scope_entity_kinds sc))),
      (''not_before_ms'', json_int_opt (not_before_ms sc)),
      (''not_after_ms'', json_int_opt (not_after_ms sc)),
      (''max_sensitivity'', JStr (sensitivity_value (max_sensitivity sc))),
      (''expires_at_ms'', json_int_opt (expires_at_ms sc))]"

definition grant_scope ::
  "(json \<Rightarrow> string) \<Rightarrow> http \<Rightarrow> gateway_client \<Rightarrow> scope \<Rightarrow> int \<Rightarrow> json result" where
  "grant_scope fmt http g sc ttl_secs =
     bind_e (http_post fmt http g ''/memory/scope/grant''
        (JObj [(''scope'', dump_scope sc), (''ttl_secs'', JInt ttl_secs)]) True)
       (json_item ''grant_token'')"

definition introspect_scope ::
  "(json \<Rightarrow> string) \<Rightarrow> (json \<Rightarrow> scope result) \<Rightarrow> http \<Rightarrow> gateway_client \<Rightarrow> string \<Rightarrow> scope result" where
  "introspect_scope fmt validate_scope http g grant_token =
     bind_e (http_post fmt http g ''/memory/scope/introspect''
        (JObj [(''grant_token'', JStr grant_token)]) False)
       (\<lambda>body. case body of
           JObj kvs \<Rightarrow>
             (if (case map_of kvs ''active'' of None \<Rightarrow> False | Some a \<Rightarrow> truthy a)
              then bind_e (json_item ''scope'' body) validate_scope
              else Inl (GatewayError ''grant is not active''))
         | _ \<Rightarrow> Inl (TypeError ''get''))"

section \<open>Lemmas\<close>

lemma http_post_no_session:
  "session_token g = JNull \<Longrightarrow>
   http_post fmt http g path payload True = Inl (GatewayError ''no owner session; call open_session() first'')"
  by (simp add: http_post_def owner_session_def)

lemma http_post_session:
  "session_token g = JStr t \<Longrightarrow> http_post fmt http g path payload True =
     bind_e (http path (Some payload) [(''Authorization'', ''Bearer '' @ t)]) unwrap"
  by (simp add: http_post_def owner_session_def py_format_def)

lemma http_post_plain:
  "http_post fmt http g path payload False = bind_e (http path (Some payload) []) unwrap"
  by (simp add: http_post_def)

lemma unwrap_Inr: "unwrap r = Inr j \<Longrightarrow> http_status r < 400 \<and> http_json r = Inr j"
  by (simp add: unwrap_def split: if_splits)

section \<open>Properties\<close>


definition sample_seal_server :: http where
  "sample_seal_server path body_opt headers =
     Inr \<lparr>http_status = 200, http_text = [], http_json = Inr (JObj
         [(''ciphertext_b64'', JStr (b64encode ''xyz'')), (''key_id'', JStr ''k1''),
          (''scheme'', JStr ''aes''), (''attestation'', JNull)])\<rparr>"


text \<open>A scope is only ever the one an accepted introspection carries: the gateway answered
  below 400 with a truthy \<open>active\<close>, and the scope is its \<open>scope\<close> field.\<close>

theorem introspect_active_only:
  assumes "introspect_scope fmt validate http g token = Inr sc"
  shows "\<exists>r kvs s. http ''/memory/scope/introspect'' (Some (JObj [(''grant_token'', JStr token)])) [] = Inr r
     \<and> http_status r < 400 \<and> http_json r = Inr (JObj kvs)
     \<and> (\<exists>a. map_of kvs ''active'' = Some a \<and> truthy a) \<and> map_of kvs ''scope'' = Some s \<and> validate s = Inr sc"
proof -
  obtain j where j: "http_post fmt http g ''/memory/scope/introspect''
      (JObj [(''grant_token'', JStr token)]) False = Inr j"
    and rest: "(case j of JObj kvs \<Rightarrow>
             (if (case map_of kvs ''active'' of None \<Rightarrow> False | Some a \<Rightarrow> truthy a)
              then bind_e (json_item ''scope'' j) validate
              else Inl (GatewayError ''grant is not active''))
         | _ \<Rightarrow> Inl (TypeError ''get'')) = Inr sc"
    using assms by (auto simp: introspect_scope_def elim: bind_e_InrE)
  obtain r where r: "http ''/memory/scope/introspect'' (Some (JObj [(''grant_token'', JStr token)])) [] = Inr r"
    "unwrap r = Inr j"
    using j by (auto simp: http_post_plain elim: bind_e_InrE)
  obtain kvs where kvs: "j = JObj kvs" using rest by (cases j) auto
  have "\<exists>a. map_of kvs ''active'' = Some a \<and> truthy a"
    using rest by (auto simp: kvs split: option.splits if_split_asm)
  moreover from this obtain s where "map_of kvs ''scope'' = Some s" "validate s = Inr sc"
    using rest by (auto simp: kvs json_item_def split: option.splits elim: bind_e_InrE)
  ultimately show ?thesis using r unwrap_Inr [OF r(2)] kvs by blast
qed

definition sample_grant_server :: "scope \<Rightarrow> http" where
  "sample_grant_server sc path body_opt headers =
     Inr \<lparr>http_status = 200, http_text = [],
       http_json = Inr (JObj [(''active'', JBool True), (''scope'', dump_scope sc)])\<rparr>"

theorem introspect_active_only_witness:
  "introspect_scope (\<lambda>j. []) (\<lambda>j. Inr sample_scope) (sample_grant_server sample_scope)
       (new_client ''http://g/'') ''tok'' = Inr sample_scope
   \<and> http_status (projr (sample_grant_server sample_scope ''/memory/scope/introspect''
         (Some (JObj [(''grant_token'', JStr ''tok'')])) [])) < 400"
proof -
  have run: "introspect_scope (\<lambda>j. []) (\<lambda>j. Inr sample_scope) (sample_grant_server sample_scope)
       (new_client ''http://g/'') ''tok'' = Inr sample_scope"
    by (simp add: introspect_scope_def http_post_def sample_grant_server_def unwrap_def json_item_def)
  from introspect_active_only [OF this] run show ?thesis by auto
qed

end
