(* ===== verification/Config.thy ===== *)
theory Config
  imports Prelude
begin

text \<open>
  \<open>config.py\<close>: the settings and the choices that depend on them. Reading the environment is
  pydantic's; the values it yields are the fields of the record, with the code's defaults in
  \<open>default_settings\<close>.
\<close>

record settings =
  mode :: string
  connector_fixtures :: string
  extractor :: string
  embedder :: string
  cfg_host :: string
  cfg_port :: int
  gateway_url :: string
  neo4j_uri :: string
  neo4j_user :: string
  neo4j_password :: string
  neo4j_database :: string
  redis_url :: string
  ingestion_queue :: string
  embedding_dim :: nat
  enabled_sources :: "string list"
  chatgpt_export_dir :: "string option"
  chatgpt_sensitive :: bool
  anthropic_api_key :: "string option"
  extraction_model :: string
  embedding_model :: string
  walrus_publisher_url :: "string option"
  walrus_aggregator_url :: "string option"

definition default_settings :: settings where
  "default_settings =
     \<lparr>mode = ''mock'', connector_fixtures = ''auto'', extractor = ''auto'', embedder = ''auto'',
      cfg_host = ''127.0.0.1'', cfg_port = 8090, gateway_url = ''http://127.0.0.1:8080'',
      neo4j_uri = ''bolt://127.0.0.1:7688'', neo4j_user = ''neo4j'', neo4j_password = ''memoraidev'',
      neo4j_database = ''neo4j'', redis_url = ''redis://127.0.0.1:6380/0'',
      ingestion_queue = ''memorai-ingestion'', embedding_dim = 256, enabled_sources = [],
      chatgpt_export_dir = None, chatgpt_sensitive = True, anthropic_api_key = None,
      extraction_model = ''claude-sonnet-5'', embedding_model = ''voyage-3'',
      walrus_publisher_url = None, walrus_aggregator_url = None\<rparr>"

text \<open>The \<open>ENABLED_SOURCES\<close> variable, a comma-separated list.\<close>

definition split_csv :: "string \<Rightarrow> string list" where
  "split_csv value = map py_strip (filter (\<lambda>part. py_strip part \<noteq> []) (py_split '','' value))"

definition is_mock :: "settings \<Rightarrow> bool" where
  "is_mock s \<longleftrightarrow> mode s \<noteq> ''live''"

definition resolve_axis :: "settings \<Rightarrow> string \<Rightarrow> string \<Rightarrow> string \<Rightarrow> string" where
  "resolve_axis s override live_value mock_value =
     (if override \<noteq> ''auto'' then override
      else if mode s = ''live'' then live_value else mock_value)"

definition use_fixture_connectors :: "settings \<Rightarrow> bool" where
  "use_fixture_connectors s \<longleftrightarrow> resolve_axis s (connector_fixtures s) ''never'' ''auto'' \<noteq> ''never''"

definition use_llm_extractor :: "settings \<Rightarrow> bool" where
  "use_llm_extractor s \<longleftrightarrow> resolve_axis s (extractor s) ''llm'' ''mock'' = ''llm''"

definition use_real_embedder :: "settings \<Rightarrow> bool" where
  "use_real_embedder s \<longleftrightarrow> resolve_axis s (embedder s) ''real'' ''fake'' = ''real''"

definition source_enabled :: "settings \<Rightarrow> string \<Rightarrow> bool" where
  "source_enabled s source \<longleftrightarrow> enabled_sources s = [] \<or> source \<in> set (enabled_sources s)"

section \<open>Lemmas\<close>

lemma default_axes [simp]:
  "use_fixture_connectors default_settings" "\<not> use_llm_extractor default_settings"
  "\<not> use_real_embedder default_settings"
  by (simp_all add: use_fixture_connectors_def use_llm_extractor_def use_real_embedder_def
      resolve_axis_def default_settings_def)

text \<open>With every override at \<open>auto\<close> the three axes follow the mode.\<close>

lemma auto_axes:
  assumes "connector_fixtures s = ''auto''" "extractor s = ''auto''" "embedder s = ''auto''"
  shows "use_fixture_connectors s = is_mock s" "use_llm_extractor s = (\<not> is_mock s)"
    "use_real_embedder s = (\<not> is_mock s)"
  using assms
  by (simp_all add: use_fixture_connectors_def use_llm_extractor_def use_real_embedder_def
      resolve_axis_def is_mock_def)

end
