(* ===== verification/Connectors.thy ===== *)
theory Connectors
  imports Schema Config
begin

text \<open>
  \<open>connectors/base.py\<close>, \<open>registry.py\<close>, \<open>github.py\<close>, \<open>google.py\<close> and \<open>mock.py\<close>: the
  chunkers, the connector specification, the registry of sources and the connectors without
  a parser of their own. A connector is its name and its fetch function. The registry
  compares specifications by identity, so a specification carries an object number.
\<close>

section \<open>Chunking\<close>

definition blank_line :: string where
  "blank_line = [newline, newline]"

definition paragraphs :: "string \<Rightarrow> string list" where
  "paragraphs text =
     (let units = map py_strip (filter (\<lambda>u. py_strip u \<noteq> []) (py_split blank_line text))
      in if units = [] then [py_strip text] else units)"

fun pack_loop :: "int \<Rightarrow> string list \<Rightarrow> string list \<Rightarrow> string \<Rightarrow> string list \<times> string" where
  "pack_loop max_chars [] chunks current = (chunks, current)"
| "pack_loop max_chars (unit # units) chunks current =
     (if current \<noteq> [] \<and> int (length current) + int (length unit) + 2 > max_chars
      then pack_loop max_chars units (chunks @ [current]) unit
      else pack_loop max_chars units chunks
             (if current \<noteq> [] then current @ blank_line @ unit else unit))"

definition pack_paragraphs :: "int \<Rightarrow> string \<Rightarrow> string list" where
  "pack_paragraphs max_chars text =
     (let (chunks, current) = pack_loop max_chars (paragraphs text) [] []
      in if current \<noteq> [] then chunks @ [current] else chunks)"

definition default_chunker :: "string \<Rightarrow> string list" where
  "default_chunker = pack_paragraphs 1000"

section \<open>Connectors and their specifications\<close>

record source_connector =
  conn_name :: string
  conn_fetch :: "string \<Rightarrow> int \<Rightarrow> raw_record list result"

record connector_spec =
  spec_object :: nat
  source_id :: string
  display_name :: string
  factory :: "settings \<Rightarrow> source_connector result"
  chunker :: "string \<Rightarrow> string list result"
  requires_oauth :: bool
  oauth_scopes :: "string list"
  mock_factory :: "(settings \<Rightarrow> source_connector result) option"

text \<open>A registry is a dict from source id to specification.\<close>

type_synonym registry = "(string \<times> connector_spec) list"

definition register :: "connector_spec \<Rightarrow> registry \<Rightarrow> registry result" where
  "register sp reg =
     bind_e (check_source_id (source_id sp)) (\<lambda>_.
       if oauth_scopes sp \<noteq> [] \<and> \<not> requires_oauth sp then Inl (ValueError (source_id sp))
       else (case map_of reg (source_id sp) of
           Some existing \<Rightarrow> if spec_object existing \<noteq> spec_object sp then Inl (ValueError (source_id sp))
                            else Inr (AList.update (source_id sp) sp reg)
         | None \<Rightarrow> Inr (AList.update (source_id sp) sp reg)))"

definition reg_ids :: "registry \<Rightarrow> string list" where
  "reg_ids reg = sort (map fst reg)"

definition reg_spec :: "registry \<Rightarrow> string \<Rightarrow> connector_spec result" where
  "reg_spec reg source = (case map_of reg source of
     Some sp \<Rightarrow> Inr sp | None \<Rightarrow> Inl (UnknownSourceError source (reg_ids reg)))"

definition reg_contains :: "registry \<Rightarrow> string \<Rightarrow> bool" where
  "reg_contains reg source \<longleftrightarrow> map_of reg source \<noteq> None"

definition reg_specs :: "registry \<Rightarrow> connector_spec list" where
  "reg_specs reg = map (\<lambda>i. the (map_of reg i)) (reg_ids reg)"

definition reg_copy :: "registry \<Rightarrow> registry" where
  "reg_copy reg = dict_of reg"

definition reg_connector :: "registry \<Rightarrow> string \<Rightarrow> settings \<Rightarrow> source_connector result" where
  "reg_connector reg source s =
     bind_e (reg_spec reg source) (\<lambda>sp.
       case mock_factory sp of
         Some mk \<Rightarrow> if use_fixture_connectors s then mk s else factory sp s
       | None \<Rightarrow> factory sp s)"

definition reg_chunker :: "registry \<Rightarrow> string \<Rightarrow> string \<Rightarrow> string list result" where
  "reg_chunker reg source = (case map_of reg source of
     Some sp \<Rightarrow> chunker sp | None \<Rightarrow> (\<lambda>text. Inr (default_chunker text)))"

section \<open>GitHub and Google\<close>

definition not_wired :: "string \<Rightarrow> settings \<Rightarrow> source_connector result" where
  "not_wired name s = Inr \<lparr>conn_name = name, conn_fetch = (\<lambda>owner since. Inl NotImplementedError)\<rparr>"

definition hunk_mark :: string where
  "hunk_mark = [newline, CHR ''@'', CHR ''@'']"

definition chunk_diff :: "string \<Rightarrow> string list result" where
  "chunk_diff text =
     (if \<not> contains hunk_mark text then Inr (pack_paragraphs 600 text)
      else (case filter (\<lambda>p. py_strip p \<noteq> []) (py_split hunk_mark text) of
          [] \<Rightarrow> Inl IndexError
        | p # ps \<Rightarrow> Inr (py_strip p # map (\<lambda>q. py_strip (''@@'' @ q)) ps)))"

definition github_spec :: connector_spec where
  "github_spec = \<lparr>spec_object = 3, source_id = ''github'', display_name = ''GitHub'',
     factory = not_wired ''github'', chunker = chunk_diff, requires_oauth = True,
     oauth_scopes = [''read:user'', ''repo''], mock_factory = None\<rparr>"

definition google_spec :: connector_spec where
  "google_spec = \<lparr>spec_object = 2, source_id = ''google'', display_name = ''Google (Gmail, Calendar)'',
     factory = not_wired ''google'', chunker = (\<lambda>t. Inr (pack_paragraphs 1200 t)), requires_oauth = True,
     oauth_scopes = [''https://www.googleapis.com/auth/gmail.readonly'',
                     ''https://www.googleapis.com/auth/calendar.readonly''], mock_factory = None\<rparr>"

section \<open>The fixture connector\<close>

definition day_ms :: int where
  "day_ms = 86400000"

definition base_ms :: int where
  "base_ms = 1735689600000"

definition fixture :: "string \<Rightarrow> int \<Rightarrow> string \<Rightarrow> string \<Rightarrow> bool \<Rightarrow> string list \<Rightarrow> raw_record" where
  "fixture i days title text sens people =
     \<lparr>rec_external_id = i, rec_connector = ''mock'', rec_occurred_at_ms = base_ms + days * day_ms,
      rec_title = title, rec_body = text, rec_url = Some (''https://mock.local/records/'' @ i),
      rec_sensitive = sens, rec_participants = people, rec_metadata = []\<rparr>"

definition fixtures :: "raw_record list" where
  "fixtures =
    [fixture ''mock-001'' 0 ''Kickoff for project Atlas''
       ''Alice and Bob agreed that project Atlas will use Postgres for the primary datastore. Decision recorded at kickoff.''
       False [''Alice'', ''Bob''],
     fixture ''mock-002'' 3 ''Atlas storage revisited''
       ''Bob decided that project Atlas will use Neo4j for the primary datastore, replacing the earlier Postgres decision.''
       False [''Bob''],
     fixture ''mock-003'' 5 ''Atlas compensation note''
       ''Carol noted that project Atlas will use Postgres for the primary datastore after all, pending review.''
       True [''Carol''],
     fixture ''mock-004'' 9 ''Beacon rollout owner''
       ''Alice decided that project Beacon will ship behind a feature flag.''
       False [''Alice''],
     fixture ''mock-005'' 12 ''Atlas migration owner''
       ''Alice committed to Bob that project Atlas will ship the storage migration by 2025-02-14.''
       False [''Alice'', ''Bob''],
     fixture ''mock-006'' 15 ''Atlas migration reassigned''
       ''Bob committed to Alice that project Atlas will ship the storage migration by 2025-03-07.''
       False [''Alice'', ''Bob''],
     fixture ''mock-007'' 16 ''Beacon rollout plan''
       ''Carol committed that project Beacon will publish the rollout plan by 2025-01-24.''
       False [''Carol'']]"

definition mock_fetch :: "string \<Rightarrow> int \<Rightarrow> raw_record list result" where
  "mock_fetch owner since_ms = Inr (filter (\<lambda>r. rec_occurred_at_ms r \<ge> since_ms) fixtures)"

definition mock_build :: "settings \<Rightarrow> source_connector result" where
  "mock_build s = Inr \<lparr>conn_name = ''mock'', conn_fetch = mock_fetch\<rparr>"

definition mock_spec :: connector_spec where
  "mock_spec = \<lparr>spec_object = 1, source_id = ''mock'', display_name = ''Mock fixtures'',
     factory = mock_build, chunker = (\<lambda>t. Inr (pack_paragraphs 800 t)), requires_oauth = False,
     oauth_scopes = [], mock_factory = Some mock_build\<rparr>"

section \<open>Lemmas on packing\<close>

abbreviation join_units :: "string list \<Rightarrow> string" where
  "join_units \<equiv> py_join blank_line"

lemma join_units_Nil: "[] \<notin> set us \<Longrightarrow> join_units us = [] \<longleftrightarrow> us = []"
  by (induction blank_line us rule: py_join.induct) (auto simp: blank_line_def)

definition packed :: "int \<Rightarrow> string list \<Rightarrow> bool" where
  "packed m g \<longleftrightarrow> g \<noteq> [] \<and> (length g = 1 \<or> int (length (join_units g)) \<le> m)"

lemma pack_loop_groups:
  assumes "[] \<notin> set us" "[] \<notin> set g" "g = [] \<or> packed m g" "list_all (packed m) gs"
  shows "\<exists>gs' g'. pack_loop m us (map join_units gs) (join_units g) = (map join_units gs', join_units g')
     \<and> concat gs' @ g' = concat gs @ g @ us \<and> [] \<notin> set g'
     \<and> (g' = [] \<or> packed m g') \<and> list_all (packed m) gs'"
  using assms
proof (induction us arbitrary: g gs)
  case Nil
  then show ?case by (intro exI [of _ gs] exI [of _ g]) simp
next
  case (Cons u us)
  have u: "u \<noteq> []" "packed m [u]" using Cons.prems by (auto simp: packed_def)
  show ?case
  proof (cases "g = []")
    case True
    with Cons.IH [of "[u]" gs] Cons.prems u show ?thesis by simp
  next
    case False
    then have cur: "join_units g \<noteq> []" using join_units_Nil Cons.prems by blast
    show ?thesis
    proof (cases "int (length (join_units g)) + int (length u) + 2 > m")
      case True
      with Cons.IH [of "[u]" "gs @ [g]"] Cons.prems u cur False show ?thesis by simp
    next
      case fits: False
      have "packed m (g @ [u])" using fits False by (simp add: packed_def py_join_snoc blank_line_def)
      with Cons.IH [of "g @ [u]" gs] Cons.prems u cur fits False show ?thesis
        by (simp add: py_join_snoc)
    qed
  qed
qed

lemma py_strip_Nil: "py_strip s = [] \<longleftrightarrow> list_all is_space s"
  by (auto simp: py_strip_def dropWhile_eq_Nil_conv list_all_iff dest: set_dropWhileD)
    (metis UnE dropWhile_eq_Nil_conv set_append set_takeWhileD takeWhile_dropWhile_id)

lemma set_py_join: "u \<in> set us \<Longrightarrow> set u \<subseteq> set (py_join sep us)"
  by (induction sep us rule: py_join.induct) auto

lemma set_py_split: "sep \<noteq> [] \<Longrightarrow> part \<in> set (py_split sep s) \<Longrightarrow> set part \<subseteq> set s"
  using set_py_join [of part "py_split sep s" sep] join_py_split [of sep s] by simp

lemma blank_paragraphs: "py_strip text = [] \<Longrightarrow> paragraphs text = [[]]"
proof -
  assume blank: "py_strip text = []"
  have "py_strip u = []" if "u \<in> set (py_split blank_line text)" for u
    using set_py_split [OF _ that] blank by (auto simp: py_strip_Nil list_all_iff blank_line_def)
  then have "filter (\<lambda>u. py_strip u \<noteq> []) (py_split blank_line text) = []" by (simp add: filter_empty_conv)
  with blank show ?thesis by (simp add: paragraphs_def)
qed

lemma paragraphs_nonempty: "py_strip text \<noteq> [] \<Longrightarrow> [] \<notin> set (paragraphs text)"
  by (auto simp: paragraphs_def Let_def)

section \<open>Lemmas on the registry\<close>

definition spec_ok :: "connector_spec \<Rightarrow> bool" where
  "spec_ok sp \<longleftrightarrow> check_source_id (source_id sp) = Inr (source_id sp)
     \<and> (oauth_scopes sp = [] \<or> requires_oauth sp)"

definition registry_ok :: "registry \<Rightarrow> bool" where
  "registry_ok reg \<longleftrightarrow> distinct (map fst reg) \<and> list_all (\<lambda>(k, sp). k = source_id sp \<and> spec_ok sp) reg"

lemma check_source_id_same: "check_source_id v = Inr w \<Longrightarrow> w = v"
  by (simp add: check_source_id_def split: if_splits)

lemma register_Inr:
  assumes "register sp reg = Inr reg'"
  shows "reg' = AList.update (source_id sp) sp reg" "spec_ok sp"
    "map_of reg (source_id sp) = None \<or> (\<exists>old. map_of reg (source_id sp) = Some old \<and> spec_object old = spec_object sp)"
proof -
  obtain v where v: "check_source_id (source_id sp) = Inr v" using assms
    by (auto simp: register_def elim: bind_e_InrE)
  with assms have "\<not> (oauth_scopes sp \<noteq> [] \<and> \<not> requires_oauth sp)"
    by (auto simp: register_def split: if_splits)
  with v check_source_id_same [OF v] show "spec_ok sp" by (auto simp: spec_ok_def)
  show "reg' = AList.update (source_id sp) sp reg"
    "map_of reg (source_id sp) = None \<or> (\<exists>old. map_of reg (source_id sp) = Some old \<and> spec_object old = spec_object sp)"
    using assms v by (auto simp: register_def split: if_splits option.splits)
qed

lemma set_update_alist: "set (AList.update k v d) \<subseteq> insert (k, v) (set d)"
  by (induction d) auto

lemma register_ok: "register sp reg = Inr reg' \<Longrightarrow> registry_ok reg \<Longrightarrow> registry_ok reg'"
  using register_Inr [of sp reg reg'] set_update_alist [of "source_id sp" sp reg]
  by (fastforce simp: registry_ok_def list_all_iff distinct_update)

text \<open>A lookup structure: what a source resolves to after a registration.\<close>

locale source_table =
  fixes lookup :: "'t \<Rightarrow> string \<Rightarrow> 's option"
    and insert_spec :: "'s \<Rightarrow> 't \<Rightarrow> 't result"
    and id_of :: "'s \<Rightarrow> string"
  assumes lookup_insert: "insert_spec sp t = Inr t' \<Longrightarrow> lookup t' i = (if i = id_of sp then Some sp else lookup t i)"
begin

lemma insert_all_lookup:
  assumes "fold_e insert_spec sps t = Inr t'"
  shows "lookup t' i = (case filter (\<lambda>sp. id_of sp = i) sps of [] \<Rightarrow> lookup t i | xs \<Rightarrow> Some (last xs))"
  using assms
proof (induction sps arbitrary: t)
  case (Cons sp sps)
  then obtain t1 where t1: "insert_spec sp t = Inr t1" "fold_e insert_spec sps t1 = Inr t'"
    by (auto elim: bind_e_InrE)
  from Cons.IH [OF t1(2)] lookup_insert [OF t1(1), of i] show ?case
    by (auto split: list.splits)
qed simp

end

interpretation reg: source_table map_of register source_id
  by unfold_locales (auto dest: register_Inr(1) simp: update_conv')

section \<open>Properties\<close>

text \<open>Packing loses, reorders and splits no paragraph. The chunks are the paragraphs of a
  text, in order, grouped and joined by blank lines; each chunk is within the budget or is
  one paragraph alone; a blank text has no chunks.\<close>

theorem pack_paragraphs_groups:
  "\<exists>gs. concat gs = (if py_strip text = [] then [] else paragraphs text)
     \<and> pack_paragraphs m text = map (py_join blank_line) gs
     \<and> list_all (\<lambda>g. g \<noteq> [] \<and> (length g = 1 \<or> int (length (py_join blank_line g)) \<le> m)) gs"
proof (cases "py_strip text = []")
  case True
  then show ?thesis
    by (intro exI [of _ "[]"]) (simp add: pack_paragraphs_def blank_paragraphs)
next
  case False
  from pack_loop_groups [of "paragraphs text" "[]" m "[]"] paragraphs_nonempty [OF False]
  obtain gs g where run: "pack_loop m (paragraphs text) [] [] = (map join_units gs, join_units g)"
    "concat gs @ g = paragraphs text" "[] \<notin> set g" "g = [] \<or> packed m g" "list_all (packed m) gs"
    by auto
  show ?thesis
  proof (cases "g = []")
    case True
    with run False show ?thesis
      by (intro exI [of _ gs]) (simp add: pack_paragraphs_def packed_def [abs_def])
  next
    case False
    with run \<open>py_strip text \<noteq> []\<close> join_units_Nil [OF run(3)] show ?thesis
      by (intro exI [of _ "gs @ [g]"]) (simp add: pack_paragraphs_def packed_def [abs_def])
  qed
qed

text \<open>The diff chunker fails exactly on a diff-shaped text without content: a hunk mark is
  present and every part between the marks is blank. Then it raises \<open>IndexError\<close>; on every
  other text it returns chunks.\<close>

theorem chunk_diff_failure:
  "chunk_diff text = Inl e \<longleftrightarrow> e = IndexError \<and> contains hunk_mark text
     \<and> list_all (\<lambda>p. py_strip p = []) (py_split hunk_mark text)"
proof (cases "filter (\<lambda>p. py_strip p \<noteq> []) (py_split hunk_mark text)")
  case Nil
  then have "list_all (\<lambda>p. py_strip p = []) (py_split hunk_mark text)"
    by (simp add: filter_empty_conv list_all_iff)
  with Nil show ?thesis by (auto simp: chunk_diff_def)
next
  case (Cons p ps)
  then have "\<not> list_all (\<lambda>p. py_strip p = []) (py_split hunk_mark text)"
    using filter_empty_conv [of "\<lambda>p. py_strip p \<noteq> []" "py_split hunk_mark text"] by (simp add: list_all_iff)
  with Cons show ?thesis by (simp add: chunk_diff_def)
qed

lemma chunk_diff_samples:
  "chunk_diff (hunk_mark @ '' '') = Inl IndexError"
  "chunk_diff (hunk_mark @ '' -1 +1'' @ hunk_mark @ '' -9 +9'') = Inr [''-1 +1'', ''@@ -9 +9'']"
  by code_simp+

text \<open>Registering keeps the registry well formed (one entry per id, ids valid, no OAuth
  scopes without OAuth), makes the specification the answer for its id and for no other,
  and refuses a second specification object under a taken id.\<close>

theorem register_contract:
  assumes "registry_ok reg"
  shows "(case register sp reg of
      Inr reg' \<Rightarrow> registry_ok reg' \<and> reg_spec reg' (source_id sp) = Inr sp
        \<and> (\<forall>i. i = source_id sp \<or> map_of reg' i = map_of reg i)
    | Inl e \<Rightarrow> \<not> spec_ok sp \<or> (\<exists>old. map_of reg (source_id sp) = Some old \<and> spec_object old \<noteq> spec_object sp))"
proof (cases "register sp reg")
  case (Inl e)
  then show ?thesis
    by (auto simp: register_def spec_ok_def check_source_id_def split: if_splits option.splits)
next
  case (Inr reg')
  then show ?thesis
    using register_ok [OF Inr assms] reg.lookup_insert [OF Inr] by (simp add: reg_spec_def)
qed

theorem register_contract_witness:
  "\<exists>reg'. register mock_spec [] = Inr reg' \<and> reg_spec reg' ''mock'' = Inr mock_spec"
proof -
  have "register mock_spec [] = Inr [(''mock'', mock_spec)]"
  proof -
    have "check_source_id ''mock'' = Inr ''mock''" by code_simp
    then show ?thesis by (simp add: register_def mock_spec_def)
  qed
  with register_contract [of "[]" mock_spec] show ?thesis
    by (simp add: registry_ok_def) (simp add: mock_spec_def)
qed

end
