(* ===== verification/Ingestion.thy ===== *)
theory Ingestion
  imports Resolver Gateway Connectors
begin

text \<open>
  \<open>graphs/runtime.py\<close> and \<open>graphs/ingestion.py\<close>: fetch, extract, resolve, encrypt, write.
  Each node of the graph is a function on the ingestion state; \<open>run_ingestion\<close> composes them
  in the order of the edges. Connectors, extractor, embedder and gateway server come with the
  \<open>runtime\<close> record, whose functions may raise. A node that raises ends the run, and the rows
  written before it stay: \<open>write\<close> is a sequence of store operations that stops at the first
  error and keeps the graph it reached. Models survive \<open>model_dump\<close> and \<open>model_validate\<close>
  between the nodes (pydantic's contract), so the state holds the models. The checkpointer is
  new for every run and takes no part.
\<close>

section \<open>Runtime and state\<close>

record runtime =
  rt_settings :: settings
  rt_embed :: "string \<Rightarrow> real list result"
  rt_extract :: "string \<Rightarrow> raw_record \<Rightarrow> candidate result"
  rt_gateway :: gateway_client
  rt_registry :: registry
  rt_http :: http
  rt_fmt :: "json \<Rightarrow> string"
  rt_show :: "py_error \<Rightarrow> string"
  rt_validate_scope :: "json \<Rightarrow> scope result"

record sealed_body =
  sb_ref :: encrypted_content_ref
  sb_ciphertext_b64 :: string
  sb_attestation :: json

record ingestion_state =
  is_owner_id :: string
  is_source :: string
  is_since_ms :: int
  is_session :: "string option"
  is_records :: "raw_record list"
  is_candidates :: "candidate list"
  is_sealed :: "(string \<times> sealed_body) list"
  is_written :: "string list"
  is_supersessions :: "(string \<times> string) list"
  is_contradictions :: "(string \<times> string) list"
  is_errors :: "string list"

record ingestion_result =
  ir_owner_id :: string
  ir_records :: nat
  ir_entities :: nat
  ir_events :: nat
  ir_claims :: nat
  ir_sealed :: nat
  ir_supersessions :: "(string \<times> string) list"
  ir_contradictions :: "(string \<times> string) list"
  ir_errors :: "string list"

section \<open>Fetch, extract, resolve\<close>

definition fetch :: "runtime \<Rightarrow> ingestion_state \<Rightarrow> ingestion_state result" where
  "fetch rt st =
     (if \<not> source_enabled (rt_settings rt) (is_source st) then Inl (ValueError (is_source st))
      else bind_e (reg_connector (rt_registry rt) (is_source st) (rt_settings rt)) (\<lambda>conn.
           bind_e (conn_fetch conn (is_owner_id st) (is_since_ms st)) (\<lambda>records.
             Inr (st\<lparr>is_records := records\<rparr>))))"

definition extract_node :: "runtime \<Rightarrow> ingestion_state \<Rightarrow> ingestion_state result" where
  "extract_node rt st =
     bind_e (map_e (rt_extract rt (is_owner_id st)) (is_records st)) (\<lambda>cands.
       Inr (st\<lparr>is_candidates := cands\<rparr>))"

text \<open>\<open>candidate.claims = resolution.new_claims\<close>, once the whole batch is resolved.\<close>

definition resolve_node :: "graph \<Rightarrow> ingestion_state \<Rightarrow> ingestion_state" where
  "resolve_node G st =
     (let (pending, rs) = resolve_batch (store_get G) (claims_about G) (is_owner_id st) (is_candidates st)
      in st\<lparr>is_candidates := map2 (\<lambda>cand r. cand\<lparr>cand_claims := claims_at pending r\<rparr>) (is_candidates st) rs,
            is_supersessions := concat (map supersessions rs),
            is_contradictions := concat (map contradictions rs)\<rparr>)"

section \<open>Encrypt\<close>

definition sensitive_records :: "raw_record list \<Rightarrow> (string \<times> raw_record) list" where
  "sensitive_records records = dict_of (map (\<lambda>r. (rec_external_id r, r)) (filter rec_sensitive records))"

definition seal_one ::
  "runtime \<Rightarrow> gateway_client \<Rightarrow> string \<times> raw_record
    \<Rightarrow> (string \<times> sealed_body) list \<times> string list \<Rightarrow> (string \<times> sealed_body) list \<times> string list" where
  "seal_one rt g xr acc = (case (xr, acc) of ((external_id, record), (sealed, errors)) \<Rightarrow>
     (case seal_encrypt (rt_fmt rt) (rt_http rt) g (utf8 (rec_body record)) of
        Inl exc \<Rightarrow> (sealed, errors @ [''seal failed for '' @ external_id @ '': '' @ rt_show rt exc])
      | Inr r \<Rightarrow> (sealed @ [(external_id, \<lparr>sb_ref = sl_ref r, sb_ciphertext_b64 = b64encode (sl_ciphertext r),
                     sb_attestation = sl_attestation r\<rparr>)], errors)))"

definition seal_client :: "runtime \<Rightarrow> string option \<Rightarrow> gateway_client" where
  "seal_client rt session = (case session of
      Some t \<Rightarrow> if t \<noteq> [] then adopt_session t (rt_gateway rt) else rt_gateway rt
    | None \<Rightarrow> rt_gateway rt)"

definition encrypt :: "runtime \<Rightarrow> ingestion_state \<Rightarrow> ingestion_state" where
  "encrypt rt st =
     (let sensitive = sensitive_records (is_records st) in
      if sensitive = [] then st\<lparr>is_sealed := []\<rparr>
      else
        let (sealed, errors) = fold (seal_one rt (seal_client rt (is_session st))) sensitive ([], [])
        in st\<lparr>is_sealed := sealed, is_errors := is_errors st @ errors\<rparr>)"

section \<open>Write\<close>

text \<open>The graph, the ids written and the errors recorded; a step returns the exception, if any.\<close>

type_synonym write_state = "graph \<times> string list \<times> string list"
type_synonym write_step = "write_state \<Rightarrow> py_error option \<times> write_state"

fun run_steps :: "write_step list \<Rightarrow> write_step" where
  "run_steps [] s = (None, s)"
| "run_steps (f # fs) s = (case f s of (None, s') \<Rightarrow> run_steps fs s' | (Some e, s') \<Rightarrow> (Some e, s'))"

definition on_graph :: "(graph \<Rightarrow> graph result) \<Rightarrow> write_step" where
  "on_graph f s = (case s of (G, ids, errs) \<Rightarrow>
     (case f G of Inl e \<Rightarrow> (Some e, s) | Inr G' \<Rightarrow> (None, (G', ids, errs))))"

definition put :: "runtime \<Rightarrow> memory_node \<Rightarrow> string \<Rightarrow> write_step" where
  "put rt node text = on_graph (\<lambda>G. bind_e (rt_embed rt text) (\<lambda>emb. Inr (upsert node emb G)))"

definition note_written :: "string \<Rightarrow> write_step" where
  "note_written i s = (case s of (G, ids, errs) \<Rightarrow> (None, (G, ids @ [i], errs)))"

definition note_error :: "string \<Rightarrow> write_step" where
  "note_error m s = (case s of (G, ids, errs) \<Rightarrow> (None, (G, ids, errs @ [m])))"

definition relate :: "string \<Rightarrow> string \<Rightarrow> string \<Rightarrow> write_step" where
  "relate i rel j = on_graph (link i rel j)"

definition needs_seal :: "raw_record list \<Rightarrow> string \<Rightarrow> bool" where
  "needs_seal records external_id \<longleftrightarrow>
     list_ex (\<lambda>r. rec_external_id r = external_id \<and> rec_sensitive r) records"

definition write_entity :: "runtime \<Rightarrow> entity \<Rightarrow> write_step list" where
  "write_entity rt e =
     [put rt (EntityN e) (ent_name e @ '' '' @ py_join '' '' (ent_aliases e)), note_written (ent_id e)]"

definition store_event :: "runtime \<Rightarrow> event \<Rightarrow> write_step list" where
  "store_event rt e =
     [put rt (EventN e) (summary e @ '' '' @ or_empty (body e)), note_written (evt_id e)]
     @ map (\<lambda>i. relate (evt_id e) ''MENTIONS'' i) (entity_ids e)
     @ map (\<lambda>c. relate (evt_id e) ''CITES'' (cit_event_id c))
         (filter (\<lambda>c. cit_event_id c \<noteq> evt_id e) (prov_citations (evt_provenance e)))"

definition write_event ::
  "runtime \<Rightarrow> raw_record list \<Rightarrow> (string \<times> sealed_body) list \<Rightarrow> event \<Rightarrow> write_step list" where
  "write_event rt records sealed e =
     (case map_of sealed (sr_external_id (evt_source e)) of
        Some blob \<Rightarrow> store_event rt (e\<lparr>encrypted_content := Some (sb_ref blob), body := None\<rparr>)
      | None \<Rightarrow>
          if needs_seal records (sr_external_id (evt_source e))
          then [note_error (''skipped '' @ evt_id e @ '': sensitive body was not sealed'')]
          else store_event rt e)"

definition write_claim :: "runtime \<Rightarrow> claim \<Rightarrow> write_step list" where
  "write_claim rt c =
     [put rt (ClaimN c) (clm_statement c), note_written (clm_id c)]
     @ map (\<lambda>i. relate (clm_id c) ''ABOUT'' i) (subject_entity_ids c)
     @ (case clm_commitment c of None \<Rightarrow> [] | Some m \<Rightarrow>
          relate (clm_id c) ''OWED_BY'' (owed_by_entity_id m)
          # (case owed_to_entity_id m of None \<Rightarrow> []
               | Some t \<Rightarrow> if t \<noteq> [] then [relate (clm_id c) ''OWED_TO'' t] else []))
     @ map (\<lambda>cit. relate (clm_id c) ''CITES'' (cit_event_id cit)) (prov_citations (clm_provenance c))
     @ concat (map (\<lambda>i. [relate (clm_id c) ''SUPERSEDES'' i,
                         on_graph (set_claim_status i (status_value Superseded))]) (supersedes c))
     @ map (\<lambda>i. relate (clm_id c) ''CONTRADICTS'' i) (contradicts c)"

definition write_candidate ::
  "runtime \<Rightarrow> raw_record list \<Rightarrow> (string \<times> sealed_body) list \<Rightarrow> candidate \<Rightarrow> write_step list" where
  "write_candidate rt records sealed cand =
     concat (map (write_entity rt) (cand_entities cand))
     @ concat (map (write_event rt records sealed) (cand_events cand))
     @ concat (map (write_claim rt) (cand_claims cand))"

definition write_node :: "runtime \<Rightarrow> ingestion_state \<Rightarrow> graph \<Rightarrow> ingestion_state result \<times> graph" where
  "write_node rt st G =
     (case run_steps (concat (map (write_candidate rt (is_records st) (is_sealed st)) (is_candidates st)))
             (G, [], []) of
        (None, (G', ids, errs)) \<Rightarrow>
          (Inr (st\<lparr>is_written := is_written st @ ids, is_errors := is_errors st @ errs\<rparr>), G')
      | (Some e, (G', ids, errs)) \<Rightarrow> (Inl e, G'))"

section \<open>The pipeline\<close>

definition start_state :: "string \<Rightarrow> string \<Rightarrow> int \<Rightarrow> string option \<Rightarrow> ingestion_state" where
  "start_state owner source since_ms session =
     \<lparr>is_owner_id = owner, is_source = source, is_since_ms = since_ms, is_session = session,
      is_records = [], is_candidates = [], is_sealed = [], is_written = [],
      is_supersessions = [], is_contradictions = [], is_errors = []\<rparr>"

definition prepare :: "runtime \<Rightarrow> ingestion_state \<Rightarrow> graph \<Rightarrow> ingestion_state result" where
  "prepare rt st G =
     bind_e (fetch rt st) (\<lambda>st1. bind_e (extract_node rt st1) (\<lambda>st2.
       Inr (encrypt rt (resolve_node G st2))))"

definition pipeline :: "runtime \<Rightarrow> ingestion_state \<Rightarrow> graph \<Rightarrow> ingestion_state result \<times> graph" where
  "pipeline rt st G = (case prepare rt st G of Inl e \<Rightarrow> (Inl e, G) | Inr st' \<Rightarrow> write_node rt st' G)"

definition summarise :: "string \<Rightarrow> ingestion_state \<Rightarrow> ingestion_result" where
  "summarise owner st =
     \<lparr>ir_owner_id = owner, ir_records = length (is_records st),
      ir_entities = sum_list (map (\<lambda>c. length (cand_entities c)) (is_candidates st)),
      ir_events = sum_list (map (\<lambda>c. length (cand_events c)) (is_candidates st)),
      ir_claims = sum_list (map (\<lambda>c. length (cand_claims c)) (is_candidates st)),
      ir_sealed = length (is_sealed st), ir_supersessions = is_supersessions st,
      ir_contradictions = is_contradictions st, ir_errors = is_errors st\<rparr>"

definition run_ingestion ::
  "runtime \<Rightarrow> string \<Rightarrow> string \<Rightarrow> int \<Rightarrow> string option \<Rightarrow> graph \<Rightarrow> ingestion_result result \<times> graph" where
  "run_ingestion rt owner source since_ms session G =
     (case pipeline rt (start_state owner source since_ms session) G of
        (Inl e, G') \<Rightarrow> (Inl e, G')
      | (Inr st, G') \<Rightarrow> (Inr (summarise owner st), G'))"

section \<open>Invariants of the write node\<close>

definition event_to_store :: "raw_record list \<Rightarrow> (string \<times> sealed_body) list \<Rightarrow> event \<Rightarrow> event option" where
  "event_to_store records sealed e =
     (case map_of sealed (sr_external_id (evt_source e)) of
        Some blob \<Rightarrow> Some (e\<lparr>encrypted_content := Some (sb_ref blob), body := None\<rparr>)
      | None \<Rightarrow> if needs_seal records (sr_external_id (evt_source e)) then None else Some e)"

lemma write_event_alt:
  "write_event rt records sealed e = (case event_to_store records sealed e of
     Some e' \<Rightarrow> store_event rt e'
   | None \<Rightarrow> [note_error (''skipped '' @ evt_id e @ '': sensitive body was not sealed'')])"
  by (simp add: write_event_def event_to_store_def split: option.splits)

text \<open>The nodes a batch of candidates writes.\<close>

definition nodes_of :: "raw_record list \<Rightarrow> (string \<times> sealed_body) list \<Rightarrow> candidate \<Rightarrow> memory_node set" where
  "nodes_of records sealed cand = EntityN ` set (cand_entities cand)
     \<union> {EventN e' | e e'. e \<in> set (cand_events cand) \<and> event_to_store records sealed e = Some e'}
     \<union> ClaimN ` set (cand_claims cand)"

definition batch_steps :: "runtime \<Rightarrow> ingestion_state \<Rightarrow> write_step list" where
  "batch_steps rt st = concat (map (write_candidate rt (is_records st) (is_sealed st)) (is_candidates st))"

definition batch_nodes :: "ingestion_state \<Rightarrow> memory_node set" where
  "batch_nodes st = (\<Union>cand \<in> set (is_candidates st). nodes_of (is_records st) (is_sealed st) cand)"

lemma write_node_graph: "snd (write_node rt st G) = fst (snd (run_steps (batch_steps rt st) (G, [], [])))"
  by (simp add: write_node_def batch_steps_def split: prod.splits option.splits)

lemma run_steps_inv:
  assumes "\<And>f s. f \<in> set fs \<Longrightarrow> P s \<Longrightarrow> P (snd (f s))" and "P s"
  shows "P (snd (run_steps fs s))"
  using assms
proof (induction fs arbitrary: s)
  case (Cons f fs)
  have "P (snd (f s))" using Cons.prems by simp
  moreover have "P (snd (run_steps fs s'))" if "P s'" for s' using Cons that by simp
  ultimately show ?case by (auto split: prod.splits option.splits)
qed simp

text \<open>What a step establishes and later steps keep holds after a run without exception.\<close>

lemma run_steps_reach:
  assumes "run_steps fs s = (None, s')" "f \<in> set fs"
    and "\<And>t t'. P t \<Longrightarrow> f t = (None, t') \<Longrightarrow> Q t'" and "\<And>g t. g \<in> set fs \<Longrightarrow> Q t \<Longrightarrow> Q (snd (g t))"
    and "\<And>g t. g \<in> set fs \<Longrightarrow> P t \<Longrightarrow> P (snd (g t))" and "P s"
  shows "Q s'"
  using assms
proof (induction fs arbitrary: s)
  case (Cons g fs)
  from Cons.prems(1) obtain t where t: "g s = (None, t)" "run_steps fs t = (None, s')"
    by (auto split: prod.splits option.splits)
  have P: "P t" using Cons.prems(5) [of g s] Cons.prems(6) t(1) by simp
  show ?case
  proof (cases "f = g")
    case True
    with Cons.prems(3) [OF Cons.prems(6)] t(1) have "Q t" by simp
    with run_steps_inv [of fs Q t] Cons.prems(4) t(2) show ?thesis by simp
  next
    case False
    with Cons P t(2) show ?thesis by simp
  qed
qed simp

text \<open>A property of the graph that writing entities and events keeps.\<close>

locale node_invariant =
  fixes ok_put :: "memory_node \<Rightarrow> bool"
    and P :: "graph \<Rightarrow> bool"
  assumes inv_put: "ok_put node \<Longrightarrow> P G \<Longrightarrow> P (upsert node emb G)"
    and inv_link: "P G \<Longrightarrow> link i rel j G = Inr G' \<Longrightarrow> P G'"
begin

lemma inv_on_graph:
  assumes "P (fst s)" "\<And>G G'. P G \<Longrightarrow> f G = Inr G' \<Longrightarrow> P G'"
  shows "P (fst (snd (on_graph f s)))"
  using assms by (auto simp: on_graph_def split: prod.splits sum.splits)

lemma inv_put_step: "ok_put node \<Longrightarrow> P (fst s) \<Longrightarrow> P (fst (snd (put rt node text s)))"
  unfolding put_def by (rule inv_on_graph) (auto elim!: bind_e_InrE intro: inv_put)

lemma inv_relate: "P (fst s) \<Longrightarrow> P (fst (snd (relate i rel j s)))"
  unfolding relate_def by (rule inv_on_graph) (auto intro: inv_link)

lemma inv_notes: "P (fst s) \<Longrightarrow> P (fst (snd (note_written i s)))" "P (fst s) \<Longrightarrow> P (fst (snd (note_error m s)))"
  by (auto simp: note_written_def note_error_def split: prod.splits)

lemma inv_entity: "ok_put (EntityN e) \<Longrightarrow> f \<in> set (write_entity rt e) \<Longrightarrow> P (fst s) \<Longrightarrow> P (fst (snd (f s)))"
  by (auto simp: write_entity_def inv_put_step inv_notes)

lemma inv_event: "ok_put (EventN e) \<Longrightarrow> f \<in> set (store_event rt e) \<Longrightarrow> P (fst s) \<Longrightarrow> P (fst (snd (f s)))"
  by (auto simp: store_event_def inv_put_step inv_notes inv_relate)

lemma inv_nodes:
  assumes "\<And>node. node \<in> nodes_of records sealed cand \<Longrightarrow> ok_put node" "P (fst s)"
    and "f \<in> set (concat (map (write_entity rt) (cand_entities cand))
            @ concat (map (write_event rt records sealed) (cand_events cand)))"
  shows "P (fst (snd (f s)))"
proof -
  consider e where "e \<in> set (cand_entities cand)" "f \<in> set (write_entity rt e)"
    | e where "e \<in> set (cand_events cand)" "f \<in> set (write_event rt records sealed e)"
    using assms(3) by auto
  then show ?thesis
  proof cases
    case 1
    with assms(1) [of "EntityN e"] assms(2) show ?thesis by (simp add: nodes_of_def inv_entity)
  next
    case 2
    show ?thesis
    proof (cases "event_to_store records sealed e")
      case None
      with 2 assms(2) show ?thesis by (simp add: write_event_alt inv_notes)
    next
      case (Some e')
      with 2 assms(1) [of "EventN e'"] assms(2) show ?thesis
        by (auto simp: write_event_alt nodes_of_def intro: inv_event)
    qed
  qed
qed

lemma inv_without_claims:
  assumes "\<And>node. node \<in> batch_nodes st \<Longrightarrow> ok_put node" "P G"
    and "\<And>cand. cand \<in> set (is_candidates st) \<Longrightarrow> cand_claims cand = []"
  shows "P (snd (write_node rt st G))"
proof -
  have "P (fst (snd (f s)))" if f: "f \<in> set (batch_steps rt st)" and s: "P (fst s)" for f s
  proof -
    obtain cand where c: "cand \<in> set (is_candidates st)"
      "f \<in> set (write_candidate rt (is_records st) (is_sealed st) cand)"
      using f by (auto simp: batch_steps_def)
    have "\<And>node. node \<in> nodes_of (is_records st) (is_sealed st) cand \<Longrightarrow> ok_put node"
      using c(1) assms(1) by (auto simp: batch_nodes_def)
    from inv_nodes [where rt = rt, OF this s] c assms(3) [OF c(1)] show ?thesis
      by (simp add: write_candidate_def)
  qed
  then show ?thesis
    unfolding write_node_graph
    using run_steps_inv [of "batch_steps rt st" "\<lambda>s. P (fst s)" "(G, [], [])"] assms(2) by simp
qed

end

text \<open>One that writing claims keeps too.\<close>

locale write_invariant = node_invariant +
  assumes inv_superseded: "P G \<Longrightarrow> set_claim_status i (status_value Superseded) G = Inr G' \<Longrightarrow> P G'"
begin

lemma inv_supersede: "P (fst s) \<Longrightarrow> P (fst (snd (on_graph (set_claim_status i (status_value Superseded)) s)))"
  by (rule inv_on_graph) (auto intro: inv_superseded)

lemma inv_claim: "ok_put (ClaimN c) \<Longrightarrow> f \<in> set (write_claim rt c) \<Longrightarrow> P (fst s) \<Longrightarrow> P (fst (snd (f s)))"
  by (auto simp: write_claim_def inv_put_step inv_notes inv_relate inv_supersede [simplified]
      split: option.splits if_splits)

lemma inv_step:
  assumes "\<And>node. node \<in> batch_nodes st \<Longrightarrow> ok_put node" "f \<in> set (batch_steps rt st)" "P (fst s)"
  shows "P (fst (snd (f s)))"
proof -
  obtain cand where c: "cand \<in> set (is_candidates st)"
    "f \<in> set (write_candidate rt (is_records st) (is_sealed st) cand)"
    using assms(2) by (auto simp: batch_steps_def)
  have nodes: "node \<in> nodes_of (is_records st) (is_sealed st) cand \<Longrightarrow> ok_put node" for node
    using c(1) assms(1) by (auto simp: batch_nodes_def)
  show ?thesis
  proof (cases "f \<in> set (concat (map (write_claim rt) (cand_claims cand)))")
    case True
    then obtain cl where "cl \<in> set (cand_claims cand)" "f \<in> set (write_claim rt cl)" by auto
    with nodes [of "ClaimN cl"] assms(3) show ?thesis by (simp add: nodes_of_def inv_claim)
  next
    case False
    with c(2) inv_nodes [where rt = rt, OF nodes assms(3)] show ?thesis by (simp add: write_candidate_def)
  qed
qed

text \<open>The conclusion: the write node keeps the invariant, however it ends.\<close>

lemma inv_write:
  assumes "\<And>node. node \<in> batch_nodes st \<Longrightarrow> ok_put node" "P G"
  shows "P (snd (write_node rt st G))"
  unfolding write_node_graph
  using run_steps_inv [of "batch_steps rt st" "\<lambda>s. P (fst s)" "(G, [], [])"]
    inv_step [OF assms(1)] assms(2) by simp

text \<open>A fact one step establishes and the invariant's steps keep.\<close>

lemma inv_reach:
  assumes "run_steps (batch_steps rt st) (G, [], []) = (None, s')" "f \<in> set (batch_steps rt st)"
    and "\<And>node. node \<in> batch_nodes st \<Longrightarrow> ok_put node"
    and "\<And>t t'. R (fst t) \<Longrightarrow> f t = (None, t') \<Longrightarrow> P (fst t')"
    and "\<And>g t. g \<in> set (batch_steps rt st) \<Longrightarrow> R (fst t) \<Longrightarrow> R (fst (snd (g t)))" "R G"
  shows "P (fst s')"
  by (rule run_steps_reach [of _ _ _ f "\<lambda>t. R (fst t)" "\<lambda>t. P (fst t)", OF assms(1,2)])
    (use assms(4-6) inv_step [OF assms(3)] in auto)

end

section \<open>The invariants\<close>

interpretation wf: write_invariant "\<lambda>_. True" store_ok
  by unfold_locales (auto intro: upsert_ok link_ok set_claim_status_ok)

lemma set_claim_status_keys:
  "set_claim_status i st G = Inr G' \<Longrightarrow> keys G' = keys G \<and> gedges G' = gedges G"
  by (erule set_claim_status_cases, erule mutate_claim_cases)
    (simp_all add: keys_def keys_set_payload del: map_map)

interpretation has_keys: write_invariant "\<lambda>_. True" "\<lambda>G. K \<subseteq> set (keys G)" for K
proof
  fix node emb and G :: graph assume "K \<subseteq> set (keys G)"
  then show "K \<subseteq> set (keys (upsert node emb G))" by (auto simp: keys_upsert)
next
  fix G G' i rel j assume "K \<subseteq> set (keys G)" "link i rel j G = Inr G'"
  then show "K \<subseteq> set (keys G')" by (simp add: keys_def link_facts(1))
next
  fix G G' i assume "K \<subseteq> set (keys G)" "set_claim_status i (status_value Superseded) G = Inr G'"
  then show "K \<subseteq> set (keys G')" using set_claim_status_keys by metis
qed

interpretation has_edges: write_invariant "\<lambda>_. True" "\<lambda>G. E \<subseteq> set (gedges G)" for E
proof
  fix node emb and G :: graph assume "E \<subseteq> set (gedges G)"
  then show "E \<subseteq> set (gedges (upsert node emb G))" by simp
next
  fix G G' i rel j assume "E \<subseteq> set (gedges G)" "link i rel j G = Inr G'"
  then show "E \<subseteq> set (gedges G')" using link_facts(2) by blast
next
  fix G G' i assume "E \<subseteq> set (gedges G)" "set_claim_status i (status_value Superseded) G = Inr G'"
  then show "E \<subseteq> set (gedges G')" using set_claim_status_keys by metis
qed

text \<open>A row that shows no body of a record that needs sealing.\<close>

fun shows_no_body :: "raw_record list \<Rightarrow> memory_node \<Rightarrow> string option \<Rightarrow> bool" where
  "shows_no_body records (EventN e) text \<longleftrightarrow> \<not> needs_seal records (sr_external_id (evt_source e))
     \<or> body e = None \<and> (text = None \<or> text = Some (py_strip (summary e @ '' '')))"
| "shows_no_body records (EntityN e) text \<longleftrightarrow> True"
| "shows_no_body records (ClaimN c) text \<longleftrightarrow> True"

definition rows_clear :: "raw_record list \<Rightarrow> graph \<Rightarrow> graph \<Rightarrow> bool" where
  "rows_clear records G0 G \<longleftrightarrow>
     (\<forall>n \<in> set (gnodes G). shows_no_body records (g_payload n) (Some (g_text n)) \<or> n \<in> set (gnodes G0))"

lemma shows_no_body_row: "shows_no_body records node None \<Longrightarrow> shows_no_body records node (Some (text_of node))"
  by (cases node) (auto simp: or_empty_def)

interpretation clear: write_invariant "\<lambda>node. shows_no_body records node None" "rows_clear records G0" for records G0
proof
  fix node G emb assume "shows_no_body records node None" "rows_clear records G0 G"
  then show "rows_clear records G0 (upsert node emb G)"
    using shows_no_body_row by (simp add: rows_clear_def set_gnodes_upsert)
next
  fix G G' i rel j assume "rows_clear records G0 G" "link i rel j G = Inr G'"
  then show "rows_clear records G0 G'" by (simp add: rows_clear_def link_facts(1))
next
  fix G G' i assume ok: "rows_clear records G0 G" and "set_claim_status i (status_value Superseded) G = Inr G'"
  from this(2) show "rows_clear records G0 G'"
  proof (elim set_claim_status_cases mutate_claim_cases)
    fix c c' n assume "G' = G\<lparr>gnodes := map (\<lambda>n. if is_claim_row i n then set_payload (ClaimN c') n else n) (gnodes G)\<rparr>"
    with ok show ?thesis by (auto simp: rows_clear_def)
  qed (use ok in simp)
qed

lemma stored_claim_link: "link i rel j G = Inr G' \<Longrightarrow> stored_claim G' = stored_claim G"
  by (simp add: stored_claim_def fun_eq_iff link_facts(1))

lemma stored_claim_upsert:
  assumes "store_ok G"
  shows "stored_claim (upsert node emb G) =
    (case node of ClaimN c \<Rightarrow> (stored_claim G)(clm_id c \<mapsto> c) | _ \<Rightarrow> stored_claim G)"
proof
  fix i
  note ok' = upsert_ok [OF assms, of node emb]
  have other: "label_of node \<noteq> ''Claim'' \<or> node_id node \<noteq> i \<Longrightarrow> stored_claim (upsert node emb G) i = stored_claim G i"
    by (rule option_eq_by_Some) (auto simp: stored_claim_iff [OF ok'] stored_claim_iff [OF assms] set_gnodes_upsert)
  show "stored_claim (upsert node emb G) i =
      (case node of ClaimN c \<Rightarrow> (stored_claim G)(clm_id c \<mapsto> c) | _ \<Rightarrow> stored_claim G) i"
  proof (cases node)
    case (ClaimN c)
    then have "stored_claim (upsert node emb G) (clm_id c) = Some c"
      unfolding stored_claim_iff [OF ok'] set_gnodes_upsert by auto
    with ClaimN other show ?thesis by auto
  qed (use other in auto)
qed

lemma set_superseded:
  assumes "store_ok G" "set_claim_status i (status_value Superseded) G = Inr G'"
  shows "stored_claim G' j = (if j = i then map_option (\<lambda>c. c\<lparr>status := Superseded\<rparr>) (stored_claim G i)
     else stored_claim G j)"
  using set_claim_status_effect [OF assms(1), of i Superseded] assms(2) by (auto split: option.splits)

text \<open>What a run may do to the claims it found: mark them superseded.\<close>

definition old_kept :: "graph \<Rightarrow> graph \<Rightarrow> bool" where
  "old_kept G0 G \<longleftrightarrow> store_ok G \<and> (\<forall>i d. stored_claim G0 i = Some d \<longrightarrow>
      stored_claim G i = Some d \<or> stored_claim G i = Some (d\<lparr>status := Superseded\<rparr>))"

fun fresh_claim :: "(string \<Rightarrow> bool) \<Rightarrow> memory_node \<Rightarrow> bool" where
  "fresh_claim taken (ClaimN c) \<longleftrightarrow> \<not> taken (clm_id c)"
| "fresh_claim taken (EntityN e) \<longleftrightarrow> True"
| "fresh_claim taken (EventN e) \<longleftrightarrow> True"

interpretation old: write_invariant "fresh_claim (\<lambda>i. stored_claim G0 i \<noteq> None)" "old_kept G0" for G0
proof
  fix node G emb assume "fresh_claim (\<lambda>i. stored_claim G0 i \<noteq> None) node" "old_kept G0 G"
  then show "old_kept G0 (upsert node emb G)"
    by (cases node) (auto simp: old_kept_def upsert_ok stored_claim_upsert)
next
  fix G G' i rel j assume "old_kept G0 G" "link i rel j G = Inr G'"
  then show "old_kept G0 G'" by (auto simp: old_kept_def stored_claim_link intro: link_ok)
next
  fix G G' i assume "old_kept G0 G" and st: "set_claim_status i (status_value Superseded) G = Inr G'"
  then have ok: "store_ok G" and old: "\<And>j d. stored_claim G0 j = Some d \<Longrightarrow>
      stored_claim G j = Some d \<or> stored_claim G j = Some (d\<lparr>status := Superseded\<rparr>)"
    unfolding old_kept_def by blast+
  have "stored_claim G' j = Some d \<or> stored_claim G' j = Some (d\<lparr>status := Superseded\<rparr>)"
    if "stored_claim G0 j = Some d" for j d
    using old [OF that] unfolding set_superseded [OF ok st] by auto
  then show "old_kept G0 G'" unfolding old_kept_def using set_claim_status_ok [OF ok st] by blast
qed

definition is_superseded :: "string \<Rightarrow> claim \<Rightarrow> graph \<Rightarrow> bool" where
  "is_superseded i d G \<longleftrightarrow> store_ok G \<and> stored_claim G i = Some (d\<lparr>status := Superseded\<rparr>)"

interpretation ended: write_invariant "fresh_claim (\<lambda>j. j = i)" "is_superseded i d" for i d
proof
  fix node G emb assume "fresh_claim (\<lambda>j. j = i) node" "is_superseded i d G"
  then show "is_superseded i d (upsert node emb G)"
    by (cases node) (auto simp: is_superseded_def upsert_ok stored_claim_upsert)
next
  fix G G' j rel k assume "is_superseded i d G" "link j rel k G = Inr G'"
  then show "is_superseded i d G'" by (auto simp: is_superseded_def stored_claim_link intro: link_ok)
next
  fix G G' j assume "is_superseded i d G" "set_claim_status j (status_value Superseded) G = Inr G'"
  then show "is_superseded i d G'"
    using set_claim_status_ok set_superseded by (auto simp: is_superseded_def)
qed

text \<open>Writing entities and events only leaves the claims as they are.\<close>

interpretation same_claims: node_invariant "\<lambda>node. label_of node \<noteq> ''Claim''"
  "\<lambda>G. store_ok G \<and> stored_claim G = m" for m
proof
  fix node G emb assume "label_of node \<noteq> ''Claim''" "store_ok G \<and> stored_claim G = m"
  then show "store_ok (upsert node emb G) \<and> stored_claim (upsert node emb G) = m"
    by (cases node) (auto simp: upsert_ok stored_claim_upsert)
next
  fix G G' j rel k assume "store_ok G \<and> stored_claim G = m" "link j rel k G = Inr G'"
  then show "store_ok G' \<and> stored_claim G' = m" by (auto simp: stored_claim_link intro: link_ok)
qed

end
