(* ===== verification/Ingestion_Props.thy ===== *)
theory Ingestion_Props
  imports Ingestion
begin

text \<open>
  What an ingestion run guarantees: the store stays well formed and keeps the claims it had,
  the body of a sensitive record is never stored in the clear, sealing failures and skipped
  events are reported, supersessions reach the graph, and a second run adds no claim.
\<close>

section \<open>The state the write node works on\<close>

lemma prepare_cases:
  assumes "prepare rt st G = Inr st'"
  obtains st1 cands where "fetch rt st = Inr st1" "is_records st' = is_records st1"
    "map_e (rt_extract rt (is_owner_id st1)) (is_records st1) = Inr cands"
    "is_candidates st' = is_candidates (resolve_node G (st1\<lparr>is_candidates := cands\<rparr>))"
    "st' = encrypt rt (resolve_node G (st1\<lparr>is_candidates := cands\<rparr>))"
proof -
  obtain st1 cands where *: "fetch rt st = Inr st1"
    "map_e (rt_extract rt (is_owner_id st1)) (is_records st1) = Inr cands"
    "st' = encrypt rt (resolve_node G (st1\<lparr>is_candidates := cands\<rparr>))"
    using assms by (auto simp: prepare_def extract_node_def elim!: bind_e_InrE)
  have "is_records st' = is_records st1"
    "is_candidates st' = is_candidates (resolve_node G (st1\<lparr>is_candidates := cands\<rparr>))"
    unfolding *(3) by (auto simp: encrypt_def resolve_node_def Let_def split: prod.splits)
  with * that show ?thesis by blast
qed

lemma pipeline_cases:
  assumes "run_ingestion rt owner source since session G = (res, G')"
  obtains e where "prepare rt (start_state owner source since session) G = Inl e" "G' = G" "res = Inl e"
  | st' where "prepare rt (start_state owner source since session) G = Inr st'"
      "G' = snd (write_node rt st' G)"
      "\<forall>r. res = Inr r \<longrightarrow> (\<exists>st''. write_node rt st' G = (Inr st'', G') \<and> r = summarise owner st'')"
      "\<forall>e. res = Inl e \<longrightarrow> write_node rt st' G = (Inl e, G')"
proof (cases "prepare rt (start_state owner source since session) G")
  case (Inl e)
  with assms have "G' = G" "res = Inl e" by (simp_all add: run_ingestion_def pipeline_def)
  then show ?thesis by (intro that(1) [OF Inl])
next
  case (Inr st')
  obtain w Gw where w: "write_node rt st' G = (w, Gw)" by fastforce
  have run: "run_ingestion rt owner source since session G =
      (case w of Inl e \<Rightarrow> (Inl e, Gw) | Inr st \<Rightarrow> (Inr (summarise owner st), Gw))"
    using Inr w by (cases w) (simp_all add: run_ingestion_def pipeline_def)
  show ?thesis
  proof (cases w)
    case (Inl e)
    with run assms have "res = Inl e" "G' = Gw" by simp_all
    with w Inl show ?thesis by (intro that(2) [OF Inr]) simp_all
  next
    case Inr': (Inr st'')
    with run assms have "res = Inr (summarise owner st'')" "G' = Gw" by simp_all
    with w Inr' show ?thesis by (intro that(2) [OF Inr]) simp_all
  qed
qed

lemma write_node_done:
  assumes "write_node rt st G = (Inr st'', G')"
  obtains ids errs where "run_steps (batch_steps rt st) (G, [], []) = (None, (G', ids, errs))"
    "st'' = st\<lparr>is_written := is_written st @ ids, is_errors := is_errors st @ errs\<rparr>"
  using assms that by (auto simp: write_node_def batch_steps_def split: prod.splits option.splits)

text \<open>The claims that reach the write node are the new ones.\<close>

lemma resolved_claims:
  assumes "prepare rt st G = Inr st'" "cand \<in> set (is_candidates st')" "c \<in> set (cand_claims cand)"
  shows "store_get G (clm_id c) = None"
proof -
  obtain st1 cands where pr: "fetch rt st = Inr st1"
    "is_candidates st' = is_candidates (resolve_node G (st1\<lparr>is_candidates := cands\<rparr>))"
    by (rule prepare_cases [OF assms(1)])
  obtain P rs where batch: "resolve_batch (store_get G) (claims_about G) (is_owner_id st1) cands = (P, rs)"
    by fastforce
  note ok = resolve_batch_ok(1) [OF batch]
  have "is_candidates st' = map2 (\<lambda>cand r. cand\<lparr>cand_claims := claims_at P r\<rparr>) cands rs"
    using pr(2) batch by (simp add: resolve_node_def)
  with assms(2) obtain r cand0 where r: "r \<in> set rs" "cand = cand0\<lparr>cand_claims := claims_at P r\<rparr>"
    by (auto dest: set_zip_rightD)
  then obtain i where i: "i \<in> set (new_claims r)" "c = P ! i"
    using assms(3) by (auto simp: claims_at_def)
  then have "i \<in> set (concat (map new_claims rs))" using r(1) by auto
  then have "i < length P" using ok by simp
  with i(2) have "c \<in> set P" by simp
  from stored.new_ids [OF batch this] show ?thesis .
qed

lemma stored_claim_get: "store_ok G \<Longrightarrow> stored_claim G i = Some c \<Longrightarrow> store_get G i \<noteq> None"
  by (auto simp: stored_claim_iff dest: store_get_row)

lemma batch_claims_fresh:
  assumes "store_ok G" "prepare rt st G = Inr st'" "node \<in> batch_nodes st'"
  shows "fresh_claim (\<lambda>i. stored_claim G i \<noteq> None) node"
proof (cases node)
  case (ClaimN c)
  then obtain cand where "cand \<in> set (is_candidates st')" "c \<in> set (cand_claims cand)"
    using assms(3) by (auto simp: batch_nodes_def nodes_of_def)
  from resolved_claims [OF assms(2) this] stored_claim_get [OF assms(1), of "clm_id c"]
  have "stored_claim G (clm_id c) = None" by (cases "stored_claim G (clm_id c)") auto
  with ClaimN show ?thesis by simp
qed simp_all

lemma batch_events_clear:
  assumes "node \<in> batch_nodes st"
  shows "shows_no_body (is_records st) node None"
proof (cases node)
  case (EventN e')
  then obtain e where "event_to_store (is_records st) (is_sealed st) e = Some e'"
    using assms unfolding batch_nodes_def nodes_of_def by blast
  then have "body e' = None \<or> \<not> needs_seal (is_records st) (sr_external_id (evt_source e'))"
    by (auto simp: event_to_store_def split: option.splits if_split_asm)
  with EventN show ?thesis by auto
qed simp_all

section \<open>Sealing\<close>

definition seal_entry :: "sealed_content \<Rightarrow> sealed_body" where
  "seal_entry r = \<lparr>sb_ref = sl_ref r, sb_ciphertext_b64 = b64encode (sl_ciphertext r),
     sb_attestation = sl_attestation r\<rparr>"

abbreviation seal_call :: "runtime \<Rightarrow> gateway_client \<Rightarrow> raw_record \<Rightarrow> sealed_content result" where
  "seal_call rt g r \<equiv> seal_encrypt (rt_fmt rt) (rt_http rt) g (utf8 (rec_body r))"

lemma seal_one_alt:
  "seal_one rt g (x, r) (sealed, errs) = (case seal_call rt g r of
     Inl e \<Rightarrow> (sealed, errs @ [''seal failed for '' @ x @ '': '' @ rt_show rt e])
   | Inr c \<Rightarrow> (sealed @ [(x, seal_entry c)], errs))"
  by (simp add: seal_one_def seal_entry_def split: sum.splits)

definition seal_ok :: "runtime \<Rightarrow> gateway_client \<Rightarrow> string \<times> raw_record \<Rightarrow> (string \<times> sealed_body) list" where
  "seal_ok rt g xr = (case seal_call rt g (snd xr) of Inl e \<Rightarrow> [] | Inr c \<Rightarrow> [(fst xr, seal_entry c)])"

definition seal_bad :: "runtime \<Rightarrow> gateway_client \<Rightarrow> string \<times> raw_record \<Rightarrow> string list" where
  "seal_bad rt g xr = (case seal_call rt g (snd xr) of
     Inl e \<Rightarrow> [''seal failed for '' @ fst xr @ '': '' @ rt_show rt e] | Inr c \<Rightarrow> [])"

lemma fold_seal:
  "fold (seal_one rt g) xs (sealed, errs) =
     (sealed @ concat (map (seal_ok rt g) xs), errs @ concat (map (seal_bad rt g) xs))"
proof (induction xs arbitrary: sealed errs)
  case (Cons xr xs)
  have "seal_one rt g xr (sealed, errs) = (sealed @ seal_ok rt g xr, errs @ seal_bad rt g xr)"
    by (cases xr) (simp add: seal_one_alt seal_ok_def seal_bad_def split: sum.splits)
  with Cons show ?case by simp
qed simp

lemma map_of_seal_ok:
  assumes "distinct (map fst xs)" "(x, r) \<in> set xs"
  shows "map_of (concat (map (seal_ok rt g) xs)) x = (case seal_call rt g r of
     Inl e \<Rightarrow> None | Inr c \<Rightarrow> Some (seal_entry c))"
  using assms
proof (induction xs)
  case (Cons xr xs)
  have keys: "y \<notin> fst ` set ys \<Longrightarrow> map_of (concat (map (seal_ok rt g) ys)) y = None" for y ys
    by (induction ys) (auto simp: seal_ok_def map_add_def split: sum.splits)
  show ?case
  proof (cases "xr = (x, r)")
    case True
    then have "map_of (concat (map (seal_ok rt g) xs)) x = None" using Cons.prems keys [of x xs] by simp
    moreover have "map_of (seal_ok rt g (x, r)) x = (case seal_call rt g r of
       Inl e \<Rightarrow> None | Inr c \<Rightarrow> Some (seal_entry c))" by (simp add: seal_ok_def split: sum.splits)
    ultimately show ?thesis by (simp add: True map_add_def split: sum.splits)
  next
    case False
    then have mem: "(x, r) \<in> set xs" "fst xr \<noteq> x" using Cons.prems by (force intro: rev_image_eqI)+
    then have "map_of (seal_ok rt g xr) x = None" by (auto simp: seal_ok_def split: sum.splits)
    with Cons mem show ?thesis by (simp add: map_add_def split: option.splits sum.splits)
  qed
qed simp

lemma encrypt_alt:
  "encrypt rt st = (let g = seal_client rt (is_session st); xs = sensitive_records (is_records st) in
     st\<lparr>is_sealed := concat (map (seal_ok rt g) xs), is_errors := is_errors st @ concat (map (seal_bad rt g) xs)\<rparr>)"
  by (simp add: encrypt_def fold_seal Let_def)

section \<open>Steps of the write node\<close>

definition basic_step :: "write_step \<Rightarrow> bool" where
  "basic_step f \<longleftrightarrow> (\<exists>g. f = on_graph g) \<or> (\<exists>i. f = note_written i) \<or> (\<exists>m. f = note_error m)"

lemma basic_steps [simp]:
  "basic_step (on_graph g)" "basic_step (put rt node text)" "basic_step (relate i rel j)"
  "basic_step (note_written i)" "basic_step (note_error m)"
  by (auto simp: basic_step_def put_def relate_def)

lemma batch_steps_basic: "f \<in> set (batch_steps rt st) \<Longrightarrow> basic_step f"
  by (auto simp: batch_steps_def write_candidate_def write_entity_def write_event_alt store_event_def
      write_claim_def split: option.splits if_splits)

lemma basic_step_errs: "basic_step f \<Longrightarrow> set (snd (snd s)) \<subseteq> set (snd (snd (snd (f s))))"
  by (auto simp: basic_step_def on_graph_def note_written_def note_error_def split: prod.splits sum.splits)

lemma run_steps_append:
  "run_steps (fs @ gs) s = (case run_steps fs s of (None, t) \<Rightarrow> run_steps gs t | (Some e, t) \<Rightarrow> (Some e, t))"
  by (induction fs arbitrary: s) (auto split: prod.splits option.splits)

lemma run_steps_appendE:
  assumes "run_steps (fs @ gs) s = (None, s')"
  obtains t where "run_steps fs s = (None, t)" "run_steps gs t = (None, s')"
  using assms by (auto simp: run_steps_append split: prod.splits option.splits)

lemma batch_steps_blocks:
  "batch_steps rt st = concat (concat (map (\<lambda>cand. map (write_entity rt) (cand_entities cand)
     @ map (write_event rt (is_records st) (is_sealed st)) (cand_events cand)
     @ map (write_claim rt) (cand_claims cand)) (is_candidates st)))"
proof -
  have "concat (map (\<lambda>c. concat (A c) @ concat (B c) @ concat (C c)) cs)
      = concat (concat (map (\<lambda>c. A c @ B c @ C c) cs))"
    for A B C :: "candidate \<Rightarrow> write_step list list" and cs
    by (induction cs) simp_all
  then show ?thesis by (simp add: batch_steps_def write_candidate_def [abs_def])
qed

lemma claim_steps:
  "cand \<in> set (is_candidates st) \<Longrightarrow> c \<in> set (cand_claims cand) \<Longrightarrow> f \<in> set (write_claim rt c) \<Longrightarrow>
   f \<in> set (batch_steps rt st)"
  by (auto simp: batch_steps_blocks)

lemma claim_put: "put rt (ClaimN c) (clm_statement c) \<in> set (write_claim rt c)"
  by (simp add: write_claim_def)

lemma put_done:
  assumes "put rt node text s = (None, s')"
  shows "(label_of node, node_id node) \<in> set (keys (fst s'))"
  using assms by (auto simp: put_def on_graph_def keys_upsert split: prod.splits sum.splits elim!: bind_e_InrE)

lemma write_claim_done:
  assumes "run_steps (write_claim rt c) s = (None, s')"
  shows "(''Claim'', clm_id c) \<in> set (keys (fst s'))"
    "i \<in> set (supersedes c) \<Longrightarrow> (''Claim'', i) \<in> set (keys (fst s)) \<Longrightarrow>
       ((''Claim'', clm_id c), ''SUPERSEDES'', (''Claim'', i)) \<in> set (gedges (fst s'))"
proof -
  obtain rest where shape: "write_claim rt c = put rt (ClaimN c) (clm_statement c) # rest"
    unfolding write_claim_def by simp
  then have rest: "write_claim rt c = put rt (ClaimN c) (clm_statement c) # rest" "set rest \<subseteq> set (write_claim rt c)"
    by auto
  obtain t where t: "put rt (ClaimN c) (clm_statement c) s = (None, t)" "run_steps rest t = (None, s')"
    using assms rest(1) by (auto split: prod.splits option.splits)
  have key: "(''Claim'', clm_id c) \<in> set (keys (fst t))" using put_done [OF t(1)] by simp
  have keep: "f \<in> set rest \<Longrightarrow> K \<subseteq> set (keys (fst u)) \<Longrightarrow> K \<subseteq> set (keys (fst (snd (f u))))" for f K u
    using has_keys.inv_claim [OF TrueI, of f rt c K u] rest(2) by blast
  from run_steps_inv [of rest "\<lambda>u. {(''Claim'', clm_id c)} \<subseteq> set (keys (fst u))" t] keep [of _ "{(''Claim'', clm_id c)}"] key t(2)
  show "(''Claim'', clm_id c) \<in> set (keys (fst s'))" by simp
  assume i: "i \<in> set (supersedes c)" "(''Claim'', i) \<in> set (keys (fst s))"
  let ?K = "{(''Claim'', clm_id c), (''Claim'', i)}"
  let ?e = "((''Claim'', clm_id c), ''SUPERSEDES'', (''Claim'', i))"
  have "?K \<subseteq> set (keys (fst t))"
    using key i(2) has_keys.inv_put_step [OF TrueI, of "{(''Claim'', i)}" s rt "ClaimN c" "clm_statement c"] t(1) by simp
  note start = this
  have mem: "relate (clm_id c) ''SUPERSEDES'' i \<in> set rest"
    using rest(1) i(1) by (auto simp: write_claim_def)
  have linked: "{?e} \<subseteq> set (gedges (fst u'))"
    if u: "?K \<subseteq> set (keys (fst u))" "relate (clm_id c) ''SUPERSEDES'' i u = (None, u')" for u u'
  proof -
    obtain G' where "link (clm_id c) ''SUPERSEDES'' i (fst u) = Inr G'" "fst u' = G'"
      using u(2) by (auto simp: relate_def on_graph_def split: prod.splits sum.splits)
    obtain a b where ab: "a \<in> set (gnodes (fst u))" "gkey a = (''Claim'', clm_id c)"
      "b \<in> set (gnodes (fst u))" "gkey b = (''Claim'', i)"
      using u(1) unfolding keys_def by (auto simp del: gkey_eq dest!: sym [of "(_, _)"])
    have ids: "g_id a = clm_id c" "g_id b = i" using ab(2,4) by simp_all
    have "(gkey a, ''SUPERSEDES'', gkey b) \<in> set (gedges G')"
      unfolding link_facts(2) [OF \<open>link _ _ _ _ = _\<close>]
      by (intro UnI2 CollectI exI [of _ a] exI [of _ b] conjI refl) (fact ab ids)+
    then have "?e \<in> set (gedges G')" unfolding ab(2,4) .
    with \<open>fst u' = G'\<close> show ?thesis by simp
  qed
  have kept: "f \<in> set rest \<Longrightarrow> {?e} \<subseteq> set (gedges (fst u)) \<Longrightarrow> {?e} \<subseteq> set (gedges (fst (snd (f u))))" for f u
    using has_edges.inv_claim [OF TrueI, of f rt c "{?e}" u] rest(2) by blast
  have "{?e} \<subseteq> set (gedges (fst s'))"
    by (rule run_steps_reach [OF t(2) mem, of "\<lambda>u. ?K \<subseteq> set (keys (fst u))" "\<lambda>u. {?e} \<subseteq> set (gedges (fst u))"])
      (fact linked kept keep start)+
  then show "?e \<in> set (gedges (fst s'))" by simp
qed

section \<open>A second run\<close>

lemma store_get_keys: "store_get G i \<noteq> None \<longleftrightarrow> (\<exists>l. (l, i) \<in> set (keys G))"
proof
  assume "store_get G i \<noteq> None"
  then obtain n ns where "filter (\<lambda>n. g_id n = i) (gnodes G) = n # ns"
    by (auto simp: store_get_def split: list.splits)
  then have "n \<in> set (gnodes G)" "g_id n = i" by (auto dest: filter_eq_ConsD)
  then show "\<exists>l. (l, i) \<in> set (keys G)" by (force simp: keys_def gkey_def)
next
  assume "\<exists>l. (l, i) \<in> set (keys G)"
  then obtain n where "n \<in> set (gnodes G)" "g_id n = i" by (auto simp: keys_def gkey_def)
  then show "store_get G i \<noteq> None" using store_get_row by blast
qed

lemma resolve_batch_taken:
  assumes "resolve_batch get about owner cands = (P, rs)"
    and "\<And>cand c. cand \<in> set cands \<Longrightarrow> c \<in> set (cand_claims cand) \<Longrightarrow> get (clm_id c) \<noteq> None"
  shows "P = []" "r \<in> set rs \<Longrightarrow> new_claims r = [] \<and> supersessions r = [] \<and> contradictions r = []"
proof -
  have new: "new_claims r = []" if r: "r \<in> set rs" for r
  proof -
    obtain cand where c: "cand \<in> set cands" "classified get P cand r"
      by (rule list_all2_right [OF resolve_batch_ok(2) [OF assms(1)] r])
    have "filter (is_new get) (cand_claims cand) = []"
      using assms(2) [OF c(1)] by (auto simp: filter_empty_conv)
    with c(2) show ?thesis by (simp add: classified_def claims_at_def)
  qed
  then have "concat (map new_claims rs) = []" by (simp add: concat_eq_Nil_conv)
  then have "[0 ..< length P] = []" unfolding resolve_batch_ok(1) [OF assms(1)] .
  then show P: "P = []" by simp
  have "pairs_ok about owner P r" if "r \<in> set rs"
    using resolve_batch_ok(4) [OF assms(1)] that by (simp add: list_all_iff)
  then have "r \<in> set rs \<Longrightarrow> supersessions r = [] \<and> contradictions r = []"
    unfolding P pairs_ok_def seen_def super_ok_def contra_ok_def
    by (cases "supersessions r"; cases "contradictions r") auto
  with new show "r \<in> set rs \<Longrightarrow> new_claims r = [] \<and> supersessions r = [] \<and> contradictions r = []" by blast
qed

text \<open>After a run without exception, every candidate claim's id is taken.\<close>

lemma candidates_taken:
  assumes "prepare rt st0 G = Inr st" "write_node rt st G = (Inr st'', G1)"
    and "fetch rt st0 = Inr st1" "map_e (rt_extract rt (is_owner_id st1)) (is_records st1) = Inr cands"
    and "cand \<in> set cands" "c \<in> set (cand_claims cand)"
  shows "store_get G1 (clm_id c) \<noteq> None"
proof -
  obtain ids errs where run: "run_steps (batch_steps rt st) (G, [], []) = (None, (G1, ids, errs))"
    by (rule write_node_done [OF assms(2)])
  show ?thesis
  proof (cases "store_get G (clm_id c)")
    case (Some s)
    then obtain l where "{(l, clm_id c)} \<subseteq> set (keys G)" using store_get_keys [of G "clm_id c"] by auto
    then have "{(l, clm_id c)} \<subseteq> set (keys G1)"
      using has_keys.inv_write [OF TrueI, of "{(l, clm_id c)}" G rt st] assms(2) by simp
    then show ?thesis using store_get_keys by blast
  next
    case None
    obtain P rs where batch: "resolve_batch (store_get G) (claims_about G) (is_owner_id st1) cands = (P, rs)"
      by fastforce
    have cands': "is_candidates st = map2 (\<lambda>cand r. cand\<lparr>cand_claims := claims_at P r\<rparr>) cands rs"
      by (rule prepare_cases [OF assms(1)]) (use assms(3,4) batch in \<open>simp add: resolve_node_def\<close>)
    note cl = resolve_batch_ok(2) [OF batch]
    obtain k where k: "k < length cands" "cands ! k = cand" using assms(5) by (auto simp: in_set_conv_nth)
    have len: "length rs = length cands" using cl by (simp add: list_all2_lengthD)
    have "classified (store_get G) P cand (rs ! k)" using cl k by (auto simp: list_all2_conv_all_nth)
    then have same: "map strip (claims_at P (rs ! k)) = map strip (filter (is_new (store_get G)) (cand_claims cand))"
      by (simp add: classified_def)
    have "strip c \<in> strip ` set (filter (is_new (store_get G)) (cand_claims cand))"
      using assms(6) None by simp
    then have "strip c \<in> set (map strip (claims_at P (rs ! k)))" unfolding same set_map .
    then obtain c' where c': "c' \<in> set (claims_at P (rs ! k))" "strip c' = strip c" by auto
    have "is_candidates st ! k = cand\<lparr>cand_claims := claims_at P (rs ! k)\<rparr>"
      using k len by (simp add: cands')
    moreover have "k < length (is_candidates st)" using k len by (simp add: cands')
    ultimately have "cand\<lparr>cand_claims := claims_at P (rs ! k)\<rparr> \<in> set (is_candidates st)" by (metis nth_mem)
    then have "put rt (ClaimN c') (clm_statement c') \<in> set (batch_steps rt st)"
      by (rule claim_steps [OF _ _ claim_put]) (simp add: c'(1))
    from has_keys.inv_reach [where R = "\<lambda>_. True" and K = "{(''Claim'', clm_id c')}", OF run this]
    have "(''Claim'', clm_id c') \<in> set (keys G1)" using put_done [of rt "ClaimN c'"] by auto
    then show ?thesis using strip_same(1) [OF c'(2)] store_get_keys by metis
  qed
qed

section \<open>A run that ends without exception\<close>

text \<open>With an embedder that always returns, no step of the write node raises on a well-formed store:
  the relationship names are identifiers, and the only status set is a valid one.\<close>

lemma run_steps_total:
  assumes "\<And>f s. f \<in> set fs \<Longrightarrow> P s \<Longrightarrow> fst (f s) = None \<and> P (snd (f s))" and "P s"
  shows "\<exists>s'. run_steps fs s = (None, s')"
  using assms
proof (induction fs arbitrary: s)
  case (Cons f fs)
  obtain s1 where s1: "f s = (None, s1)" "P s1"
    using Cons.prems(1) [of f s] Cons.prems(2) by (cases "f s") auto
  have "\<exists>s'. run_steps fs s1 = (None, s')"
    by (rule Cons.IH) (use Cons.prems(1) s1(2) in auto)
  with s1(1) show ?case by simp
next
  case Nil
  show ?case by (intro exI) (rule run_steps.simps)
qed

definition total_step :: "write_step \<Rightarrow> bool" where
  "total_step f \<longleftrightarrow> (\<forall>s. store_ok (fst s) \<longrightarrow> fst (f s) = None)"

lemma total_notes [simp]: "total_step (note_written i)" "total_step (note_error m)"
  by (auto simp: total_step_def note_written_def note_error_def split: prod.splits)

lemma total_relate: "is_identifier rel \<Longrightarrow> total_step (relate i rel j)"
  unfolding total_step_def
proof (intro allI impI)
  fix s :: write_state
  assume "is_identifier rel"
  then obtain G' where "link i rel j (fst s) = Inr G'" using link_Inr by blast
  then show "fst (relate i rel j s) = None" by (cases s) (simp add: relate_def on_graph_def)
qed

lemma total_supersede: "total_step (on_graph (set_claim_status i (status_value Superseded)))"
  unfolding total_step_def
proof (intro allI impI)
  fix s :: write_state
  assume "store_ok (fst s)"
  from set_claim_status_total [OF this, of i Superseded]
  obtain G' where "set_claim_status i (status_value Superseded) (fst s) = Inr G'" by blast
  then show "fst (on_graph (set_claim_status i (status_value Superseded)) s) = None"
    by (cases s) (simp add: on_graph_def)
qed

lemma total_put: "rt_embed rt text = Inr v \<Longrightarrow> total_step (put rt node text)"
  by (auto simp: total_step_def put_def on_graph_def split: prod.splits)

lemma rel_names: "list_all is_identifier [''MENTIONS'', ''CITES'', ''ABOUT'', ''OWED_BY'', ''OWED_TO'',
    ''SUPERSEDES'', ''CONTRADICTS'']"
  by code_simp

lemma batch_steps_total:
  assumes "\<And>text. \<exists>v. rt_embed rt text = Inr v" "f \<in> set (batch_steps rt st)"
  shows "total_step f"
proof -
  have put: "total_step (put rt node t)" for node t
    using assms(1) [of t] total_put by blast
  note rels = rel_names [simplified]
  show ?thesis
    using assms(2)
    by (auto simp: batch_steps_def write_candidate_def write_entity_def write_event_alt store_event_def
        write_claim_def put rels total_relate total_supersede [simplified] split: option.splits if_splits)
qed

lemma write_node_total:
  assumes "\<And>text. \<exists>v. rt_embed rt text = Inr v" "store_ok G"
  shows "\<exists>st'' G'. write_node rt st G = (Inr st'', G')"
proof -
  have "fst (f s) = None \<and> store_ok (fst (snd (f s)))"
    if "f \<in> set (batch_steps rt st)" "store_ok (fst s)" for f s
    using batch_steps_total [OF assms(1) that(1), unfolded total_step_def] wf.inv_step [OF TrueI that] that(2)
    by blast
  from run_steps_total [of "batch_steps rt st" "\<lambda>s. store_ok (fst s)" "(G, [], [])"] this assms(2)
  obtain s' where "run_steps (batch_steps rt st) (G, [], []) = (None, s')" by auto
  then show ?thesis by (simp add: write_node_def batch_steps_def split: prod.splits)
qed

lemma fetch_owner: "fetch rt (start_state owner source since session) = Inr st1 \<Longrightarrow> is_owner_id st1 = owner"
  by (auto simp: fetch_def start_state_def split: if_splits elim!: bind_e_InrE)

lemma run_returns:
  assumes "\<And>text. \<exists>v. rt_embed rt text = Inr v" "store_ok G"
    and "fetch rt (start_state owner source since session) = Inr st1"
    and "map_e (rt_extract rt owner) (is_records st1) = Inr cands"
  shows "\<exists>res G'. run_ingestion rt owner source since session G = (Inr res, G')
     \<and> ir_records res = length (is_records st1)
     \<and> (\<forall>cand \<in> set cands. \<forall>c \<in> set (cand_claims cand). store_get G' (clm_id c) \<noteq> None)"
proof -
  note f = assms(3) assms(4) [folded fetch_owner [OF assms(3)]]
  let ?st = "encrypt rt (resolve_node G (st1\<lparr>is_candidates := cands\<rparr>))"
  have prep: "prepare rt (start_state owner source since session) G = Inr ?st"
    by (simp add: prepare_def extract_node_def f)
  obtain st'' G' where w: "write_node rt ?st G = (Inr st'', G')"
    using write_node_total [OF assms(1,2)] by blast
  obtain ids errs where st'': "st'' = ?st\<lparr>is_written := is_written ?st @ ids, is_errors := is_errors ?st @ errs\<rparr>"
    by (rule write_node_done [OF w])
  have "run_ingestion rt owner source since session G = (Inr (summarise owner st''), G')"
    by (simp add: run_ingestion_def pipeline_def prep w)
  moreover have "ir_records (summarise owner st'') = length (is_records st1)"
    by (simp add: summarise_def st'' encrypt_alt resolve_node_def Let_def split: prod.splits)
  ultimately show ?thesis using candidates_taken [OF prep w f] by blast
qed

section \<open>Properties\<close>

lemma ingestion_old_kept:
  assumes "store_ok G" "run_ingestion rt owner source since session G = (res, G')"
  shows "old_kept G G'"
proof -
  have start: "old_kept G G" using assms(1) by (simp add: old_kept_def)
  show ?thesis
  proof (rule pipeline_cases [OF assms(2)])
    fix st' assume pr: "prepare rt (start_state owner source since session) G = Inr st'"
      and G': "G' = snd (write_node rt st' G)"
    show ?thesis unfolding G'
      by (rule old.inv_write [OF _ start]) (rule batch_claims_fresh [OF assms(1) pr])
  qed (use start in simp)
qed

lemma ingestion_keeps_store:
  "store_ok G \<Longrightarrow> run_ingestion rt owner source since session G = (res, G') \<Longrightarrow> store_ok G'"
  using ingestion_old_kept by (simp add: old_kept_def)

text \<open>However a run ends, the store is as well formed after it as before, and every claim
  it held is still there, unchanged but for a status moved to superseded: nothing is ever
  overwritten or dropped.\<close>

theorem ingestion_keeps_claims:
  assumes "store_ok G" "run_ingestion rt owner source since session G = (res, G')"
    and "stored_claim G i = Some d"
  shows "store_ok G' \<and> (stored_claim G' i = Some d \<or> stored_claim G' i = Some (d\<lparr>status := Superseded\<rparr>))"
  using ingestion_old_kept [OF assms(1,2)] assms(3) by (simp add: old_kept_def)



text \<open>An event whose sensitive body was not sealed is skipped and reported, and the claims
  of its record are stored all the same.\<close>

theorem skipped_event_reported:
  assumes "run_ingestion rt owner source since session G = (Inr res, G')"
    and "prepare rt (start_state owner source since session) G = Inr st"
    and "cand \<in> set (is_candidates st)" "e \<in> set (cand_events cand)"
    and "needs_seal (is_records st) (sr_external_id (evt_source e))"
    and "map_of (is_sealed st) (sr_external_id (evt_source e)) = None"
  shows "''skipped '' @ evt_id e @ '': sensitive body was not sealed'' \<in> set (ir_errors res)
     \<and> {(''Claim'', clm_id c) | c. c \<in> set (cand_claims cand)} \<subseteq> set (keys G')"
proof -
  obtain st'' where w: "write_node rt st G = (Inr st'', G')" and res: "res = summarise owner st''"
    by (rule pipeline_cases [OF assms(1)]) (use assms(2) in auto)
  obtain ids errs where run: "run_steps (batch_steps rt st) (G, [], []) = (None, (G', ids, errs))"
    and st'': "st'' = st\<lparr>is_written := is_written st @ ids, is_errors := is_errors st @ errs\<rparr>"
    by (rule write_node_done [OF w])
  let ?m = "''skipped '' @ evt_id e @ '': sensitive body was not sealed''"
  have "write_event rt (is_records st) (is_sealed st) e = [note_error ?m]"
    using assms(5,6) by (simp add: write_event_def)
  then have "note_error ?m \<in> set (batch_steps rt st)"
    using assms(3,4) unfolding batch_steps_def write_candidate_def by fastforce
  from run_steps_reach [OF run this, of "\<lambda>t. True" "\<lambda>t. ?m \<in> set (snd (snd t))"]
  have "?m \<in> set errs"
    using basic_step_errs [OF batch_steps_basic] by (force simp: note_error_def split: prod.splits)
  moreover have "(''Claim'', clm_id c) \<in> set (keys G')" if c: "c \<in> set (cand_claims cand)" for c
  proof -
    have "put rt (ClaimN c) (clm_statement c) \<in> set (batch_steps rt st)"
      by (rule claim_steps [OF assms(3) c claim_put])
    from has_keys.inv_reach [where R = "\<lambda>_. True" and K = "{(''Claim'', clm_id c)}", OF run this]
    show ?thesis using put_done [of rt "ClaimN c"] by auto
  qed
  ultimately show ?thesis by (auto simp: res st'' summarise_def)
qed

lemma batch_split:
  assumes "cand \<in> set (is_candidates st)" "c \<in> set (cand_claims cand)"
  obtains pre post where "batch_steps rt st = pre @ write_claim rt c @ post"
proof -
  have "write_claim rt c \<in> set (concat (map (\<lambda>cand. map (write_entity rt) (cand_entities cand)
      @ map (write_event rt (is_records st) (is_sealed st)) (cand_events cand)
      @ map (write_claim rt) (cand_claims cand)) (is_candidates st)))" (is "_ \<in> set ?fss")
    using assms by auto
  then obtain xs ys where "?fss = xs @ write_claim rt c # ys" by (meson split_list)
  then show thesis using that [of "concat xs" "concat ys"] unfolding batch_steps_blocks by simp
qed

text \<open>The step of the write node that supersedes a claim, on a graph that kept the old claims.\<close>

lemma supersede_step:
  assumes "old_kept G (fst t)" "stored_claim G i = Some d"
    and "on_graph (set_claim_status i (status_value Superseded)) t = (None, t')"
  shows "is_superseded i d (fst t')"
proof -
  obtain G1 where G1: "set_claim_status i (status_value Superseded) (fst t) = Inr G1" "fst t' = G1"
    using assms(3) by (auto simp: on_graph_def split: prod.splits sum.splits)
  have ok: "store_ok (fst t)"
    and "stored_claim (fst t) i = Some d \<or> stored_claim (fst t) i = Some (d\<lparr>status := Superseded\<rparr>)"
    using assms(1,2) unfolding old_kept_def by blast+
  then have "stored_claim G1 i = Some (d\<lparr>status := Superseded\<rparr>)"
    unfolding set_superseded [OF ok G1(1)] by auto
  with set_claim_status_ok [OF ok G1(1)] G1(2) show ?thesis by (simp add: is_superseded_def)
qed

lemma supersede_status:
  assumes "store_ok G" "prepare rt st0 G = Inr st" "run_steps (batch_steps rt st) (G, [], []) = (None, t)"
    and "cand \<in> set (is_candidates st)" "c \<in> set (cand_claims cand)"
    and "i \<in> set (supersedes c)" "stored_claim G i = Some d"
  shows "is_superseded i d (fst t)"
proof -
  let ?f = "on_graph (set_claim_status i (status_value Superseded))"
  have f: "?f \<in> set (batch_steps rt st)"
    by (rule claim_steps [OF assms(4,5)]) (use assms(6) in \<open>auto simp: write_claim_def\<close>)
  have fresh: "fresh_claim (\<lambda>i. stored_claim G i \<noteq> None) node" if "node \<in> batch_nodes st" for node
    by (rule batch_claims_fresh [OF assms(1,2) that])
  show ?thesis
  proof (rule ended.inv_reach [OF assms(3) f])
    fix node assume "node \<in> batch_nodes st"
    with fresh assms(7) show "fresh_claim (\<lambda>j. j = i) node" by (cases node) fastforce+
  next
    fix t t' assume "old_kept G (fst t)" "?f t = (None, t')"
    then show "is_superseded i d (fst t')" by (rule supersede_step [OF _ assms(7)])
  next
    fix g and t :: write_state assume "g \<in> set (batch_steps rt st)" "old_kept G (fst t)"
    then show "old_kept G (fst (snd (g t)))" using old.inv_step [OF fresh] by blast
  next
    show "old_kept G G" using assms(1) by (simp add: old_kept_def)
  qed
qed

lemma supersede_edge:
  assumes "store_ok G" "run_steps (batch_steps rt st) (G, [], []) = (None, v)"
    and "cand \<in> set (is_candidates st)" "c \<in> set (cand_claims cand)"
    and "i \<in> set (supersedes c)" "stored_claim G i = Some d"
  shows "((''Claim'', clm_id c), ''SUPERSEDES'', (''Claim'', i)) \<in> set (gedges (fst v))"
proof -
  let ?e = "((''Claim'', clm_id c), ''SUPERSEDES'', (''Claim'', i))"
  have key: "{(''Claim'', i)} \<subseteq> set (keys G)"
    using assms(1,6) unfolding stored_claim_iff [OF assms(1)] keys_def by (force simp: gkey_def)
  obtain pre post where split: "batch_steps rt st = pre @ write_claim rt c @ post"
    by (rule batch_split [OF assms(3,4)])
  from assms(2) obtain t u where t: "run_steps pre (G, [], []) = (None, t)"
    "run_steps (write_claim rt c) t = (None, u)" "run_steps post u = (None, v)"
    unfolding split by (metis run_steps_appendE)
  have "{(''Claim'', i)} \<subseteq> set (keys (fst t))"
    using run_steps_inv [of pre "\<lambda>s. {(''Claim'', i)} \<subseteq> set (keys (fst s))" "(G, [], [])"] key t(1)
      has_keys.inv_step [OF TrueI, of _ rt st "{(''Claim'', i)}"] split by simp
  with write_claim_done(2) [OF t(2) assms(5)] have "{?e} \<subseteq> set (gedges (fst u))" by simp
  then have "{?e} \<subseteq> set (gedges (fst v))"
    using run_steps_inv [of post "\<lambda>s. {?e} \<subseteq> set (gedges (fst s))" u] t(3)
      has_edges.inv_step [OF TrueI, of _ rt st "{?e}"] split by simp
  then show ?thesis by simp
qed


text \<open>A second run, on another runtime and at another time, whose candidates carry the claim ids
  of the first.\<close>

definition claim_ids :: "candidate list \<Rightarrow> string set" where
  "claim_ids cands = (\<Union>cand \<in> set cands. clm_id ` set (cand_claims cand))"

lemma rerun_adds_no_claim:
  assumes "store_ok G" "run_ingestion rt owner source since session G = (Inr res1, G1)"
    and "run_ingestion rt' owner source since session' G1 = (res2, G2)"
    and f: "fetch rt (start_state owner source since session) = Inr st1"
      "map_e (rt_extract rt owner) (is_records st1) = Inr cands"
    and f': "fetch rt' (start_state owner source since session') = Inr st1'"
      "map_e (rt_extract rt' owner) (is_records st1') = Inr cands'"
    and ids: "claim_ids cands' \<subseteq> claim_ids cands"
  shows "stored_claim G2 = stored_claim G1 \<and>
    (\<forall>r. res2 = Inr r \<longrightarrow> ir_claims r = 0 \<and> ir_supersessions r = [] \<and> ir_contradictions r = [])"
proof -
  let ?st0 = "start_state owner source since session"
  have ok1: "store_ok G1" using ingestion_keeps_store [OF assms(1,2)] .
  obtain st st'' where st: "prepare rt ?st0 G = Inr st" "write_node rt st G = (Inr st'', G1)"
    by (rule pipeline_cases [OF assms(2)]) auto
  note f1 = f(1) f(2) [folded fetch_owner [OF f(1)]]
  note f2 = f'(1) f'(2) [folded fetch_owner [OF f'(1)]]
  let ?st = "encrypt rt' (resolve_node G1 (st1'\<lparr>is_candidates := cands'\<rparr>))"
  have prep: "prepare rt' (start_state owner source since session') G1 = Inr ?st"
    by (simp add: prepare_def extract_node_def f2)
  obtain P rs where batch: "resolve_batch (store_get G1) (claims_about G1) (is_owner_id st1') cands' = (P, rs)"
    by fastforce
  have known: "store_get G1 (clm_id c) \<noteq> None" if "cand \<in> set cands'" "c \<in> set (cand_claims cand)" for cand c
  proof -
    have "clm_id c \<in> claim_ids cands'" unfolding claim_ids_def by (rule UN_I, rule that(1), rule imageI, rule that(2))
    then have "clm_id c \<in> claim_ids cands" using ids by (rule rev_subsetD)
    then obtain cand0 c0 where "cand0 \<in> set cands" "c0 \<in> set (cand_claims cand0)" "clm_id c = clm_id c0"
      unfolding claim_ids_def by (elim UN_E imageE)
    with candidates_taken [OF st f1, of cand0 c0] show ?thesis by simp
  qed
  note taken = resolve_batch_taken [OF batch known]
  have fields: "is_candidates ?st = map2 (\<lambda>cand r. cand\<lparr>cand_claims := claims_at P r\<rparr>) cands' rs"
    "is_supersessions ?st = concat (map supersessions rs)" "is_contradictions ?st = concat (map contradictions rs)"
    by (simp_all add: encrypt_alt resolve_node_def batch Let_def)
  have none: "cand_claims cand = []" if "cand \<in> set (is_candidates ?st)" for cand
    using that taken(2) by (auto simp: fields claims_at_def dest!: set_zip_rightD)
  have G2: "G2 = snd (write_node rt' ?st G1)"
    "\<forall>r. res2 = Inr r \<longrightarrow> (\<exists>st''. write_node rt' ?st G1 = (Inr st'', G2) \<and> r = summarise owner st'')"
    by (rule pipeline_cases [OF assms(3)]; use prep in auto)+
  have "label_of node \<noteq> ''Claim''" if "node \<in> batch_nodes ?st" for node
    using that none by (auto simp: batch_nodes_def nodes_of_def)
  from same_claims.inv_without_claims [where m = "stored_claim G1" and G = G1 and rt = rt', OF this _ none] ok1
  have "stored_claim G2 = stored_claim G1" by (simp add: G2(1))
  moreover have "ir_claims r = 0 \<and> ir_supersessions r = [] \<and> ir_contradictions r = []" if r: "res2 = Inr r" for r
  proof -
    obtain w where w: "write_node rt' ?st G1 = (Inr w, G2)" "r = summarise owner w" using G2(2) r by blast
    obtain ids errs where "w = ?st\<lparr>is_written := is_written ?st @ ids, is_errors := is_errors ?st @ errs\<rparr>"
      by (rule write_node_done [OF w(1)])
    moreover have "concat (map supersessions rs) = []" "concat (map contradictions rs) = []"
      using taken(2) by auto
    ultimately show ?thesis using none by (simp add: w(2) summarise_def fields)
  qed
  ultimately show ?thesis by blast
qed

lemma run_extracted:
  assumes "run_ingestion rt owner source since session G = (Inr res, G')"
  obtains st1 cands where "fetch rt (start_state owner source since session) = Inr st1"
    "map_e (rt_extract rt owner) (is_records st1) = Inr cands"
proof -
  obtain st where st: "prepare rt (start_state owner source since session) G = Inr st"
    by (rule pipeline_cases [OF assms]) auto
  obtain st1 cands where "fetch rt (start_state owner source since session) = Inr st1"
    "map_e (rt_extract rt (is_owner_id st1)) (is_records st1) = Inr cands"
    by (rule prepare_cases [OF st])
  with that show ?thesis using fetch_owner by metis
qed

text \<open>Ingesting again is idempotent on claims. When a run ended without exception, the same
  run on the graph it left resolves every claim as a duplicate: no new claim, supersession or
  contradiction is reported, and the claims of the store stay exactly as they were, even if
  the second run fails half-way.\<close>

theorem reingest_adds_no_claim:
  assumes "store_ok G" "run_ingestion rt owner source since session G = (Inr res1, G1)"
    and "run_ingestion rt owner source since session G1 = (res2, G2)"
  shows "stored_claim G2 = stored_claim G1 \<and>
    (\<forall>r. res2 = Inr r \<longrightarrow> ir_claims r = 0 \<and> ir_supersessions r = [] \<and> ir_contradictions r = [])"
proof -
  obtain st1 cands where f: "fetch rt (start_state owner source since session) = Inr st1"
    "map_e (rt_extract rt owner) (is_records st1) = Inr cands"
    by (rule run_extracted [OF assms(2)])
  show ?thesis by (rule rerun_adds_no_claim [OF assms f f subset_refl])
qed

section \<open>Concrete runs\<close>

text \<open>A store with one claim, and a source with one sensitive record whose claim supersedes it;
  the gateway seals in one run and is down in the other.\<close>

definition stored_sample :: claim where
  "stored_sample = sample_claim\<lparr>clm_id := ''clm_7'', clm_statement := ''k l m x'', asserted_at_ms := 3,
     clm_commitment := None\<rparr>"

definition incoming_sample :: claim where
  "incoming_sample = sample_claim\<lparr>clm_id := ''clm_8'', clm_statement := ''k l m y'', asserted_at_ms := 9,
     clm_commitment := None\<rparr>"

definition secret_record :: raw_record where
  "secret_record = \<lparr>rec_external_id = ''r1'', rec_connector = ''mock'', rec_occurred_at_ms = 9,
     rec_title = ''t'', rec_body = ''pin'', rec_url = None, rec_sensitive = True,
     rec_participants = [], rec_metadata = []\<rparr>"

definition secret_event :: event where
  "secret_event = \<lparr>evt_id = ''evt_1'', evt_owner_id = ''o'', summary = ''t'', body = Some ''pin'',
     entity_ids = [''ent_1''],
     evt_source = \<lparr>sr_connector = ''mock'', sr_external_id = ''r1'', sr_url = None,
        sr_occurred_at_ms = 9, sr_ingested_at_ms = 10\<rparr>,
     encrypted_content = None, evt_provenance = sample_provenance, evt_acl = sample_acl\<rparr>"

definition sample_entity :: entity where
  "sample_entity = \<lparr>ent_id = ''ent_1'', ent_owner_id = ''o'', ent_kind = Project, ent_name = ''Atlas'',
     ent_aliases = [], first_seen_at_ms = 1, last_seen_at_ms = 2, ent_provenance = sample_provenance,
     ent_acl = sample_acl\<rparr>"

definition sample_runtime :: "http \<Rightarrow> runtime" where
  "sample_runtime http = \<lparr>rt_settings = default_settings, rt_embed = (\<lambda>t. Inr []),
     rt_extract = (\<lambda>owner r. Inr \<lparr>cand_entities = [], cand_events = [secret_event],
                                     cand_claims = [incoming_sample]\<rparr>),
     rt_gateway = new_client ''g'',
     rt_registry = [(''mock'', mock_spec\<lparr>mock_factory := None,
        factory := (\<lambda>s. Inr \<lparr>conn_name = ''mock'', conn_fetch = (\<lambda>owner since. Inr [secret_record])\<rparr>)\<rparr>)],
     rt_http = http, rt_fmt = (\<lambda>j. []), rt_show = (\<lambda>e. ''down''), rt_validate_scope = (\<lambda>j. Inr sample_scope)\<rparr>"

definition sample_store :: graph where
  "sample_store = \<lparr>gnodes = [row_of (EntityN sample_entity) [], row_of (ClaimN stored_sample) []],
     gedges = [((''Claim'', ''clm_7''), ''ABOUT'', (''Entity'', ''ent_1''))]\<rparr>"

definition down_server :: http where
  "down_server path body_opt headers = Inl (GatewayError ''down'')"

abbreviation sample_run :: "http \<Rightarrow> ingestion_result result \<times> graph" where
  "sample_run http \<equiv> run_ingestion (sample_runtime http) ''o'' ''mock'' 0 (Some ''s'') sample_store"

lemma sample_store_ok: "store_ok sample_store"
  by (simp add: store_ok_def sample_store_def keys_def sample_entity_def stored_sample_def sample_claim_def)

lemma sample_store_claim: "stored_claim sample_store ''clm_7'' = Some stored_sample"
  by (simp add: stored_claim_def sample_store_def is_claim_row_def stored_sample_def)

lemma sample_fetch:
  "fetch (sample_runtime http) (start_state ''o'' ''mock'' 0 (Some ''s'')) =
     Inr ((start_state ''o'' ''mock'' 0 (Some ''s''))\<lparr>is_records := [secret_record]\<rparr>)"
  by (simp add: fetch_def sample_runtime_def start_state_def source_enabled_def default_settings_def
      reg_connector_def reg_spec_def)

text \<open>What the two runs end with, evaluated: success, the errors, the sources of the events.\<close>

lemma sealed_run_value:
  "(case sample_run sample_seal_server of (r, G) \<Rightarrow>
     (case r of Inl e \<Rightarrow> None | Inr x \<Rightarrow> Some (ir_errors x),
      map (\<lambda>n. case g_payload n of EventN e \<Rightarrow> sr_external_id (evt_source e) | _ \<Rightarrow> ''-'') (gnodes G))) =
   (Some [], [''-'', ''-'', ''r1'', ''-''])"
  by code_simp

lemma down_run_value:
  "(case sample_run down_server of (r, G) \<Rightarrow> (case r of Inl e \<Rightarrow> None | Inr x \<Rightarrow> Some (length (ir_errors x)))) = Some 2"
  by code_simp

lemma sample_resolved:
  "resolve_batch (store_get sample_store) (claims_about sample_store) ''o''
     [\<lparr>cand_entities = [], cand_events = [secret_event], cand_claims = [incoming_sample]\<rparr>] =
   ([incoming_sample\<lparr>supersedes := [''clm_7'']\<rparr>],
    [empty_resolution\<lparr>new_claims := [0], supersessions := [(''clm_8'', ''clm_7'')]\<rparr>])"
  by code_simp

lemma sample_prepared:
  "\<exists>st. prepare (sample_runtime http) (start_state ''o'' ''mock'' 0 (Some ''s'')) sample_store = Inr st
     \<and> is_records st = [secret_record]
     \<and> is_candidates st = [\<lparr>cand_entities = [], cand_events = [secret_event],
          cand_claims = [incoming_sample\<lparr>supersedes := [''clm_7'']\<rparr>]\<rparr>]
     \<and> is_sealed st = seal_ok (sample_runtime http) (adopt_session ''s'' (new_client ''g'')) (''r1'', secret_record)"
proof -
  have "sensitive_records [secret_record] = [(''r1'', secret_record)]"
    by (simp add: sensitive_records_def dict_of_def secret_record_def)
  note sens = this
  let ?rt = "sample_runtime http" and ?cand = "\<lparr>cand_entities = [], cand_events = [secret_event], cand_claims = [incoming_sample]\<rparr>"
  let ?st1 = "(start_state ''o'' ''mock'' 0 (Some ''s''))\<lparr>is_records := [secret_record]\<rparr>"
  have "extract_node ?rt ?st1 = Inr (?st1\<lparr>is_candidates := [?cand]\<rparr>)"
    by (simp add: extract_node_def sample_runtime_def)
  then have prep: "prepare ?rt (start_state ''o'' ''mock'' 0 (Some ''s'')) sample_store =
      Inr (encrypt ?rt (resolve_node sample_store (?st1\<lparr>is_candidates := [?cand]\<rparr>)))"
    by (simp add: prepare_def sample_fetch)
  have client: "seal_client ?rt (Some ''s'') = adopt_session ''s'' (new_client ''g'')"
    by (simp add: seal_client_def sample_runtime_def)
  show ?thesis
    unfolding prep
    by (intro exI conjI, rule refl)
      (simp_all add: encrypt_alt resolve_node_def start_state_def sample_resolved claims_at_def
        empty_resolution_def client sens Let_def)
qed

theorem ingestion_keeps_claims_witness:
  "stored_claim (snd (sample_run down_server)) ''clm_7'' = Some stored_sample \<or>
   stored_claim (snd (sample_run down_server)) ''clm_7'' = Some (stored_sample\<lparr>status := Superseded\<rparr>)"
proof -
  obtain res G' where run: "sample_run down_server = (res, G')" by fastforce
  from ingestion_keeps_claims [OF sample_store_ok run sample_store_claim] show ?thesis by (simp add: run)
qed



theorem skipped_event_reported_witness:
  "\<exists>res G'. sample_run down_server = (Inr res, G') \<and>
     ''skipped evt_1: sensitive body was not sealed'' \<in> set (ir_errors res) \<and> (''Claim'', ''clm_8'') \<in> set (keys G')"
proof -
  obtain r G' where run: "sample_run down_server = (r, G')" by fastforce
  obtain res where res: "r = Inr res" using down_run_value by (cases r) (auto simp: run)
  obtain st where st: "prepare (sample_runtime down_server) (start_state ''o'' ''mock'' 0 (Some ''s'')) sample_store = Inr st"
    "is_records st = [secret_record]" "is_candidates st = [\<lparr>cand_entities = [], cand_events = [secret_event],
          cand_claims = [incoming_sample\<lparr>supersedes := [''clm_7'']\<rparr>]\<rparr>]"
    "is_sealed st = seal_ok (sample_runtime down_server) (adopt_session ''s'' (new_client ''g'')) (''r1'', secret_record)"
    using sample_prepared by blast
  have "is_sealed st = []"
    by (simp add: st(4) seal_ok_def seal_encrypt_def http_post_def owner_session_def adopt_session_def
        sample_runtime_def down_server_def)
  with skipped_event_reported [OF run [unfolded res] st(1), of _ secret_event] st(2,3)
  have "''skipped '' @ evt_id secret_event @ '': sensitive body was not sealed'' \<in> set (ir_errors res)"
    "(''Claim'', clm_id incoming_sample) \<in> set (keys G')"
    by (auto simp: needs_seal_def secret_event_def secret_record_def)
  then show ?thesis using run res by (simp add: secret_event_def incoming_sample_def)
qed


theorem reingest_adds_no_claim_witness:
  "stored_claim (snd (run_ingestion (sample_runtime sample_seal_server) ''o'' ''mock'' 0 (Some ''s'')
       (snd (sample_run sample_seal_server)))) = stored_claim (snd (sample_run sample_seal_server))"
proof -
  obtain r G1 where run: "sample_run sample_seal_server = (r, G1)" by fastforce
  obtain res where res: "r = Inr res" using sealed_run_value by (cases r) (auto simp: run)
  obtain r2 G2 where run2: "run_ingestion (sample_runtime sample_seal_server) ''o'' ''mock'' 0 (Some ''s'') G1 = (r2, G2)"
    by fastforce
  from reingest_adds_no_claim [OF sample_store_ok run [unfolded res] run2] show ?thesis
    by (simp add: run run2)
qed

end
