(* ===== verification/Ranking.thy ===== *)
theory Ranking
  imports Store_Paths
begin

text \<open>
  \<open>retrieval/ranking.py\<close> and the ranking part of \<open>retrieval/index.py\<close>. Scores are real
  numbers: the rounding of the float operations is not modelled. \<open>1.0 / float(hops)\<close> raises
  for zero hops, and the proofs show that the hop counts of the store are never zero.
  \<open>list.sort(reverse=True)\<close> is stable, so it is \<open>sort_key\<close> on the negated score.
\<close>

section \<open>Scores\<close>

definition semantic_weight :: real where
  "semantic_weight = 6 / 10"

definition recency_weight :: real where
  "recency_weight = 15 / 100"

definition proximity_weight :: real where
  "proximity_weight = 25 / 100"

definition recency_half_life_ms :: int where
  "recency_half_life_ms = 30 * 86400000"

record ranked_node =
  rk_node :: stored_node
  rk_score :: real
  rk_semantic :: real
  rk_recency :: real
  rk_proximity :: real

definition recency_score :: "int \<Rightarrow> int \<Rightarrow> real" where
  "recency_score occurred_at_ms now_ms =
     exp (- real_of_int (max (now_ms - occurred_at_ms) 0) / real_of_int recency_half_life_ms)"

definition proximity_score :: "nat option \<Rightarrow> real result" where
  "proximity_score hops = (case hops of
      None \<Rightarrow> Inr 0
    | Some h \<Rightarrow> if h = 0 then Inl ZeroDivisionError else Inr (1 / real h))"

definition rank_one :: "(string \<times> nat) list \<Rightarrow> int \<Rightarrow> stored_node \<times> real \<Rightarrow> ranked_node result" where
  "rank_one hops_by_id now_ms cand =
     (case cand of (node, semantic) \<Rightarrow>
        bind_e (proximity_score (map_of hops_by_id (st_id node))) (\<lambda>prox.
          let rec = recency_score (st_occurred_at_ms node) now_ms in
          Inr \<lparr>rk_node = node,
               rk_score = semantic_weight * semantic + recency_weight * rec + proximity_weight * prox,
               rk_semantic = semantic, rk_recency = rec, rk_proximity = prox\<rparr>))"

definition rank :: "(stored_node \<times> real) list \<Rightarrow> (string \<times> nat) list \<Rightarrow> int \<Rightarrow> ranked_node list result" where
  "rank candidates hops_by_id now_ms =
     bind_e (map_e (rank_one hops_by_id now_ms) candidates) (\<lambda>ranked.
       Inr (sort_key (\<lambda>r. - rk_score r) ranked))"

section \<open>Retrieval\<close>

definition seed_ids_of :: "(stored_node \<times> real) list \<Rightarrow> string list" where
  "seed_ids_of candidates = map (\<lambda>c. st_id (fst c)) (take (max (length candidates div 3) 1) candidates)"

text \<open>\<open>MemoryRetriever.retrieve_stored\<close>; \<open>neighbour_ids\<close> is called with its default of two hops.\<close>

definition retrieve_stored ::
  "(nat \<Rightarrow> real list \<Rightarrow> (key \<times> real) list) \<Rightarrow> (string \<Rightarrow> real list result) \<Rightarrow> graph \<Rightarrow> string \<Rightarrow> nat
    \<Rightarrow> int \<Rightarrow> string \<Rightarrow> ranked_node list result" where
  "retrieve_stored ann embed_fn G owner top_k now_ms query =
     bind_e (embed_fn query) (\<lambda>emb.
       let candidates = vector_search ann G owner emb (top_k * 2) in
       if candidates = [] then Inr []
       else bind_e (rank candidates (neighbour_ids G owner (seed_ids_of candidates) 2) now_ms)
              (\<lambda>ranked. Inr (take top_k ranked)))"

section \<open>Lemmas\<close>

lemma recency_bounds: "0 < recency_score t now" "recency_score t now \<le> 1"
proof -
  have "0 \<le> real_of_int (max (now - t) 0) / real_of_int recency_half_life_ms"
    by (simp add: recency_half_life_ms_def)
  then show "0 < recency_score t now" "recency_score t now \<le> 1" by (simp_all add: recency_score_def)
qed

lemma recency_mono: "t \<le> t' \<Longrightarrow> recency_score t now \<le> recency_score t' now"
  by (simp add: recency_score_def recency_half_life_ms_def divide_right_mono)

lemma proximity_bounds: "proximity_score h = Inr p \<Longrightarrow> 0 \<le> p \<and> p \<le> 1"
  by (auto simp: proximity_score_def split: option.splits if_splits)

lemma rank_one_Inr:
  assumes "rank_one hs now c = Inr r"
  shows "rk_node r = fst c" "rk_semantic r = snd c"
    "rk_recency r = recency_score (st_occurred_at_ms (fst c)) now"
    "proximity_score (map_of hs (st_id (fst c))) = Inr (rk_proximity r)"
    "rk_score r = semantic_weight * rk_semantic r + recency_weight * rk_recency r + proximity_weight * rk_proximity r"
  using assms by (cases c; fastforce simp: rank_one_def Let_def elim!: bind_e_InrE)+

lemma map_e_nth: "map_e f xs = Inr ys \<Longrightarrow> list_all2 (\<lambda>x y. f x = Inr y) xs ys"
  by (induction xs arbitrary: ys) (auto elim!: bind_e_InrE)

lemma map_e_Inr: "(\<And>x. x \<in> set xs \<Longrightarrow> \<exists>y. f x = Inr y) \<Longrightarrow> \<exists>ys. map_e f xs = Inr ys"
proof (induction xs)
  case (Cons x xs)
  then obtain ys where "map_e f xs = Inr ys" by auto
  moreover obtain y where "f x = Inr y" using Cons.prems by auto
  ultimately show ?case by simp
qed simp

lemma rank_cases:
  assumes "rank cands hs now = Inr rs"
  obtains ranked where "list_all2 (\<lambda>c r. rank_one hs now c = Inr r) cands ranked"
    "rs = sort_key (\<lambda>r. - rk_score r) ranked"
  using assms by (auto simp: rank_def elim!: bind_e_InrE dest: map_e_nth)

lemma rank_nodes:
  "list_all2 (\<lambda>c r. rank_one hs now c = Inr r) cands ranked \<Longrightarrow> map rk_node ranked = map fst cands"
  by (induction rule: list_all2_induct) (auto dest: rank_one_Inr(1))

lemma rank_total:
  assumes "\<And>i. (i, 0) \<notin> set hs"
  shows "\<exists>rs. rank cands hs now = Inr rs"
proof -
  have "\<exists>r. rank_one hs now c = Inr r" for c
  proof -
    have "\<exists>p. proximity_score (map_of hs (st_id (fst c))) = Inr p"
      using assms by (auto simp: proximity_score_def split: option.splits dest: map_of_SomeD)
    then show ?thesis by (cases c) (auto simp: rank_one_def Let_def)
  qed
  from map_e_Inr [of cands "rank_one hs now", OF this]
  obtain ranked where "map_e (rank_one hs now) cands = Inr ranked" by (elim exE)
  then show ?thesis by (simp add: rank_def)
qed

lemma neighbour_hops_positive: "(i, d) \<in> set (neighbour_ids G owner ids hops) \<Longrightarrow> d \<noteq> 0"
  using hop_paths_range min_hops_in unfolding neighbour_ids_paths by fastforce

lemma vector_search_rows:
  assumes "(s, x) \<in> set (vector_search ann G owner emb k)"
  shows "\<exists>n \<in> set (gnodes G). s = hydrate n \<and> g_owner_id n = owner"
proof -
  have "(s, x) \<in> set [(hydrate n, score). (k, score) \<leftarrow> ann (max (k * 4) k) emb,
      n \<leftarrow> gnodes G, gkey n = k, g_owner_id n = owner]"
    using assms in_set_takeD unfolding vector_search_def by fast
  then show ?thesis by (auto simp del: gkey_eq split: if_splits)
qed

lemma vector_search_length: "length (vector_search ann G owner emb k) \<le> k"
  by (simp add: vector_search_def)

lemma retrieve_nodes:
  assumes "retrieve_stored ann embed_fn G owner k now q = Inr rs" "r \<in> set rs"
  shows "\<exists>n \<in> set (gnodes G). rk_node r = hydrate n \<and> g_owner_id n = owner"
proof -
  obtain emb where emb: "embed_fn q = Inr emb" using assms(1)
    by (auto simp: retrieve_stored_def elim: bind_e_InrE)
  let ?c = "vector_search ann G owner emb (k * 2)"
  have "?c \<noteq> []" using assms by (auto simp: retrieve_stored_def emb)
  then obtain ranked where "rank ?c (neighbour_ids G owner (seed_ids_of ?c) 2) now = Inr ranked"
    "rs = take k ranked"
    using assms(1) by (auto simp: retrieve_stored_def emb Let_def elim!: bind_e_InrE)
  then obtain rs' where "list_all2 (\<lambda>c r. rank_one (neighbour_ids G owner (seed_ids_of ?c) 2) now c = Inr r) ?c rs'"
    "rs = take k (sort_key (\<lambda>r. - rk_score r) rs')"
    by (auto elim: rank_cases)
  then have "r \<in> set rs'" "map rk_node rs' = map fst ?c"
    using assms(2) rank_nodes by (auto dest: in_set_takeD)
  then have "rk_node r \<in> fst ` set ?c" by (metis image_eqI list.set_map)
  then show ?thesis using vector_search_rows by fastforce
qed

lemma retrieve_found:
  assumes "embed_fn q = Inr emb"
  obtains rs where "retrieve_stored ann embed_fn G owner top_k now q = Inr rs" "length rs \<le> top_k"
proof -
  let ?c = "vector_search ann G owner emb (top_k * 2)"
  have "\<exists>rs. rank ?c (neighbour_ids G owner (seed_ids_of ?c) 2) now = Inr rs"
    by (rule rank_total) (use neighbour_hops_positive in blast)
  then have "\<exists>rs. retrieve_stored ann embed_fn G owner top_k now q = Inr rs \<and> length rs \<le> top_k"
    using assms by (cases "?c = []") (auto simp: retrieve_stored_def Let_def)
  with that show ?thesis by blast
qed

section \<open>Properties\<close>

text \<open>Ranking is a stable descending sort by the weighted score. The ranked nodes are the
  candidates, none lost or repeated; scores never increase along the list; candidates of
  equal score keep their order; and a score is the weighted sum of the similarity, a recency
  between 0 and 1 and a proximity between 0 and 1.\<close>

theorem rank_sorts:
  assumes "rank candidates hops now = Inr rs"
  shows "mset (map rk_node rs) = mset (map fst candidates)
    \<and> sorted_wrt (\<lambda>a b. rk_score b \<le> rk_score a) rs
    \<and> (\<exists>ranked. map rk_node ranked = map fst candidates \<and>
         (\<forall>x. filter (\<lambda>r. rk_score r = x) rs = filter (\<lambda>r. rk_score r = x) ranked))
    \<and> list_all (\<lambda>r. rk_score r = semantic_weight * rk_semantic r + recency_weight * rk_recency r
           + proximity_weight * rk_proximity r \<and> 0 < rk_recency r \<and> rk_recency r \<le> 1
           \<and> 0 \<le> rk_proximity r \<and> rk_proximity r \<le> 1) rs"
proof -
  obtain ranked where ranked: "list_all2 (\<lambda>c r. rank_one hops now c = Inr r) candidates ranked"
    and rs: "rs = sort_key (\<lambda>r. - rk_score r) ranked" by (rule rank_cases [OF assms])
  note nodes = rank_nodes [OF ranked]
  have "mset (map rk_node rs) = mset (map rk_node ranked)" by (simp add: rs mset_map)
  with nodes have perm: "mset (map rk_node rs) = mset (map fst candidates)" by simp
  have "sorted (map (\<lambda>r. - rk_score r) rs)" by (simp add: rs)
  then have desc: "sorted_wrt (\<lambda>a b. rk_score b \<le> rk_score a) rs" by (simp add: sorted_map)
  have "filter (\<lambda>r. rk_score r = x) rs = filter (\<lambda>r. rk_score r = x) ranked" for x
    using sort_key_stable [of "\<lambda>r. - rk_score r" "- x" ranked] by (simp add: rs)
  with nodes have stable: "\<exists>ranked. map rk_node ranked = map fst candidates \<and>
      (\<forall>x. filter (\<lambda>r. rk_score r = x) rs = filter (\<lambda>r. rk_score r = x) ranked)" by blast
  have "rk_score r = semantic_weight * rk_semantic r + recency_weight * rk_recency r
       + proximity_weight * rk_proximity r \<and> 0 < rk_recency r \<and> rk_recency r \<le> 1
       \<and> 0 \<le> rk_proximity r \<and> rk_proximity r \<le> 1" if r: "r \<in> set rs" for r
  proof -
    have mem: "r \<in> set ranked" using r by (simp add: rs)
    obtain c where "rank_one hops now c = Inr r" by (rule list_all2_right [OF ranked mem])
    note one = rank_one_Inr [OF this]
    from recency_bounds one(3) proximity_bounds [OF one(4)] one(5) show ?thesis by simp
  qed
  with perm desc stable show ?thesis by (simp add: list_all_iff)
qed

text \<open>On the store's own hop counts the division never fails: retrieval returns for every
  question the embedder accepts, and what it returns are at most \<open>top_k\<close> rows of the owner.\<close>

theorem retrieve_total:
  assumes "embed_fn q = Inr emb"
  shows "\<exists>rs. retrieve_stored ann embed_fn G owner top_k now q = Inr rs \<and> length rs \<le> top_k
    \<and> list_all (\<lambda>r. list_ex (\<lambda>n. rk_node r = hydrate n \<and> g_owner_id n = owner) (gnodes G)) rs"
proof -
  obtain rs where rs: "retrieve_stored ann embed_fn G owner top_k now q = Inr rs" "length rs \<le> top_k"
    by (rule retrieve_found [where embed_fn = embed_fn and q = q, OF assms])
  with retrieve_nodes [OF rs(1)] show ?thesis by (auto simp: list_all_iff list_ex_iff)
qed

text \<open>One recency half-life halves nothing: after \<open>RECENCY_HALF_LIFE_MS\<close> the score is
  \<open>1/e\<close>, below one half.\<close>

theorem half_life_is_e_fold:
  "recency_score t (t + recency_half_life_ms) = exp (- 1) \<and> recency_score t (t + recency_half_life_ms) < 1 / 2"
proof -
  have "recency_score t (t + recency_half_life_ms) = exp (- 1)"
    by (simp add: recency_score_def recency_half_life_ms_def)
  moreover have "exp (- 1) < (1 / 2 :: real)"
  proof -
    have "2 < exp (1 :: real)" using exp_lower_Taylor_quadratic [of 1] by simp
    then show ?thesis by (simp add: exp_minus field_simps)
  qed
  ultimately show ?thesis by simp
qed

definition sample_hits :: "(stored_node \<times> real) list" where
  "sample_hits = [(hydrate (row_of (ClaimN sample_claim) []), 1 / 4), (hydrate (row_of (ClaimN far_claim) []), 3 / 4)]"

lemma sample_hits_ranked: "\<exists>rs. rank sample_hits [(''clm_3'', 1)] 5 = Inr rs"
  by (rule rank_total) simp

theorem rank_sorts_witness:
  "\<exists>rs. rank sample_hits [(''clm_3'', 1)] 5 = Inr rs \<and> mset (map rk_node rs) = mset (map fst sample_hits)
     \<and> sorted_wrt (\<lambda>a b. rk_score b \<le> rk_score a) rs"
proof -
  obtain rs where "rank sample_hits [(''clm_3'', 1)] 5 = Inr rs" using sample_hits_ranked by blast
  with rank_sorts [OF this] show ?thesis by blast
qed

theorem retrieve_total_witness:
  "\<exists>rs. retrieve_stored (\<lambda>k emb. [((''Claim'', ''clm_1''), 1 / 2)]) (\<lambda>q. Inr [1]) run_graph ''o'' 8 5 ''q'' = Inr rs
     \<and> length rs \<le> 8"
  using retrieve_total [of "\<lambda>q. Inr [1]" "''q''" "[1]"] by blast

end
