(* ===== verification/Query.thy ===== *)
theory Query
  imports Ranking Ingestion
begin

text \<open>
  \<open>graphs/query.py\<close>: authorize, retrieve, check permissions, assemble. Each node of the graph
  is a function; \<open>run_query\<close> composes them. The two readings of the clock and the vector
  index are arguments. A candidate carries its payload; parsing it by the class of its label
  fails when the two do not match, which the store invariant rules out.
\<close>

section \<open>State\<close>

record query_candidate =
  qc_id :: string
  qc_label :: string
  qc_score :: real
  qc_payload :: memory_node

record denial =
  dn_id :: string
  dn_reason :: string

record answer_citation =
  ac_object_id :: string
  ac_label :: string
  ac_source :: string
  ac_url :: "string option"
  ac_occurred_at_ms :: int
  ac_ingested_at_ms :: "int option"

record query_answer =
  qa_question :: string
  qa_answered :: bool
  qa_text :: string
  qa_citations :: "answer_citation list"
  qa_denied :: "denial list"
  qa_considered :: nat

section \<open>Authorize\<close>

text \<open>The grant token of the state may be missing or empty; a scope in the state is one the
  caller supplied.\<close>

definition authorize :: "runtime \<Rightarrow> scope option \<Rightarrow> string option \<Rightarrow> scope result" where
  "authorize rt supplied token =
     (if supplied \<noteq> None \<and> (token = None \<or> token = Some [])
      then Inl (ValueError ''a grant_token is required; a caller-supplied scope is not trusted'')
      else (case token of
          None \<Rightarrow> Inl (KeyError ''grant_token'')
        | Some t \<Rightarrow> introspect_scope (rt_fmt rt) (rt_validate_scope rt) (rt_http rt) (rt_gateway rt) t))"

section \<open>Retrieve and check\<close>

definition candidate_of :: "ranked_node \<Rightarrow> query_candidate" where
  "candidate_of r = \<lparr>qc_id = st_id (rk_node r), qc_label = st_label (rk_node r), qc_score = rk_score r,
     qc_payload = st_node (rk_node r)\<rparr>"

definition retrieve ::
  "runtime \<Rightarrow> (nat \<Rightarrow> real list \<Rightarrow> (key \<times> real) list) \<Rightarrow> graph \<Rightarrow> scope \<Rightarrow> nat \<Rightarrow> int \<Rightarrow> string
    \<Rightarrow> query_candidate list result" where
  "retrieve rt ann G sc top_k now_ms question =
     bind_e (retrieve_stored ann (rt_embed rt) G (scope_owner_id sc) top_k now_ms question)
       (\<lambda>ranked. Inr (map candidate_of ranked))"

definition node_of :: "query_candidate \<Rightarrow> memory_node result" where
  "node_of c = (if qc_label c = label_of (qc_payload c) then Inr (qc_payload c)
     else Inl (ValidationError (qc_id c)))"

definition reason_value :: "permission_decision \<Rightarrow> string" where
  "reason_value d = (case reason d of None \<Rightarrow> [] | Some r \<Rightarrow> deny_value r)"

definition check_one ::
  "scope \<Rightarrow> int \<Rightarrow> query_candidate \<Rightarrow> query_candidate list \<times> denial list
    \<Rightarrow> (query_candidate list \<times> denial list) result" where
  "check_one sc now_ms c acc = (case acc of (permitted, denials) \<Rightarrow>
     bind_e (node_of c) (\<lambda>node.
       let d = evaluate now_ms sc (node_acl node) (Some now_ms) in
       if allowed d then Inr (permitted @ [c], denials)
       else Inr (permitted, denials @ [\<lparr>dn_id = qc_id c, dn_reason = reason_value d\<rparr>])))"

definition check_permissions ::
  "scope \<Rightarrow> int \<Rightarrow> query_candidate list \<Rightarrow> (query_candidate list \<times> denial list) result" where
  "check_permissions sc now_ms cands = fold_e (check_one sc now_ms) cands ([], [])"

section \<open>Assemble\<close>

definition spaced :: "string \<Rightarrow> string" where
  "spaced r = py_replace_char (CHR ''_'') (CHR '' '') r"

definition decline_text :: "nat \<Rightarrow> string list \<Rightarrow> string" where
  "decline_text considered reasons =
     (if considered = 0 then ''No memory matches this question.''
      else ''Declining to answer: '' @ str_of_nat considered @ '' candidate memory object(s) matched, ''
        @ ''but none are within the requesting agent'' @ [CHR 0x27] @ ''s scope ('' @ py_join '', '' (map spaced reasons) @ '').'')"

definition line_of :: "query_candidate \<Rightarrow> string result" where
  "line_of c = bind_e (node_of c) (\<lambda>node. Inr (case node of
      ClaimN cl \<Rightarrow> ''- '' @ clm_statement cl
        @ (if status_value (status cl) = ''active'' then [] else '' ['' @ status_value (status cl) @ '']'')
        @ '' ('' @ clm_id cl @ '')''
    | EventN e \<Rightarrow> ''- '' @ summary e @ '' ('' @ evt_id e @ '')''
    | EntityN e \<Rightarrow> ''- '' @ kind_value (ent_kind e) @ '': '' @ ent_name e @ '' ('' @ ent_id e @ '')''))"

definition citation_of :: "query_candidate \<Rightarrow> answer_citation result" where
  "citation_of c = bind_e (node_of c) (\<lambda>node.
     let cites = prov_citations (node_provenance node);
         first = (case cites of [] \<Rightarrow> None | x # _ \<Rightarrow> Some (cit_source x))
     in Inr \<lparr>ac_object_id = node_id node, ac_label = qc_label c,
          ac_source = py_join '','' (acl_sources (node_acl node)),
          ac_url = Option.bind first sr_url, ac_occurred_at_ms = acl_occurred_at_ms (node_acl node),
          ac_ingested_at_ms = map_option sr_ingested_at_ms first\<rparr>)"

definition assemble ::
  "string \<Rightarrow> nat \<Rightarrow> query_candidate list \<Rightarrow> denial list \<Rightarrow> query_answer result" where
  "assemble question considered permitted denials =
     (if permitted = [] then
        Inr \<lparr>qa_question = question, qa_answered = False,
             qa_text = decline_text considered (sorted_set (map dn_reason denials)),
             qa_citations = [], qa_denied = denials, qa_considered = considered\<rparr>
      else bind_e (map_e citation_of permitted) (\<lambda>citations.
           bind_e (map_e line_of permitted) (\<lambda>lines.
             Inr \<lparr>qa_question = question, qa_answered = True, qa_text = py_join [newline] lines,
                  qa_citations = citations, qa_denied = denials, qa_considered = considered\<rparr>)))"

section \<open>The graph\<close>

definition answer_candidates :: "string \<Rightarrow> scope \<Rightarrow> int \<Rightarrow> query_candidate list \<Rightarrow> query_answer result" where
  "answer_candidates question sc now_ms cands =
     bind_e (check_permissions sc now_ms cands) (\<lambda>(permitted, denials).
       assemble question (length cands) permitted denials)"

definition run_query ::
  "runtime \<Rightarrow> (nat \<Rightarrow> real list \<Rightarrow> (key \<times> real) list) \<Rightarrow> graph \<Rightarrow> int \<Rightarrow> int \<Rightarrow> string \<Rightarrow> string \<Rightarrow> nat
    \<Rightarrow> query_answer result" where
  "run_query rt ann G retrieve_ms check_ms question token top_k =
     bind_e (authorize rt None (Some token)) (\<lambda>sc.
     bind_e (retrieve rt ann G sc top_k retrieve_ms question) (\<lambda>cands.
       answer_candidates question sc check_ms cands))"

section \<open>Lemmas\<close>

definition labelled :: "query_candidate \<Rightarrow> bool" where
  "labelled c \<longleftrightarrow> qc_label c = label_of (qc_payload c)"

definition decision_on :: "scope \<Rightarrow> int \<Rightarrow> query_candidate \<Rightarrow> permission_decision" where
  "decision_on sc now_ms c = evaluate now_ms sc (node_acl (qc_payload c)) (Some now_ms)"

definition permitted_by :: "scope \<Rightarrow> int \<Rightarrow> query_candidate \<Rightarrow> bool" where
  "permitted_by sc now_ms c \<longleftrightarrow> allowed (decision_on sc now_ms c)"

definition denial_of :: "scope \<Rightarrow> int \<Rightarrow> query_candidate \<Rightarrow> denial" where
  "denial_of sc now_ms c = \<lparr>dn_id = qc_id c, dn_reason = reason_value (decision_on sc now_ms c)\<rparr>"

lemma check_one_labelled:
  "labelled c \<Longrightarrow> check_one sc now c (ps, ds) = Inr (if permitted_by sc now c then (ps @ [c], ds)
     else (ps, ds @ [denial_of sc now c]))"
  by (simp add: check_one_def node_of_def labelled_def permitted_by_def denial_of_def decision_on_def Let_def)

lemma check_fold:
  "list_all labelled cs \<Longrightarrow> fold_e (check_one sc now) cs (ps, ds) =
     Inr (ps @ filter (permitted_by sc now) cs,
          ds @ map (denial_of sc now) (filter (\<lambda>c. \<not> permitted_by sc now c) cs))"
  by (induction cs arbitrary: ps ds) (simp_all add: check_one_labelled)

lemma check_permissions_labelled:
  "list_all labelled cs \<Longrightarrow> check_permissions sc now cs =
     Inr (filter (permitted_by sc now) cs, map (denial_of sc now) (filter (\<lambda>c. \<not> permitted_by sc now c) cs))"
  by (simp add: check_permissions_def check_fold)

lemma citations_labelled:
  assumes "list_all labelled cs"
  obtains cites where "map_e citation_of cs = Inr cites" "map ac_object_id cites = map (\<lambda>c. node_id (qc_payload c)) cs"
proof -
  let ?f = "\<lambda>c. projr (citation_of c)"
  have one: "citation_of c = Inr (?f c) \<and> ac_object_id (?f c) = node_id (qc_payload c)" if "c \<in> set cs" for c
    using that assms by (simp add: list_all_iff citation_of_def node_of_def labelled_def Let_def)
  then have "map_e citation_of cs = Inr (map ?f cs)" by (intro map_e_total) blast
  with one that show ?thesis by simp
qed

lemma lines_labelled:
  assumes "list_all labelled cs"
  obtains lines where "map_e line_of cs = Inr lines"
proof -
  have "\<exists>l. line_of c = Inr l" if "c \<in> set cs" for c
    using that assms by (simp add: list_all_iff line_of_def node_of_def labelled_def)
  then have "\<exists>ls. map_e line_of cs = Inr ls" by (rule map_e_Inr)
  with that show ?thesis by blast
qed

lemma filter_labelled: "list_all labelled cs \<Longrightarrow> list_all labelled (filter P cs)"
  by (simp add: list_all_iff)

lemma answer_labelled:
  assumes "list_all labelled cs"
  obtains ans where "answer_candidates q sc now cs = Inr ans"
    "qa_question ans = q" "qa_answered ans = (filter (permitted_by sc now) cs \<noteq> [])"
    "map ac_object_id (qa_citations ans) = map (\<lambda>c. node_id (qc_payload c)) (filter (permitted_by sc now) cs)"
    "qa_denied ans = map (denial_of sc now) (filter (\<lambda>c. \<not> permitted_by sc now c) cs)"
    "qa_considered ans = length cs"
proof -
  obtain cites where c: "map_e citation_of (filter (permitted_by sc now) cs) = Inr cites"
    "map ac_object_id cites = map (\<lambda>c. node_id (qc_payload c)) (filter (permitted_by sc now) cs)"
    using citations_labelled [OF filter_labelled [OF assms]] by blast
  obtain lines where l: "map_e line_of (filter (permitted_by sc now) cs) = Inr lines"
    using lines_labelled [OF filter_labelled [OF assms]] by blast
  let ?ds = "map (denial_of sc now) (filter (\<lambda>c. \<not> permitted_by sc now c) cs)"
  show ?thesis
  proof (cases "filter (permitted_by sc now) cs = []")
    case True
    have "answer_candidates q sc now cs = Inr \<lparr>qa_question = q, qa_answered = False,
        qa_text = decline_text (length cs) (sorted_set (map dn_reason ?ds)),
        qa_citations = [], qa_denied = ?ds, qa_considered = length cs\<rparr>"
      by (simp add: answer_candidates_def check_permissions_labelled [OF assms] assemble_def True)
    from that [OF this] True show ?thesis by simp
  next
    case False
    have "answer_candidates q sc now cs = Inr \<lparr>qa_question = q, qa_answered = True,
        qa_text = py_join [newline] lines, qa_citations = cites, qa_denied = ?ds, qa_considered = length cs\<rparr>"
      using c l False by (simp add: answer_candidates_def check_permissions_labelled [OF assms] assemble_def)
    from that [OF this] False c(2) show ?thesis by simp
  qed
qed

lemma hydrate_simps [simp]:
  "st_id (hydrate n) = g_id n" "st_label (hydrate n) = g_label n" "st_node (hydrate n) = g_payload n"
  "st_occurred_at_ms (hydrate n) = g_occurred_at_ms n" "st_text (hydrate n) = g_text n"
  by (simp_all add: hydrate_def)

lemma retrieve_candidates:
  assumes "store_ok G" "retrieve rt ann G sc k now q = Inr cs" "c \<in> set cs"
  obtains n where "n \<in> set (gnodes G)" "g_owner_id n = scope_owner_id sc" "qc_payload c = g_payload n"
    "qc_id c = g_id n" "labelled c" "node_id (g_payload n) = g_id n"
proof -
  obtain rs where rs: "retrieve_stored ann (rt_embed rt) G (scope_owner_id sc) k now q = Inr rs"
    "cs = map candidate_of rs"
    using assms(2) by (auto simp: retrieve_def elim!: bind_e_InrE)
  then obtain r where r: "r \<in> set rs" "c = candidate_of r" using assms(3) by auto
  obtain n where n: "n \<in> set (gnodes G)" "rk_node r = hydrate n" "g_owner_id n = scope_owner_id sc"
    using retrieve_nodes [OF rs(1) r(1)] by blast
  have "row_ok n" by (rule store_okD(2) [OF assms(1) n(1)])
  with n r(2) that show ?thesis by (simp add: candidate_of_def labelled_def row_ok_def)
qed

section \<open>Properties\<close>

text \<open>The answer accounts for every candidate. On well-labelled candidates it always comes;
  it is an answer exactly when the grant allows some candidate; it cites exactly the allowed
  ones, in rank order; it lists every other one as denied with the reason of the check; and
  the two lists together are all that was considered.\<close>

theorem query_accounts:
  assumes "list_all labelled cs"
  shows "\<exists>ans. answer_candidates q sc now cs = Inr ans
     \<and> qa_answered ans = list_ex (permitted_by sc now) cs
     \<and> map ac_object_id (qa_citations ans) = map (\<lambda>c. node_id (qc_payload c)) (filter (permitted_by sc now) cs)
     \<and> qa_denied ans = map (denial_of sc now) (filter (\<lambda>c. \<not> permitted_by sc now c) cs)
     \<and> qa_considered ans = length cs
     \<and> length (qa_citations ans) + length (qa_denied ans) = qa_considered ans"
proof -
  obtain ans where ans: "answer_candidates q sc now cs = Inr ans"
    "qa_answered ans = (filter (permitted_by sc now) cs \<noteq> [])"
    "map ac_object_id (qa_citations ans) = map (\<lambda>c. node_id (qc_payload c)) (filter (permitted_by sc now) cs)"
    "qa_denied ans = map (denial_of sc now) (filter (\<lambda>c. \<not> permitted_by sc now c) cs)"
    "qa_considered ans = length cs"
    by (rule answer_labelled [OF assms])
  moreover have "length (qa_citations ans) = length (filter (permitted_by sc now) cs)"
    using arg_cong [OF ans(3), of length] by simp
  moreover have "(filter (permitted_by sc now) cs \<noteq> []) = list_ex (permitted_by sc now) cs"
    by (simp add: filter_empty_conv list_ex_iff)
  ultimately show ?thesis by (simp add: sum_length_filter_compl)
qed

text \<open>An answer reveals nothing of a denied object but its id and the reason of the denial.
  Two candidate lists that agree on the ids, on the reasons of the denials and on everything
  that is allowed give the same answer, whatever the denied objects hold.\<close>

theorem query_hides_denied:
  assumes "list_all labelled cs" "list_all labelled ds"
    and "list_all2 (\<lambda>c d. c = d \<or> qc_id c = qc_id d \<and> decision_on sc now c = decision_on sc now d
           \<and> \<not> permitted_by sc now c) cs ds"
  shows "answer_candidates q sc now cs = answer_candidates q sc now ds"
proof -
  have "filter (permitted_by sc now) cs = filter (permitted_by sc now) ds
      \<and> map (denial_of sc now) (filter (\<lambda>c. \<not> permitted_by sc now c) cs) =
        map (denial_of sc now) (filter (\<lambda>c. \<not> permitted_by sc now c) ds)"
    using assms(3) by (induction rule: list_all2_induct) (auto simp: permitted_by_def denial_of_def)
  then show ?thesis
    using list_all2_lengthD [OF assms(3)]
    by (simp add: answer_candidates_def check_permissions_labelled [OF assms(1)]
        check_permissions_labelled [OF assms(2)])
qed

lemma run_query_returns:
  assumes "store_ok G" "rt_embed rt question = Inr emb"
    and "introspect_scope (rt_fmt rt) (rt_validate_scope rt) (rt_http rt) (rt_gateway rt) token = Inr sc"
  shows "\<exists>ans. run_query rt ann G t1 t2 question token top_k = Inr ans \<and> qa_considered ans \<le> top_k
     \<and> list_all (\<lambda>c. list_ex (\<lambda>n. g_id n = ac_object_id c \<and> g_owner_id n = scope_owner_id sc
           \<and> permits t2 sc (node_acl (g_payload n)) (Some t2)) (gnodes G)) (qa_citations ans)"
proof -
  obtain rs where rs: "retrieve_stored ann (rt_embed rt) G (scope_owner_id sc) top_k t1 question = Inr rs"
    "length rs \<le> top_k"
    using retrieve_found [where embed_fn = "rt_embed rt" and q = question, OF assms(2)] by blast
  define cs where "cs = map candidate_of rs"
  have ret: "retrieve rt ann G sc top_k t1 question = Inr cs" by (simp add: retrieve_def rs cs_def)
  have lab: "list_all labelled cs"
    unfolding list_all_iff by (blast elim: retrieve_candidates [OF assms(1) ret])
  obtain ans where ans: "answer_candidates question sc t2 cs = Inr ans"
    "map ac_object_id (qa_citations ans) = map (\<lambda>c. node_id (qc_payload c)) (filter (permitted_by sc t2) cs)"
    "qa_considered ans = length cs"
    by (rule answer_labelled [OF lab])
  have "\<exists>n \<in> set (gnodes G). g_id n = ac_object_id a \<and> g_owner_id n = scope_owner_id sc
      \<and> permits t2 sc (node_acl (g_payload n)) (Some t2)" if a: "a \<in> set (qa_citations ans)" for a
  proof -
    have "ac_object_id a \<in> set (map (\<lambda>c. node_id (qc_payload c)) (filter (permitted_by sc t2) cs))"
      using a unfolding ans(2) [symmetric] by simp
    then obtain c where c: "c \<in> set cs" "permitted_by sc t2 c" "ac_object_id a = node_id (qc_payload c)" by auto
    obtain n where n: "n \<in> set (gnodes G)" "g_owner_id n = scope_owner_id sc" "qc_payload c = g_payload n"
      "node_id (g_payload n) = g_id n"
      by (rule retrieve_candidates [OF assms(1) ret c(1)])
    with c(2,3) show ?thesis
      by (intro bexI [OF _ n(1)]) (simp add: permitted_by_def decision_on_def permits_def)
  qed
  with ans rs(2) show ?thesis
    by (simp add: run_query_def authorize_def assms(3) ret cs_def [symmetric] list_all_iff list_ex_iff)
      (simp add: cs_def)
qed

text \<open>C18: a query answers under the grant alone. On a well-formed store it returns whenever the
  gateway introspects the token and the embedder takes the question, and every object it
  cites is a stored row of the owner the gateway named that the grant permits.\<close>

theorem query_under_grant:
  assumes "store_ok G" "rt_embed rt question = Inr emb"
    and "introspect_scope (rt_fmt rt) (rt_validate_scope rt) (rt_http rt) (rt_gateway rt) token = Inr sc"
  shows "\<exists>ans. run_query rt ann G t1 t2 question token top_k = Inr ans \<and> qa_considered ans \<le> top_k
     \<and> list_all (\<lambda>c. list_ex (\<lambda>n. g_id n = ac_object_id c \<and> g_owner_id n = scope_owner_id sc
           \<and> permits t2 sc (node_acl (g_payload n)) (Some t2)) (gnodes G)) (qa_citations ans)"
  by (rule run_query_returns [OF assms])

section \<open>Concrete queries\<close>

text \<open>A permitted claim and one of another source that the grant does not cover.\<close>

definition visible_candidate :: query_candidate where
  "visible_candidate = \<lparr>qc_id = ''clm_1'', qc_label = ''Claim'', qc_score = 1, qc_payload = ClaimN sample_claim\<rparr>"

definition hidden_candidate :: "string \<Rightarrow> query_candidate" where
  "hidden_candidate statement = \<lparr>qc_id = ''clm_9'', qc_label = ''Claim'', qc_score = 1,
     qc_payload = ClaimN (sample_claim\<lparr>clm_id := ''clm_9'', clm_statement := statement,
        clm_acl := sample_acl\<lparr>acl_sources := [''chatgpt'']\<rparr>\<rparr>)\<rparr>"

lemma sample_decisions:
  "permitted_by sample_scope 3 visible_candidate" "\<not> permitted_by sample_scope 3 (hidden_candidate s)"
  "decision_on sample_scope 3 (hidden_candidate s) = deny SourceNotInScope"
  "labelled visible_candidate" "labelled (hidden_candidate s)"
  by (simp_all add: permitted_by_def decision_on_def evaluate_def visible_candidate_def hidden_candidate_def
      sample_scope_def sample_acl_def sample_claim_def allowed_def allow_decision_def deny_def labelled_def)

theorem query_accounts_witness:
  "\<exists>ans. answer_candidates ''q'' sample_scope 3 [hidden_candidate ''x'', visible_candidate] = Inr ans
     \<and> qa_answered ans \<and> map ac_object_id (qa_citations ans) = [''clm_1'']
     \<and> qa_denied ans = [\<lparr>dn_id = ''clm_9'', dn_reason = ''source_not_in_scope''\<rparr>]"
proof -
  have "list_all labelled [hidden_candidate ''x'', visible_candidate]" by (simp add: sample_decisions)
  from query_accounts [OF this, of "''q''" sample_scope 3]
  obtain ans where ans: "answer_candidates ''q'' sample_scope 3 [hidden_candidate ''x'', visible_candidate] = Inr ans"
    "qa_answered ans" "map ac_object_id (qa_citations ans) = [node_id (qc_payload visible_candidate)]"
    "qa_denied ans = [denial_of sample_scope 3 (hidden_candidate ''x'')]"
    by (auto simp: sample_decisions)
  have "node_id (qc_payload visible_candidate) = ''clm_1''" "qc_id (hidden_candidate ''x'') = ''clm_9''"
    by (simp_all add: visible_candidate_def hidden_candidate_def sample_claim_def)
  with ans show ?thesis by (simp add: denial_of_def sample_decisions reason_value_def deny_def)
qed

theorem query_hides_denied_witness:
  "answer_candidates ''q'' sample_scope 3 [hidden_candidate ''x'', visible_candidate] =
   answer_candidates ''q'' sample_scope 3 [hidden_candidate ''something else'', visible_candidate]"
  by (rule query_hides_denied) (simp_all add: sample_decisions, simp add: hidden_candidate_def)

text \<open>The store of the example runs, queried under a grant of its owner.\<close>

definition query_runtime :: runtime where
  "query_runtime = \<lparr>rt_settings = default_settings, rt_embed = (\<lambda>t. Inr []),
     rt_extract = (\<lambda>owner r. Inl NotImplementedError), rt_gateway = new_client ''g'', rt_registry = [],
     rt_http = sample_grant_server sample_scope, rt_fmt = (\<lambda>j. []), rt_show = (\<lambda>e. []),
     rt_validate_scope = (\<lambda>j. Inr sample_scope)\<rparr>"

theorem query_under_grant_witness:
  "\<exists>ans. run_query query_runtime (\<lambda>k emb. [((''Claim'', ''clm_1''), 1)]) run_graph 3 3 ''q'' ''tok'' 8 = Inr ans
     \<and> qa_considered ans \<le> 8"
proof -
  have "rt_embed query_runtime ''q'' = Inr []" by (simp add: query_runtime_def)
  moreover have "introspect_scope (rt_fmt query_runtime) (rt_validate_scope query_runtime) (rt_http query_runtime)
      (rt_gateway query_runtime) ''tok'' = Inr sample_scope"
    by (simp add: query_runtime_def introspect_scope_def http_post_def sample_grant_server_def unwrap_def json_item_def)
  ultimately show ?thesis using query_under_grant [OF run_graph_ok] by blast
qed

end
