(* ===== verification/Formatting.thy ===== *)
theory Formatting
  imports Schema
begin

text \<open>
  Formatting and doubles: \<open>repr\<close> of a string, and \<open>f"{a / b:.1f}"\<close> for integers, exactly:
  true division rounds the quotient to the nearest double, ties to even,
  and the format rounds the value of that double to one decimal, ties to even.
\<close>

section \<open>repr\<close>

definition hex_digit :: "nat \<Rightarrow> char" where
  "hex_digit n = (if n < 10 then char_of (48 + n) else char_of (87 + n))"

definition printable :: "char \<Rightarrow> bool" where
  "printable c \<longleftrightarrow> in_range (CHR '' '') (CHR ''~'') c \<or> in_range (CHR 0xA1) (CHR 0xFF) c \<and> c \<noteq> CHR 0xAD"

definition repr_char :: "char \<Rightarrow> char \<Rightarrow> string" where
  "repr_char quote c =
     (if c = quote \<or> c = CHR 0x5C then [CHR 0x5C, c]
      else if c = CHR 0x09 then [CHR 0x5C, CHR ''t'']
      else if c = CHR 0x0A then [CHR 0x5C, CHR ''n'']
      else if c = CHR 0x0D then [CHR 0x5C, CHR ''r'']
      else if printable c then [c]
      else [CHR 0x5C, CHR ''x'', hex_digit (ord_of c div 16), hex_digit (ord_of c mod 16)])"

definition py_repr :: "string \<Rightarrow> string" where
  "py_repr s =
     (let quote = (if CHR 0x27 \<in> set s \<and> CHR 0x22 \<notin> set s then CHR 0x22 else CHR 0x27)
      in quote # concat (map (repr_char quote) s) @ [quote])"

section \<open>Rounding\<close>

text \<open>\<open>num / den\<close> to the nearest integer, ties to even.\<close>

definition round_even :: "nat \<Rightarrow> nat \<Rightarrow> nat" where
  "round_even num den =
     (let d = num div den; r = num mod den in
      if 2 * r < den then d else if 2 * r > den then d + 1 else if even d then d else d + 1)"

fun bit_length :: "nat \<Rightarrow> nat" where
  "bit_length n = (if n = 0 then 0 else Suc (bit_length (n div 2)))"

declare bit_length.simps [simp del]

text \<open>\<open>p / q\<close> as a double \<open>m * 2 ^ e\<close>: the exponent that leaves 53 bits, then rounding.\<close>

definition scaled :: "nat \<Rightarrow> nat \<Rightarrow> int \<Rightarrow> nat \<times> nat" where
  "scaled p q e = (if e \<le> 0 then (p * 2 ^ nat (- e), q) else (p, q * 2 ^ nat e))"

definition exponent_of :: "nat \<Rightarrow> nat \<Rightarrow> int" where
  "exponent_of p q =
     (let e = int (bit_length p) - int (bit_length q) - 53;
          (num, den) = scaled p q e
      in if num div den < 2 ^ 52 then e - 1 else e)"

definition double_ratio :: "nat \<Rightarrow> nat \<Rightarrow> nat \<times> int" where
  "double_ratio p q = (if p = 0 then (0, 0) else
     let e = exponent_of p q; (num, den) = scaled p q e in (round_even num den, e))"

definition tenths :: "nat \<times> int \<Rightarrow> nat" where
  "tenths x = (case x of (m, e) \<Rightarrow>
     if e \<ge> 0 then 10 * m * 2 ^ nat e else round_even (10 * m) (2 ^ nat (- e)))"

definition format_1f :: "int \<Rightarrow> nat \<Rightarrow> string" where
  "format_1f p q =
     (let t = tenths (double_ratio (nat \<bar>p\<bar>) q)
      in (if p < 0 then ''-'' else []) @ str_of_nat (t div 10) @ ''.'' @ str_of_nat (t mod 10))"

section \<open>Doubles\<close>

text \<open>A dyadic rational rounded to a double: 53 bits, ties to even, exponents from -1074 up.\<close>

definition round_double :: "int \<Rightarrow> int \<Rightarrow> pyfloat" where
  "round_double m e =
     (let k = max 0 (max (int (bit_length (nat \<bar>m\<bar>)) - 53) (- 1074 - e));
          q = round_even (nat \<bar>m\<bar>) (2 ^ nat k)
      in if int (bit_length q) + e + k > 1024 then Infinity (0 < m) else Fin (sgn m * int q) (e + k))"

definition int_of_float :: "pyfloat \<Rightarrow> int result" where
  "int_of_float x = (case x of
      Fin m e \<Rightarrow> Inr (if 0 \<le> e then m * 2 ^ nat e else sgn m * (\<bar>m\<bar> div 2 ^ nat (- e)))
    | Infinity pos \<Rightarrow> Inl OverflowError
    | NaN \<Rightarrow> Inl (ValueError ''cannot convert float NaN to integer''))"

section \<open>Lemmas\<close>

lemma round_even_bounds:
  assumes "0 < den"
  shows "2 * (round_even num den * den) \<le> 2 * num + den" "2 * num \<le> 2 * (round_even num den * den) + den"
proof -
  define d r where "d = num div den" and "r = num mod den"
  have num: "num = d * den + r" "r < den" using assms by (simp_all add: d_def r_def)
  have cases: "round_even num den = (if 2 * r < den then d else if 2 * r > den then d + 1
      else if even d then d else d + 1)"
    by (simp add: round_even_def d_def r_def)
  show "2 * (round_even num den * den) \<le> 2 * num + den" "2 * num \<le> 2 * (round_even num den * den) + den"
    unfolding cases using num by (auto simp: algebra_simps)
qed

lemma round_even_exact: "0 < den \<Longrightarrow> round_even (k * den) den = k"
  by (simp add: round_even_def)

lemma format_samples:
  "format_1f 86400000 86400000 = ''1.0''" "format_1f 259200000 86400000 = ''3.0''"
  "format_1f 21600000 86400000 = ''0.2''" "format_1f 4320000 86400000 = ''0.1''"
  "format_1f 12960000 86400000 = ''0.1''" "format_1f (- 1) 86400000 = ''-0.0''"
  by (simp_all add: format_1f_def double_ratio_def exponent_of_def scaled_def tenths_def round_even_def
      bit_length.simps str_of_nat.simps Let_def digit_char_def char_of_def bit_0)

end
