(* ===== verification/Shift.thy ===== *)
theory Shift
  imports Query Formatting
begin

text \<open>
  The part of \<open>graphs/history.py\<close> that answers why a decision shifted: the supersession run of
  a claim, one step per \<open>SUPERSEDES\<close> link with the evidence that is new in it, open conflicts
  and reconciliations. A claim the grant does not cover stays in the result as an id and a
  reason. The dicts of the result are datatypes: a view is either withheld or shown.
\<close>

section \<open>Permission check shared by the history reads\<close>

record hist_candidate =
  hc_id :: string
  hc_label :: string
  hc_payload :: memory_node

definition hist_candidate_of :: "stored_node \<Rightarrow> hist_candidate" where
  "hist_candidate_of s = \<lparr>hc_id = st_id s, hc_label = st_label s, hc_payload = st_node s\<rparr>"

definition hist_node :: "hist_candidate \<Rightarrow> memory_node result" where
  "hist_node c = (if hc_label c = label_of (hc_payload c) then Inr (hc_payload c)
     else Inl (ValidationError (hc_id c)))"

type_synonym verdicts = "(string \<times> string option) list"

definition check_hist :: "scope \<Rightarrow> int \<Rightarrow> hist_candidate list \<Rightarrow> (verdicts \<times> denial list) result" where
  "check_hist sc now_ms cands =
     bind_e (map_e (\<lambda>c. bind_e (hist_node c) (\<lambda>node.
         let d = evaluate now_ms sc (node_acl node) (Some now_ms)
         in Inr (hc_id c, if allowed d then None else Some (reason_value d)))) cands)
       (\<lambda>vs. Inr (dict_of vs,
                  List.map_filter (\<lambda>(i, v). map_option (\<lambda>r. \<lparr>dn_id = i, dn_reason = r\<rparr>) v) vs))"

text \<open>\<open>verdicts.get(id)\<close>: a missing id and an allowed one both give \<open>None\<close>.\<close>

definition verdict_of :: "verdicts \<Rightarrow> string \<Rightarrow> string option" where
  "verdict_of vs i = (case map_of vs i of None \<Rightarrow> None | Some v \<Rightarrow> v)"

section \<open>Views\<close>

datatype claim_view =
    ClaimWithheld string string
  | ClaimShown string string string int "string list" bool

definition claim_view :: "claim \<Rightarrow> string option \<Rightarrow> claim_view" where
  "claim_view c denied = (case denied of
      Some why \<Rightarrow> ClaimWithheld (clm_id c) why
    | None \<Rightarrow> ClaimShown (clm_id c) (clm_statement c) (status_value (status c)) (asserted_at_ms c)
        (acl_sources (clm_acl c)) (clm_commitment c \<noteq> None))"

record citation_view =
  cv_event_id :: string
  cv_connector :: string
  cv_external_id :: string
  cv_url :: "string option"
  cv_occurred_at_ms :: int
  cv_ingested_at_ms :: int
  cv_quote :: "string option"

definition citation_view :: "citation \<Rightarrow> citation_view" where
  "citation_view c = \<lparr>cv_event_id = cit_event_id c, cv_connector = sr_connector (cit_source c),
     cv_external_id = sr_external_id (cit_source c), cv_url = sr_url (cit_source c),
     cv_occurred_at_ms = sr_occurred_at_ms (cit_source c),
     cv_ingested_at_ms = sr_ingested_at_ms (cit_source c), cv_quote = cit_quote c\<rparr>"

record shift_step =
  sp_superseding :: claim_view
  sp_superseded :: claim_view
  sp_elapsed_ms :: "int option"
  sp_new_citations :: "citation_view list"
  sp_withheld :: bool

definition step_of :: "verdicts \<Rightarrow> claim \<Rightarrow> claim \<Rightarrow> shift_step" where
  "step_of vs superseding superseded =
     (let both_visible = (verdict_of vs (clm_id superseding) = None \<and> verdict_of vs (clm_id superseded) = None);
          known = map cit_event_id (prov_citations (clm_provenance superseded));
          new = filter (\<lambda>c. cit_event_id c \<notin> set known) (prov_citations (clm_provenance superseding))
      in \<lparr>sp_superseding = claim_view superseding (verdict_of vs (clm_id superseding)),
          sp_superseded = claim_view superseded (verdict_of vs (clm_id superseded)),
          sp_elapsed_ms = (if both_visible then Some (asserted_at_ms superseding - asserted_at_ms superseded) else None),
          sp_new_citations = (if both_visible then map citation_view new else []),
          sp_withheld = (\<not> both_visible)\<rparr>)"

section \<open>Text\<close>

fun short :: "claim_view \<Rightarrow> string" where
  "short (ClaimWithheld i r) = ''[withheld '' @ i @ '']''"
| "short (ClaimShown i s st t src com) = [CHR 0x22] @ s @ [CHR 0x22] @ '' ('' @ i @ '')''"

definition step_line :: "nat \<Rightarrow> shift_step \<Rightarrow> string" where
  "step_line n sp =
     (let after = short (sp_superseding sp); before = short (sp_superseded sp) in
      if sp_withheld sp then
        str_of_nat n @ ''. '' @ after @ '' superseded '' @ before @ '' -- details withheld (out of scope).''
      else
        let gap = (case sp_elapsed_ms sp of Some e \<Rightarrow> format_1f e 86400000 | None \<Rightarrow> []);
            evidence = py_join '', '' (map (\<lambda>c. cv_connector c @ ''/'' @ cv_external_id c) (sp_new_citations sp))
        in str_of_nat n @ ''. after '' @ gap @ ''d, '' @ after @ '' superseded '' @ before
           @ (if evidence \<noteq> [] then '' -- new evidence: '' @ evidence @ ''.'' else '' -- no new citations.''))"

definition conflict_line :: "claim_view \<times> claim_view \<Rightarrow> string" where
  "conflict_line c = ''! '' @ short (fst c) @ '' still contradicts '' @ short (snd c) @ ''.''"

definition shift_text :: "string \<Rightarrow> shift_step list \<Rightarrow> (claim_view \<times> claim_view) list \<Rightarrow> string" where
  "shift_text claim_id steps conflicts =
     (if steps = [] \<and> conflicts = [] then claim_id @ '' has not been superseded or contradicted.''
      else py_join [newline]
        ((claim_id @ '': '' @ str_of_nat (length steps) @ '' supersession(s), ''
            @ str_of_nat (length conflicts) @ '' open conflict(s).'')
         # map2 step_line [1 ..< Suc (length steps)] steps @ map conflict_line conflicts))"

section \<open>Walk\<close>

record walked =
  wk_candidates :: "hist_candidate list"
  wk_edges :: "(string \<times> string) list"
  wk_hop_of :: "(string \<times> nat) list"

definition nonempty :: "string option \<Rightarrow> string list" where
  "nonempty o' = (case o' of None \<Rightarrow> [] | Some s \<Rightarrow> if s \<noteq> [] then [s] else [])"

definition reconciled_ids :: "stored_node list \<Rightarrow> string list" where
  "reconciled_ids chain = concat (map (\<lambda>s. case st_node s of
     ClaimN c \<Rightarrow> nonempty (reconciled_into c) | _ \<Rightarrow> []) chain)"

definition walk_shift :: "graph \<Rightarrow> string \<Rightarrow> string \<Rightarrow> walked" where
  "walk_shift G owner object_id =
     (let chain = supersession_chain G owner object_id 24;
          ids = map st_id chain;
          links = (if ids \<noteq> [] then conflict_links G owner ids else []);
          extra = filter (\<lambda>i. i \<notin> set ids)
                    (reconciled_ids chain @ concat (map (\<lambda>(a, b). [a, b]) links));
          found = chain @ (if extra \<noteq> [] then get_many G owner (sorted_set extra) else [])
      in \<lparr>wk_candidates = map hist_candidate_of (filter (\<lambda>s. st_label s = ''Claim'') found),
          wk_edges = links, wk_hop_of = dict_of (map (\<lambda>s. (st_id s, 0)) chain)\<rparr>)"

section \<open>Assemble\<close>

record shift_history =
  sh_claim_id :: string
  sh_answered :: bool
  sh_text :: string
  sh_chain :: "claim_view list"
  sh_steps :: "shift_step list"
  sh_conflicts :: "(claim_view \<times> claim_view) list"
  sh_reconciliations :: "(claim_view \<times> (string + claim_view)) list"
  sh_denied :: "denial list"
  sh_considered :: nat

definition claim_order :: "claim \<Rightarrow> int \<times> string" where
  "claim_order c = (asserted_at_ms c, clm_id c)"

definition stored_claim_of :: "hist_candidate \<Rightarrow> (string \<times> claim) result" where
  "stored_claim_of c = bind_e (hist_node c) (\<lambda>node. case node of
     ClaimN cl \<Rightarrow> Inr (hc_id c, cl) | _ \<Rightarrow> Inl (TypeError (hc_id c)))"

definition pretty_reasons :: "denial list \<Rightarrow> string" where
  "pretty_reasons denials = py_join '', '' (map spaced (sorted_set (map dn_reason denials)))"

definition shift_steps :: "verdicts \<Rightarrow> (string \<times> claim) list \<Rightarrow> shift_step list" where
  "shift_steps vs claims =
     concat (map (\<lambda>c. List.map_filter (\<lambda>i. map_option (step_of vs c) (map_of claims i)) (supersedes c))
       (sort_key claim_order (map snd claims)))"

definition shift_conflicts :: "verdicts \<Rightarrow> (string \<times> claim) list \<Rightarrow> (string \<times> string) list
    \<Rightarrow> (claim_view \<times> claim_view) list" where
  "shift_conflicts vs claims edges =
     List.map_filter (\<lambda>(a, b). case (map_of claims a, map_of claims b) of
         (Some x, Some y) \<Rightarrow> Some (claim_view x (verdict_of vs a), claim_view y (verdict_of vs b))
       | _ \<Rightarrow> None) edges"

definition shift_reconciliations :: "verdicts \<Rightarrow> (string \<times> claim) list \<Rightarrow> claim list
    \<Rightarrow> (claim_view \<times> (string + claim_view)) list" where
  "shift_reconciliations vs claims ordered =
     concat (map (\<lambda>c. map (\<lambda>i. (claim_view c (verdict_of vs (clm_id c)),
         case map_of claims i of Some x \<Rightarrow> Inr (claim_view x (verdict_of vs i)) | None \<Rightarrow> Inl i))
       (nonempty (reconciled_into c))) ordered)"

definition build_shift ::
  "string \<Rightarrow> (string \<times> claim) list \<Rightarrow> verdicts \<Rightarrow> denial list \<Rightarrow> (string \<times> string) list
    \<Rightarrow> (string \<times> nat) list \<Rightarrow> shift_history" where
  "build_shift claim_id claims vs denials edges hop_of =
     (if claims = [] then
        \<lparr>sh_claim_id = claim_id, sh_answered = False,
         sh_text = ''No claim '' @ py_repr claim_id @ '' is present in this memory.'',
         sh_chain = [], sh_steps = [], sh_conflicts = [], sh_reconciliations = [], sh_denied = [],
         sh_considered = 0\<rparr>
      else if list_all (\<lambda>(i, c). verdict_of vs i \<noteq> None) claims then
        \<lparr>sh_claim_id = claim_id, sh_answered = False,
         sh_text = ''Declining to answer: '' @ str_of_nat (length claims) @ '' claim(s) make up this ''
           @ ''decision'' @ [CHR 0x27] @ ''s history, but none are within the requesting ''
           @ ''agent'' @ [CHR 0x27] @ ''s scope ('' @ pretty_reasons denials @ '').'',
         sh_chain = [], sh_steps = [], sh_conflicts = [], sh_reconciliations = [], sh_denied = denials,
         sh_considered = length claims\<rparr>
      else
        let ordered = sort_key claim_order (map snd (filter (\<lambda>(i, c). map_of hop_of i \<noteq> None) claims));
            steps = shift_steps vs claims;
            conflicts = shift_conflicts vs claims edges
        in \<lparr>sh_claim_id = claim_id, sh_answered = True, sh_text = shift_text claim_id steps conflicts,
            sh_chain = map (\<lambda>c. claim_view c (verdict_of vs (clm_id c))) ordered, sh_steps = steps,
            sh_conflicts = conflicts, sh_reconciliations = shift_reconciliations vs claims ordered,
            sh_denied = denials, sh_considered = length claims\<rparr>)"

definition assemble_shift :: "string \<Rightarrow> walked \<Rightarrow> verdicts \<Rightarrow> denial list \<Rightarrow> shift_history result" where
  "assemble_shift claim_id w vs denials =
     bind_e (map_e stored_claim_of (wk_candidates w)) (\<lambda>claims.
       Inr (build_shift claim_id (dict_of claims) vs denials (wk_edges w) (wk_hop_of w)))"

definition answer_shift :: "string \<Rightarrow> scope \<Rightarrow> int \<Rightarrow> walked \<Rightarrow> shift_history result" where
  "answer_shift claim_id sc now_ms w =
     bind_e (check_hist sc now_ms (wk_candidates w)) (\<lambda>(vs, denials). assemble_shift claim_id w vs denials)"

definition why_did_this_shift ::
  "runtime \<Rightarrow> graph \<Rightarrow> int \<Rightarrow> string \<Rightarrow> string \<Rightarrow> shift_history result" where
  "why_did_this_shift rt G now_ms claim_id token =
     bind_e (authorize rt None (Some token)) (\<lambda>sc.
       answer_shift claim_id sc now_ms (walk_shift G (scope_owner_id sc) claim_id))"

end
