(* ===== verification/Shift_Props.thy ===== *)
theory Shift_Props
  imports Shift
begin

text \<open>
  What the shift read guarantees: a walk over a well-formed store yields claims with distinct
  ids, so the read always returns; it answers from the owner's subgraph alone; and what it
  returns does not depend on the content of the claims it withholds. The locale \<open>redaction\<close>
  is the contract of a view, interpreted here and for the context chains.
\<close>

section \<open>Redaction\<close>

locale redaction =
  fixes ident :: "'n \<Rightarrow> string"
    and view :: "'n \<Rightarrow> string option \<Rightarrow> 'v"
  assumes withheld_by_id: "ident n = ident m \<Longrightarrow> view n (Some why) = view m (Some why)"
begin

text \<open>Equal, or of one id that is withheld.\<close>

definition alike :: "(string \<Rightarrow> string option) \<Rightarrow> 'n \<Rightarrow> 'n \<Rightarrow> bool" where
  "alike v n m \<longleftrightarrow> n = m \<or> ident n = ident m \<and> v (ident n) \<noteq> None"

lemma alike_ident: "alike v n m \<Longrightarrow> ident n = ident m"
  by (auto simp: alike_def)

lemma alike_view:
  assumes "alike v n m"
  shows "view n (v (ident n)) = view m (v (ident m))"
proof (cases "v (ident n)")
  case None
  then show ?thesis using assms by (simp add: alike_def)
next
  case (Some why)
  have same: "ident n = ident m" by (rule alike_ident [OF assms])
  show ?thesis using Some withheld_by_id [OF same, of why] same by simp
qed

lemma alike_visible: "alike v n m \<Longrightarrow> v (ident n) = None \<Longrightarrow> n = m"
  by (auto simp: alike_def)

lemma alike_views: "list_all2 (alike v) ns ms \<Longrightarrow>
    map (\<lambda>n. view n (v (ident n))) ns = map (\<lambda>n. view n (v (ident n))) ms"
  by (induction rule: list_all2_induct) (simp_all add: alike_view)

end

interpretation claims: redaction clm_id claim_view
  by unfold_locales (simp add: claim_view_def)

section \<open>The permission check\<close>

definition hist_labelled :: "hist_candidate \<Rightarrow> bool" where
  "hist_labelled c \<longleftrightarrow> hc_label c = label_of (hc_payload c)"

definition hist_decision :: "scope \<Rightarrow> int \<Rightarrow> hist_candidate \<Rightarrow> permission_decision" where
  "hist_decision sc now_ms c = evaluate now_ms sc (node_acl (hc_payload c)) (Some now_ms)"

definition hist_verdict :: "scope \<Rightarrow> int \<Rightarrow> hist_candidate \<Rightarrow> string option" where
  "hist_verdict sc now_ms c = (if allowed (hist_decision sc now_ms c) then None
     else Some (reason_value (hist_decision sc now_ms c)))"

lemma check_hist_labelled:
  assumes "list_all hist_labelled cs"
  shows "check_hist sc now cs = Inr (dict_of (map (\<lambda>c. (hc_id c, hist_verdict sc now c)) cs),
     List.map_filter (\<lambda>c. map_option (\<lambda>r. \<lparr>dn_id = hc_id c, dn_reason = r\<rparr>) (hist_verdict sc now c)) cs)"
proof -
  have "map_e (\<lambda>c. bind_e (hist_node c) (\<lambda>node.
         let d = evaluate now sc (node_acl node) (Some now)
         in Inr (hc_id c, if allowed d then None else Some (reason_value d)))) cs =
      Inr (map (\<lambda>c. (hc_id c, hist_verdict sc now c)) cs)"
    using assms by (intro map_e_total) (auto simp: list_all_iff hist_labelled_def hist_node_def
        hist_verdict_def hist_decision_def Let_def)
  then show ?thesis by (simp add: check_hist_def List.map_filter_def comp_def filter_map o_def)
qed

lemma verdict_of_dict:
  assumes "distinct (map hc_id cs)" "c \<in> set cs"
  shows "verdict_of (dict_of (map (\<lambda>c. (hc_id c, hist_verdict sc now c)) cs)) (hc_id c) = hist_verdict sc now c"
proof -
  have "map_of (map (\<lambda>c. (hc_id c, hist_verdict sc now c)) cs) (hc_id c) = Some (hist_verdict sc now c)"
    using assms by (intro map_of_is_SomeI) (auto simp: comp_def)
  moreover have "distinct (map fst (map (\<lambda>c. (hc_id c, hist_verdict sc now c)) cs))"
    using assms(1) by (simp add: comp_def)
  ultimately show ?thesis by (simp add: verdict_of_def dict_of_distinct)
qed

section \<open>Assembling from claims that look alike\<close>

text \<open>Structure that is not content: the ids of the claims a claim supersedes and the id of the
  one it was reconciled into.\<close>

definition same_shape :: "(string \<Rightarrow> string option) \<Rightarrow> claim \<Rightarrow> claim \<Rightarrow> bool" where
  "same_shape v c d \<longleftrightarrow> claims.alike v c d \<and> supersedes c = supersedes d \<and> reconciled_into c = reconciled_into d"

lemma step_of_alike:
  assumes "claims.alike (verdict_of vs) c c'" "claims.alike (verdict_of vs) e e'"
  shows "step_of vs c e = step_of vs c' e'"
proof (cases "verdict_of vs (clm_id c) = None \<and> verdict_of vs (clm_id e) = None")
  case True
  then show ?thesis using claims.alike_visible [OF assms(1)] claims.alike_visible [OF assms(2)] by simp
next
  case False
  then show ?thesis
    using claims.alike_view [OF assms(1)] claims.alike_view [OF assms(2)]
      claims.alike_ident [OF assms(1)] claims.alike_ident [OF assms(2)]
    by (auto simp: step_of_def Let_def)
qed

definition claims_related :: "verdicts \<Rightarrow> (string \<times> claim) list \<Rightarrow> (string \<times> claim) list \<Rightarrow> bool" where
  "claims_related vs A B \<longleftrightarrow> list_all2 (\<lambda>(i, c) (j, d). i = j \<and> clm_id c = i \<and> same_shape (verdict_of vs) c d) A B
     \<and> distinct (map fst A)
     \<and> map clm_id (sort_key claim_order (map snd A)) = map clm_id (sort_key claim_order (map snd B))"

lemma related_fst: "claims_related vs A B \<Longrightarrow> map fst A = map fst B"
proof -
  assume "claims_related vs A B"
  then have "list_all2 (\<lambda>(i, c) (j, d). i = j \<and> clm_id c = i \<and> same_shape (verdict_of vs) c d) A B"
    by (simp add: claims_related_def)
  then show ?thesis by (induction rule: list_all2_induct) auto
qed

lemma related_lookup:
  assumes "claims_related vs A B"
  shows "rel_option (same_shape (verdict_of vs)) (map_of A i) (map_of B i)"
proof -
  have "list_all2 (\<lambda>(i, c) (j, d). i = j \<and> clm_id c = i \<and> same_shape (verdict_of vs) c d) A B"
    using assms by (simp add: claims_related_def)
  then show ?thesis by (induction rule: list_all2_induct) auto
qed

lemma related_ids:
  assumes "claims_related vs A B"
  shows "(i, c) \<in> set A \<Longrightarrow> clm_id c = i" "(i, c) \<in> set B \<Longrightarrow> clm_id c = i"
proof -
  have rel: "list_all2 (\<lambda>(i, c) (j, d). i = j \<and> clm_id c = i \<and> same_shape (verdict_of vs) c d) A B"
    using assms by (simp add: claims_related_def)
  show "(i, c) \<in> set A \<Longrightarrow> clm_id c = i"
    by (erule list_all2_left [OF rel]) auto
  show "(i, c) \<in> set B \<Longrightarrow> clm_id c = i"
    by (erule list_all2_right [OF rel]) (auto simp: same_shape_def dest: claims.alike_ident)
qed

lemma related_sorted:
  assumes "claims_related vs A B"
  shows "list_all2 (same_shape (verdict_of vs)) (sort_key claim_order (map snd A)) (sort_key claim_order (map snd B))"
proof -
  let ?a = "sort_key claim_order (map snd A)" and ?b = "sort_key claim_order (map snd B)"
  have ids: "map clm_id ?a = map clm_id ?b" using assms by (simp add: claims_related_def)
  then have len: "length ?a = length ?b" by (metis length_map)
  have "same_shape (verdict_of vs) (?a ! k) (?b ! k)" if k: "k < length ?a" for k
  proof -
    have id: "clm_id (?a ! k) = clm_id (?b ! k)" using ids k len by (metis nth_map)
    have "?a ! k \<in> set (map snd A)" "?b ! k \<in> set (map snd B)"
      using k len by (metis nth_mem set_sort)+
    then have mem: "(clm_id (?a ! k), ?a ! k) \<in> set A" "(clm_id (?a ! k), ?b ! k) \<in> set B"
      using related_ids [OF assms] id by auto
    have "distinct (map fst A)" "distinct (map fst B)"
      using assms related_fst [OF assms] by (simp_all add: claims_related_def)
    with mem have "map_of A (clm_id (?a ! k)) = Some (?a ! k)" "map_of B (clm_id (?a ! k)) = Some (?b ! k)"
      by (simp_all add: map_of_is_SomeI)
    with related_lookup [OF assms, of "clm_id (?a ! k)"] show ?thesis by simp
  qed
  with len show ?thesis by (simp add: list_all2_conv_all_nth)
qed

lemma same_shape_alike: "same_shape v c d \<Longrightarrow> claims.alike v c d"
  by (simp add: same_shape_def)

lemma concat_map_related:
  "list_all2 R xs ys \<Longrightarrow> (\<And>x y. R x y \<Longrightarrow> f x = g y) \<Longrightarrow> concat (map f xs) = concat (map g ys)"
  by (induction rule: list_all2_induct) auto

lemma related_steps:
  assumes "claims_related vs A B"
  shows "shift_steps vs A = shift_steps vs B"
  unfolding shift_steps_def
proof (rule concat_map_related [OF related_sorted [OF assms]])
  fix c d assume cd: "same_shape (verdict_of vs) c d"
  have "map_option (step_of vs c) (map_of A i) = map_option (step_of vs d) (map_of B i)" for i
    using related_lookup [OF assms, of i] step_of_alike [OF same_shape_alike [OF cd] same_shape_alike]
    by (cases rule: option.rel_cases) auto
  then show "List.map_filter (\<lambda>i. map_option (step_of vs c) (map_of A i)) (supersedes c) =
      List.map_filter (\<lambda>i. map_option (step_of vs d) (map_of B i)) (supersedes d)"
    using cd by (simp add: same_shape_def)
qed

lemma related_view:
  assumes "claims_related vs A B"
  shows "map_option (\<lambda>x. claim_view x (verdict_of vs i)) (map_of A i) =
     map_option (\<lambda>x. claim_view x (verdict_of vs i)) (map_of B i)"
  using related_lookup [OF assms, of i]
proof (cases rule: option.rel_cases)
  case (Some x y)
  then have "clm_id x = i" "clm_id y = i" using related_ids [OF assms] by (auto dest: map_of_SomeD)
  with Some claims.alike_view [OF same_shape_alike, of "verdict_of vs" x y] show ?thesis by simp
qed simp

lemma related_conflicts:
  assumes "claims_related vs A B"
  shows "shift_conflicts vs A edges = shift_conflicts vs B edges"
proof -
  have "(case (map_of A a, map_of A b) of
         (Some x, Some y) \<Rightarrow> Some (claim_view x (verdict_of vs a), claim_view y (verdict_of vs b)) | _ \<Rightarrow> None) =
      (case (map_of B a, map_of B b) of
         (Some x, Some y) \<Rightarrow> Some (claim_view x (verdict_of vs a), claim_view y (verdict_of vs b)) | _ \<Rightarrow> None)"
    for a b
    using related_view [OF assms, of a] related_view [OF assms, of b]
    by (cases "map_of A a"; cases "map_of A b"; cases "map_of B a"; cases "map_of B b") auto
  then show ?thesis by (simp only: shift_conflicts_def)
qed

lemma related_reconciliations:
  assumes "claims_related vs A B" "list_all2 (same_shape (verdict_of vs)) xs ys"
  shows "shift_reconciliations vs A xs = shift_reconciliations vs B ys"
  unfolding shift_reconciliations_def
proof (rule concat_map_related [OF assms(2)])
  fix c d assume cd: "same_shape (verdict_of vs) c d"
  have "(case map_of A i of Some x \<Rightarrow> Inr (claim_view x (verdict_of vs i)) | None \<Rightarrow> Inl i) =
      (case map_of B i of Some x \<Rightarrow> Inr (claim_view x (verdict_of vs i)) | None \<Rightarrow> Inl i)" for i
    using related_view [OF assms(1), of i] by (cases "map_of A i"; cases "map_of B i") auto
  then show "map (\<lambda>i. (claim_view c (verdict_of vs (clm_id c)),
         case map_of A i of Some x \<Rightarrow> Inr (claim_view x (verdict_of vs i)) | None \<Rightarrow> Inl i)) (nonempty (reconciled_into c)) =
      map (\<lambda>i. (claim_view d (verdict_of vs (clm_id d)),
         case map_of B i of Some x \<Rightarrow> Inr (claim_view x (verdict_of vs i)) | None \<Rightarrow> Inl i)) (nonempty (reconciled_into d))"
    using cd claims.alike_view [OF same_shape_alike [OF cd]] by (simp add: same_shape_def)
qed

lemma filter_shape:
  "list_all2 (same_shape v) xs ys \<Longrightarrow>
    list_all2 (same_shape v) (filter (\<lambda>c. P (clm_id c)) xs) (filter (\<lambda>c. P (clm_id c)) ys)"
proof (induction rule: list_all2_induct)
  case (Cons x xs y ys)
  have "clm_id x = clm_id y" by (rule claims.alike_ident [OF same_shape_alike [OF Cons.hyps(1)]])
  with Cons show ?case by simp
qed simp

lemma build_shift_related:
  assumes "claims_related vs A B"
  shows "build_shift i A vs denials edges hop_of = build_shift i B vs denials edges hop_of"
proof -
  let ?P = "\<lambda>c. map_of hop_of (clm_id c) \<noteq> None"
  have in_chain: "sort_key claim_order (map snd (filter (\<lambda>(i, c). map_of hop_of i \<noteq> None) X)) =
      filter ?P (sort_key claim_order (map snd X))" if ids: "\<And>i c. (i, c) \<in> set X \<Longrightarrow> clm_id c = i" for X
  proof -
    have "filter (\<lambda>(i, c). map_of hop_of i \<noteq> None) X = filter (?P \<circ> snd) X"
    proof (rule filter_cong [OF refl])
      fix p assume "p \<in> set X"
      then have "clm_id (snd p) = fst p" by (intro ids) simp
      then show "(case p of (i, c) \<Rightarrow> map_of hop_of i \<noteq> None) = (?P \<circ> snd) p"
        by (simp only: case_prod_beta comp_apply)
    qed
    then show ?thesis by (simp only: filter_map filter_sort)
  qed
  have ordered: "list_all2 (same_shape (verdict_of vs))
      (sort_key claim_order (map snd (filter (\<lambda>(i, c). map_of hop_of i \<noteq> None) A)))
      (sort_key claim_order (map snd (filter (\<lambda>(i, c). map_of hop_of i \<noteq> None) B)))"
    using filter_shape [OF related_sorted [OF assms], of "\<lambda>i. map_of hop_of i \<noteq> None"]
    by (simp only: in_chain [of A, OF related_ids(1) [OF assms]] in_chain [of B, OF related_ids(2) [OF assms]])
  then have chain: "map (\<lambda>c. claim_view c (verdict_of vs (clm_id c)))
      (sort_key claim_order (map snd (filter (\<lambda>(i, c). map_of hop_of i \<noteq> None) A))) =
      map (\<lambda>c. claim_view c (verdict_of vs (clm_id c)))
      (sort_key claim_order (map snd (filter (\<lambda>(i, c). map_of hop_of i \<noteq> None) B)))"
    by (intro claims.alike_views) (auto elim: list_all2_mono simp: same_shape_alike)
  note fsts = related_fst [OF assms]
  have len: "length A = length B" using arg_cong [OF fsts, of length] by simp
  then have empty: "(A = []) = (B = [])" by auto
  have "list_all (\<lambda>(i, c). verdict_of vs i \<noteq> None) X = list_all (\<lambda>i. verdict_of vs i \<noteq> None) (map fst X)"
    for X :: "(string \<times> claim) list"
    by (auto simp: list_all_iff)
  then have all: "list_all (\<lambda>(i, c). verdict_of vs i \<noteq> None) A = list_all (\<lambda>(i, c). verdict_of vs i \<noteq> None) B"
    using fsts by simp
  show ?thesis
    unfolding build_shift_def Let_def related_steps [OF assms] related_conflicts [OF assms]
      related_reconciliations [OF assms ordered] chain len empty all ..
qed

section \<open>Reads of claims\<close>

text \<open>A candidate of the walk: a row labelled \<open>Claim\<close> whose payload is a claim of that id.\<close>

definition claim_candidate :: "hist_candidate \<Rightarrow> bool" where
  "claim_candidate c \<longleftrightarrow> hc_label c = ''Claim'' \<and>
     (case hc_payload c of ClaimN cl \<Rightarrow> clm_id cl = hc_id c | _ \<Rightarrow> False)"

definition claims_in :: "hist_candidate list \<Rightarrow> (string \<times> claim) list" where
  "claims_in cs = List.map_filter (\<lambda>c. case hc_payload c of ClaimN cl \<Rightarrow> Some (hc_id c, cl) | _ \<Rightarrow> None) cs"

lemma claim_candidateE:
  assumes "claim_candidate c"
  obtains cl where "hc_payload c = ClaimN cl" "clm_id cl = hc_id c" "hc_label c = ''Claim''"
  using assms by (auto simp: claim_candidate_def split: memory_node.splits)

lemma claims_in_Nil [simp]: "claims_in [] = []"
  by (simp add: claims_in_def)

lemma claims_in_Cons [simp]: "claims_in (c # cs) =
    (case hc_payload c of ClaimN cl \<Rightarrow> [(hc_id c, cl)] | _ \<Rightarrow> []) @ claims_in cs"
  by (simp add: claims_in_def split: memory_node.splits)

lemma map_e_claims:
  "list_all claim_candidate cs \<Longrightarrow> map_e stored_claim_of cs = Inr (claims_in cs) \<and> map fst (claims_in cs) = map hc_id cs"
proof (induction cs)
  case (Cons c cs)
  then obtain cl where "hc_payload c = ClaimN cl" "clm_id cl = hc_id c" "hc_label c = ''Claim''"
    by (auto elim: claim_candidateE)
  with Cons show ?case by (simp add: stored_claim_of_def hist_node_def)
qed simp

lemma candidate_labelled: "list_all claim_candidate cs \<Longrightarrow> list_all hist_labelled cs"
  by (auto simp: list_all_iff hist_labelled_def elim!: claim_candidateE)

lemma claims_in_mem:
  assumes "list_all claim_candidate cs" "(i, cl) \<in> set (claims_in cs)"
  shows "\<exists>c \<in> set cs. hc_id c = i \<and> hc_payload c = ClaimN cl \<and> clm_id cl = i"
  using assms by (induction cs) (auto elim!: claim_candidateE)

definition verdicts_on :: "scope \<Rightarrow> int \<Rightarrow> hist_candidate list \<Rightarrow> verdicts" where
  "verdicts_on sc now cs = map (\<lambda>c. (hc_id c, hist_verdict sc now c)) cs"

definition denials_on :: "scope \<Rightarrow> int \<Rightarrow> hist_candidate list \<Rightarrow> denial list" where
  "denials_on sc now cs = List.map_filter
     (\<lambda>c. map_option (\<lambda>r. \<lparr>dn_id = hc_id c, dn_reason = r\<rparr>) (hist_verdict sc now c)) cs"

lemma verdict_on:
  assumes "distinct (map hc_id cs)" "c \<in> set cs"
  shows "verdict_of (verdicts_on sc now cs) (hc_id c) = hist_verdict sc now c"
  using verdict_of_dict [OF assms, of sc now] assms(1) by (simp add: verdicts_on_def dict_of_distinct comp_def)

lemma answer_shift_eq:
  assumes "list_all claim_candidate (wk_candidates w)" "distinct (map hc_id (wk_candidates w))"
  shows "answer_shift i sc now w = Inr (build_shift i (claims_in (wk_candidates w))
     (verdicts_on sc now (wk_candidates w)) (denials_on sc now (wk_candidates w)) (wk_edges w) (wk_hop_of w))"
  using check_hist_labelled [OF candidate_labelled [OF assms(1)]] map_e_claims [OF assms(1)] assms(2)
  by (simp add: answer_shift_def assemble_shift_def verdicts_on_def denials_on_def dict_of_distinct comp_def)

section \<open>Every view comes from a claim of the walk\<close>

definition step_views :: "shift_step \<Rightarrow> claim_view list" where
  "step_views sp = [sp_superseding sp, sp_superseded sp]"

definition shift_views :: "shift_history \<Rightarrow> claim_view list" where
  "shift_views h = sh_chain h @ concat (map step_views (sh_steps h))
     @ concat (map (\<lambda>(x, y). [x, y]) (sh_conflicts h))
     @ concat (map (\<lambda>(x, y). x # (case y of Inr v \<Rightarrow> [v] | Inl i \<Rightarrow> [])) (sh_reconciliations h))"

definition viewed :: "verdicts \<Rightarrow> (string \<times> claim) list \<Rightarrow> claim_view \<Rightarrow> bool" where
  "viewed vs A v \<longleftrightarrow> (\<exists>(i, c) \<in> set A. v = claim_view c (verdict_of vs i))"

lemma viewedI: "(i, c) \<in> set A \<Longrightarrow> viewed vs A (claim_view c (verdict_of vs i))"
  by (auto simp: viewed_def)

lemma map_filter_mem: "y \<in> set (List.map_filter f xs) \<longleftrightarrow> (\<exists>x \<in> set xs. f x = Some y)"
  by (induction xs) (auto split: option.splits)

lemma step_views_viewed:
  assumes ids: "\<And>i c. (i, c) \<in> set A \<Longrightarrow> clm_id c = i"
    and "sp \<in> set (shift_steps vs A)" "v \<in> set (step_views sp)"
  shows "viewed vs A v"
proof -
  from assms(2) obtain c i e where c: "c \<in> snd ` set A" and e: "map_of A i = Some e" and sp: "sp = step_of vs c e"
    by (auto simp: shift_steps_def map_filter_mem)
  from c obtain j where j: "(j, c) \<in> set A" by force
  have "(i, e) \<in> set A" using e by (rule map_of_SomeD)
  with j show ?thesis
    using assms(3) ids [OF j] ids [of i e] viewedI [of _ _ A vs]
    by (auto simp: sp step_views_def step_of_def Let_def)
qed

lemma shift_views_viewed:
  assumes ids: "\<And>i c. (i, c) \<in> set A \<Longrightarrow> clm_id c = i"
    and "v \<in> set (shift_views (build_shift i A vs dn es hop))"
  shows "viewed vs A v"
proof -
  have own: "viewed vs A (claim_view c (verdict_of vs (clm_id c)))" if c: "(j, c) \<in> set A" for j c
    using viewedI [OF c] ids [OF c] by simp
  have found: "viewed vs A (claim_view c (verdict_of vs j))" if "map_of A j = Some c" for j c
    by (rule viewedI) (rule map_of_SomeD [OF that])
  show ?thesis
    using assms(2) step_views_viewed [where A = A, OF ids]
    by (auto simp: build_shift_def Let_def shift_views_def shift_conflicts_def shift_reconciliations_def
        map_filter_mem own found split: if_splits option.splits sum.splits)
qed

section \<open>What the walk finds\<close>

definition owner_rows :: "graph \<Rightarrow> string \<Rightarrow> gnode set" where
  "owner_rows G owner = {n \<in> set (gnodes G). g_owner_id n = owner}"

lemma chain_rows:
  assumes "store_ok G" "s \<in> set (supersession_chain G owner i h)"
  shows "s \<in> hydrate ` owner_rows G owner"
proof -
  from assms(2) obtain n where n: "n \<in> set (gnodes G)" "gkey n \<in> set (chain_found G owner i h)" "s = hydrate n"
    by (auto simp: supersession_chain_found simp del: gkey_eq)
  have "g_owner_id n = owner" by (rule owned_row [OF assms(1) chain_found_owned [OF n(2)] n(1)])
  with n show ?thesis by (auto simp: owner_rows_def)
qed

lemma chain_label:
  assumes "s \<in> set (supersession_chain G owner i h)"
  shows "st_label s = ''Claim''"
proof -
  from assms obtain n where n: "gkey n \<in> set (chain_found G owner i h)" "s = hydrate n"
    by (auto simp: supersession_chain_found simp del: gkey_eq)
  from n(1) have "fst (gkey n) = ''Claim''"
    by (auto simp: chain_found_def chain_keys_def is_claim_row_key simp del: gkey_eq split: if_split_asm)
  with n(2) show ?thesis by (simp add: gkey_def hydrate_def)
qed

lemma hydrated_claims_distinct:
  assumes "distinct (map gkey ns)"
  shows "distinct (map st_id (filter (\<lambda>s. st_label s = l) (map hydrate ns)))"
  using assms
proof (induction ns)
  case (Cons n ns)
  have "g_id n \<notin> st_id ` {s \<in> hydrate ` set ns. st_label s = l}" if "g_label n = l"
  proof
    assume "g_id n \<in> st_id ` {s \<in> hydrate ` set ns. st_label s = l}"
    then obtain m where "m \<in> set ns" "gkey m = gkey n"
      using \<open>g_label n = l\<close> by (auto simp: hydrate_def gkey_def)
    with Cons.prems show False by (metis (no_types) distinct.simps(2) list.simps(9) image_eqI set_map)
  qed
  with Cons show ?case by (auto simp: hydrate_def)
qed simp

lemma distinct_keys_filter: "distinct (keys G) \<Longrightarrow> distinct (map gkey (filter P (gnodes G)))"
  by (simp add: keys_def distinct_map_filter)

lemma chain_ids_distinct:
  assumes "store_ok G"
  shows "distinct (map st_id (supersession_chain G owner i h))"
proof -
  let ?ns = "sort_key chain_order (filter (\<lambda>n. gkey n \<in> set (chain_found G owner i h)) (gnodes G))"
  have "distinct (map gkey ?ns)"
    using distinct_keys_filter [OF store_okD(1) [OF assms], of "\<lambda>n. gkey n \<in> set (chain_found G owner i h)"]
    by (simp add: distinct_map del: gkey_eq)
  from hydrated_claims_distinct [OF this, of "''Claim''"]
  have "distinct (map st_id (filter (\<lambda>s. st_label s = ''Claim'') (supersession_chain G owner i h)))"
    by (simp only: supersession_chain_found)
  moreover have "filter (\<lambda>s. st_label s = ''Claim'') (supersession_chain G owner i h) = supersession_chain G owner i h"
    using chain_label by (auto simp: filter_id_conv)
  ultimately show ?thesis by (simp only:)
qed

lemma many_rows: "s \<in> set (get_many G owner ids) \<Longrightarrow> s \<in> hydrate ` owner_rows G owner \<and> st_id s \<in> set ids"
  by (auto simp: get_many_def owner_rows_def hydrate_def)

lemma many_ids_distinct:
  assumes "store_ok G"
  shows "distinct (map st_id (filter (\<lambda>s. st_label s = l) (get_many G owner ids)))"
  unfolding get_many_def by (rule hydrated_claims_distinct [OF distinct_keys_filter [OF store_okD(1) [OF assms]]])

lemma hist_claim_row:
  assumes "store_ok G" "n \<in> owner_rows G owner" "g_label n = ''Claim''"
  shows "claim_candidate (hist_candidate_of (hydrate n))"
  using assms store_okD(2) [OF assms(1), of n]
  by (cases "g_payload n")
    (auto simp: owner_rows_def row_ok_def claim_candidate_def hist_candidate_of_def hydrate_def)

lemma walk_shift_found:
  obtains extra where "wk_candidates (walk_shift G owner i) =
      map hist_candidate_of (filter (\<lambda>s. st_label s = ''Claim'') (supersession_chain G owner i 24 @ get_many G owner extra))"
    "set extra \<inter> set (map st_id (supersession_chain G owner i 24)) = {}"
proof -
  let ?chain = "supersession_chain G owner i 24"
  let ?extra = "sorted_set (filter (\<lambda>j. j \<notin> set (map st_id ?chain)) (reconciled_ids ?chain
     @ concat (map (\<lambda>(a, b). [a, b]) (if map st_id ?chain \<noteq> [] then conflict_links G owner (map st_id ?chain) else []))))"
  have none: "get_many G owner [] = []" by (simp add: get_many_def)
  show ?thesis
  proof (rule that [of ?extra])
    show "set ?extra \<inter> set (map st_id ?chain) = {}" by auto
    show "wk_candidates (walk_shift G owner i) =
      map hist_candidate_of (filter (\<lambda>s. st_label s = ''Claim'') (?chain @ get_many G owner ?extra))"
      by (simp add: walk_shift_def Let_def none sorted_set_def)
  qed
qed

lemma walk_shift_candidates:
  assumes "store_ok G"
  shows "c \<in> set (wk_candidates (walk_shift G owner i)) \<Longrightarrow>
      \<exists>n \<in> owner_rows G owner. g_label n = ''Claim'' \<and> c = hist_candidate_of (hydrate n)" (is "?mem \<Longrightarrow> _")
    and "list_all claim_candidate (wk_candidates (walk_shift G owner i))"
    and "distinct (map hc_id (wk_candidates (walk_shift G owner i)))"
proof -
  obtain extra where w: "wk_candidates (walk_shift G owner i) =
      map hist_candidate_of (filter (\<lambda>s. st_label s = ''Claim'') (supersession_chain G owner i 24 @ get_many G owner extra))"
    and new: "set extra \<inter> set (map st_id (supersession_chain G owner i 24)) = {}"
    by (rule walk_shift_found)
  have row: "\<exists>n \<in> owner_rows G owner. g_label n = ''Claim'' \<and> c = hist_candidate_of (hydrate n)"
    if c: "c \<in> set (wk_candidates (walk_shift G owner i))" for c
  proof -
    from c obtain s where s: "s \<in> set (supersession_chain G owner i 24) \<union> set (get_many G owner extra)"
      "st_label s = ''Claim''" "c = hist_candidate_of s" by (auto simp: w)
    then have "s \<in> hydrate ` owner_rows G owner" using chain_rows [OF assms] many_rows by blast
    with s show ?thesis by (auto simp: hydrate_def)
  qed
  then show "?mem \<Longrightarrow> \<exists>n \<in> owner_rows G owner. g_label n = ''Claim'' \<and> c = hist_candidate_of (hydrate n)" .
  show "list_all claim_candidate (wk_candidates (walk_shift G owner i))"
    using row hist_claim_row [OF assms] unfolding list_all_iff by blast
  have "map hc_id (wk_candidates (walk_shift G owner i)) =
      map st_id (filter (\<lambda>s. st_label s = ''Claim'') (supersession_chain G owner i 24 @ get_many G owner extra))"
    by (simp add: w hist_candidate_of_def comp_def)
  also have "distinct \<dots>"
  proof -
    let ?many = "filter (\<lambda>s. st_label s = ''Claim'') (get_many G owner extra)"
    have "set (map st_id ?many) \<subseteq> set extra" using many_rows by fastforce
    then have "set (map st_id (supersession_chain G owner i 24)) \<inter> set (map st_id ?many) = {}" using new by blast
    moreover have "distinct (map st_id (filter (\<lambda>s. st_label s = ''Claim'') (supersession_chain G owner i 24)))"
      by (rule distinct_map_filter [OF chain_ids_distinct [OF assms]])
    ultimately show ?thesis using many_ids_distinct [OF assms, of "''Claim''" owner extra]
      by (auto simp only: filter_append map_append distinct_append set_map set_filter)
  qed
  finally show "distinct (map hc_id (wk_candidates (walk_shift G owner i)))" .
qed

section \<open>Two runs\<close>

text \<open>Two candidates that a reader of the answer may not tell apart: equal, or denied for the
  same reason and alike in id, time and links.\<close>

definition hist_alike :: "scope \<Rightarrow> int \<Rightarrow> hist_candidate \<Rightarrow> hist_candidate \<Rightarrow> bool" where
  "hist_alike sc now c d \<longleftrightarrow> c = d \<or>
     hc_id c = hc_id d \<and> \<not> allowed (hist_decision sc now c) \<and> hist_decision sc now c = hist_decision sc now d
     \<and> (case (hc_payload c, hc_payload d) of
          (ClaimN a, ClaimN b) \<Rightarrow> asserted_at_ms a = asserted_at_ms b \<and> supersedes a = supersedes b
             \<and> reconciled_into a = reconciled_into b
        | _ \<Rightarrow> False)"

lemma hist_alike_id: "hist_alike sc now c d \<Longrightarrow> hc_id c = hc_id d"
  by (auto simp: hist_alike_def)

lemma hist_alike_verdict: "hist_alike sc now c d \<Longrightarrow> hist_verdict sc now c = hist_verdict sc now d"
  by (auto simp: hist_alike_def hist_verdict_def)

lemma alike_lists:
  assumes "list_all2 (hist_alike sc now) cs ds"
  shows "map hc_id cs = map hc_id ds" "verdicts_on sc now cs = verdicts_on sc now ds"
    "denials_on sc now cs = denials_on sc now ds"
  using assms
  by (induction rule: list_all2_induct)
    (simp_all add: verdicts_on_def denials_on_def hist_alike_id hist_alike_verdict split: option.split)

lemma map_sort_key: "map f (sort_key f xs) = sort (map f xs)"
  by (rule properties_for_sort [symmetric]) simp_all

definition alike_pair :: "verdicts \<Rightarrow> string \<times> claim \<Rightarrow> string \<times> claim \<Rightarrow> bool" where
  "alike_pair vs p q \<longleftrightarrow> fst p = fst q \<and> clm_id (snd p) = fst p \<and> same_shape (verdict_of vs) (snd p) (snd q)
     \<and> claim_order (snd p) = claim_order (snd q)"

lemma alike_claims_in:
  assumes "list_all2 (hist_alike sc now) cs ds" "list_all claim_candidate cs" "list_all claim_candidate ds"
    and "\<And>c. c \<in> set cs \<Longrightarrow> verdict_of vs (hc_id c) = hist_verdict sc now c"
  shows "list_all2 (alike_pair vs) (claims_in cs) (claims_in ds)"
  using assms
proof (induction rule: list_all2_induct)
  case (Cons c cs d ds)
  from Cons.prems obtain a where a: "hc_payload c = ClaimN a" "clm_id a = hc_id c" by (auto elim: claim_candidateE)
  from Cons.prems obtain b where b: "hc_payload d = ClaimN b" "clm_id b = hc_id d" by (auto elim: claim_candidateE)
  have "alike_pair vs (hc_id c, a) (hc_id d, b)"
    using Cons.hyps(1) Cons.prems(3) [of c] a b
    by (auto simp: hist_alike_def alike_pair_def same_shape_def claims.alike_def claim_order_def hist_verdict_def)
  with Cons a b show ?case by simp
qed (simp add: claims_in_def)

lemma alike_related:
  assumes "list_all2 (alike_pair vs) A B" "distinct (map fst A)"
  shows "claims_related vs A B"
proof -
  have order: "map (claim_order \<circ> snd) A = map (claim_order \<circ> snd) B"
    using assms(1) by (induction rule: list_all2_induct) (auto simp: alike_pair_def)
  have ids: "map clm_id (sort_key claim_order xs) = map snd (sort (map claim_order xs))" for xs
    unfolding map_sort_key [symmetric] by (simp add: claim_order_def comp_def)
  have "map clm_id (sort_key claim_order (map snd A)) = map clm_id (sort_key claim_order (map snd B))"
    by (simp only: ids map_map order)
  moreover have "list_all2 (\<lambda>(i, c) (j, d). i = j \<and> clm_id c = i \<and> same_shape (verdict_of vs) c d) A B"
    using assms(1) by (rule list_all2_mono) (auto simp: alike_pair_def)
  ultimately show ?thesis using assms(2) by (simp add: claims_related_def)
qed

section \<open>Properties\<close>

text \<open>A claim the grant denies does not shape the answer about a shift beyond its id, its
  reason and its place in the history: two runs whose denied claims agree on id, time and
  links, and on nothing else (statement, status, provenance, entities, commitment), give the
  same chain, steps, evidence, conflicts, reconciliations and text.\<close>

theorem shift_hides_denied:
  assumes "list_all claim_candidate (wk_candidates w)" "list_all claim_candidate ds"
    and "distinct (map hc_id (wk_candidates w))"
    and "list_all2 (hist_alike sc now) (wk_candidates w) ds"
  shows "answer_shift i sc now (w\<lparr>wk_candidates := ds\<rparr>) = answer_shift i sc now w"
proof -
  let ?cs = "wk_candidates w" and ?vs = "verdicts_on sc now (wk_candidates w)"
  note same = alike_lists [OF assms(4)]
  have "list_all2 (alike_pair ?vs) (claims_in ?cs) (claims_in ds)"
    by (rule alike_claims_in [OF assms(4,1,2)]) (rule verdict_on [OF assms(3)])
  then have "claims_related ?vs (claims_in ?cs) (claims_in ds)"
    by (rule alike_related) (simp add: map_e_claims [OF assms(1)] assms(3))
  moreover have "distinct (map hc_id ds)" using assms(3) same(1) by simp
  ultimately show ?thesis
    using assms build_shift_related [of ?vs "claims_in ?cs" "claims_in ds"] same
    by (simp add: answer_shift_eq)
qed

lemma permitted_row:
  assumes "hist_verdict sc now (hist_candidate_of (hydrate n)) = None"
  shows "permits now sc (node_acl (g_payload n)) (Some now)"
  using assms by (simp add: hist_verdict_def hist_decision_def hist_candidate_of_def hydrate_def permits_def
      split: if_splits)

text \<open>A view of a claim the walk found: a stored claim of the owner that the grant permits, or a
  denial on the list.\<close>

lemma walk_view_grounded:
  fixes G sc now i
  defines "cs \<equiv> wk_candidates (walk_shift G (scope_owner_id sc) i)"
  assumes "store_ok G" "viewed (verdicts_on sc now cs) (claims_in cs) v"
  shows "case v of
      ClaimShown j txt state t srcs com \<Rightarrow> \<exists>n \<in> set (gnodes G). g_label n = ''Claim'' \<and> g_id n = j
        \<and> g_owner_id n = scope_owner_id sc \<and> permits now sc (node_acl (g_payload n)) (Some now)
    | ClaimWithheld j why \<Rightarrow> \<exists>d \<in> set (denials_on sc now cs). dn_id d = j \<and> dn_reason d = why"
proof -
  note cands = walk_shift_candidates [where owner = "scope_owner_id sc" and i = i, OF assms(2), folded cs_def]
  obtain j c where c: "(j, c) \<in> set (claims_in cs)" "v = claim_view c (verdict_of (verdicts_on sc now cs) j)"
    using assms(3) by (auto simp: viewed_def)
  obtain k where k: "k \<in> set cs" "hc_id k = j" "hc_payload k = ClaimN c" "clm_id c = j"
    using claims_in_mem [OF cands(2) c(1)] by blast
  have verdict: "verdict_of (verdicts_on sc now cs) j = hist_verdict sc now k"
    using verdict_on [OF cands(3) k(1)] k(2) by simp
  obtain n where n: "n \<in> owner_rows G (scope_owner_id sc)" "g_label n = ''Claim''" "k = hist_candidate_of (hydrate n)"
    using cands(1) [OF k(1)] by blast
  show ?thesis
  proof (cases "hist_verdict sc now k")
    case None
    have "g_id n = j" using k(2) by (simp add: n(3) hist_candidate_of_def hydrate_def)
    with permitted_row [OF None [unfolded n(3)]] n(1,2) None k(4) show ?thesis
      by (auto simp: c(2) verdict claim_view_def owner_rows_def)
  next
    case (Some why)
    then have mem: "\<lparr>dn_id = j, dn_reason = why\<rparr> \<in> set (denials_on sc now cs)"
      using k(1,2) by (auto simp: denials_on_def map_filter_mem)
    have "\<exists>d \<in> set (denials_on sc now cs). dn_id d = j \<and> dn_reason d = why" by (rule bexI [OF _ mem]) simp
    with k(4) show ?thesis by (auto simp: c(2) verdict Some claim_view_def)
  qed
qed

text \<open>C19: the shift read answers under the grant alone: on a well-formed store it returns
  whenever the gateway introspects the token. Every claim it shows is a stored claim of the
  owner the gateway named that the grant permits now, and every claim it withholds is listed
  among the denials with the same reason.\<close>

theorem shift_under_grant:
  assumes "store_ok G"
    and "introspect_scope (rt_fmt rt) (rt_validate_scope rt) (rt_http rt) (rt_gateway rt) token = Inr sc"
  shows "\<exists>h. why_did_this_shift rt G now i token = Inr h \<and>
     list_all (\<lambda>v. case v of
         ClaimShown j txt state t srcs com \<Rightarrow> list_ex (\<lambda>n. g_label n = ''Claim'' \<and> g_id n = j
           \<and> g_owner_id n = scope_owner_id sc \<and> permits now sc (node_acl (g_payload n)) (Some now)) (gnodes G)
       | ClaimWithheld j why \<Rightarrow> list_ex (\<lambda>d. dn_id d = j \<and> dn_reason d = why) (sh_denied h)) (shift_views h)"
proof -
  let ?w = "walk_shift G (scope_owner_id sc) i"
  let ?cs = "wk_candidates ?w"
  let ?A = "claims_in ?cs" and ?vs = "verdicts_on sc now ?cs" and ?dn = "denials_on sc now ?cs"
  note cands = walk_shift_candidates [where owner = "scope_owner_id sc" and i = i, OF assms(1)]
  define h where "h = build_shift i ?A ?vs ?dn (wk_edges ?w) (wk_hop_of ?w)"
  have run: "why_did_this_shift rt G now i token = Inr h"
    by (simp add: why_did_this_shift_def authorize_def assms(2) answer_shift_eq [OF cands(2,3)] h_def)
  have ids: "clm_id c = j" if "(j, c) \<in> set ?A" for j c
    using claims_in_mem [OF cands(2) that] by blast
  have denied: "sh_denied h = ?dn" if "v \<in> set (shift_views h)" for v
    using that by (auto simp: h_def build_shift_def shift_views_def Let_def split: if_splits)
  have "viewed ?vs ?A v" if "v \<in> set (shift_views h)" for v
    using shift_views_viewed [where A = ?A, OF ids] that by (simp add: h_def)
  note grounded = walk_view_grounded [OF assms(1) this]
  have "case v of
         ClaimShown j txt state t srcs com \<Rightarrow> list_ex (\<lambda>n. g_label n = ''Claim'' \<and> g_id n = j
           \<and> g_owner_id n = scope_owner_id sc \<and> permits now sc (node_acl (g_payload n)) (Some now)) (gnodes G)
       | ClaimWithheld j why \<Rightarrow> list_ex (\<lambda>d. dn_id d = j \<and> dn_reason d = why) (sh_denied h)"
    if "v \<in> set (shift_views h)" for v
    using grounded [OF that] unfolding denied [OF that] list_ex_iff .
  with run show ?thesis unfolding list_all_iff by blast
qed

text \<open>C31: the history of a decision is the same from every claim of it: for two claims tied by
  the owner's \<open>SUPERSEDES\<close> links, in a run of at most 25 claims, the two reads give the same
  chain, steps, conflicts, reconciliations, denials and count. They also depend on the
  owner's subgraph alone.\<close>

theorem shift_same_history:
  assumes "store_ok G" "owned G (scope_owner_id sc) (''Claim'', i)"
    and "card (run_of G (scope_owner_id sc) i) \<le> 25" "(''Claim'', j) \<in> run_of G (scope_owner_id sc) i"
    and "store_ok G'" "restrict (scope_owner_id sc) G = restrict (scope_owner_id sc) G'"
  shows "answer_shift k sc now (walk_shift G' (scope_owner_id sc) j) =
     answer_shift k sc now (walk_shift G (scope_owner_id sc) i)"
proof -
  let ?o = "scope_owner_id sc"
  have j: "owned G ?o (''Claim'', j)" by (rule run_of_owned [OF assms(2,4)])
  have run: "run_of G ?o j = run_of G ?o i" by (rule run_of_same [OF assms(4) refl])
  have few: "card (run_of G ?o i) \<le> Suc 24" "card (run_of G ?o j) \<le> Suc 24" using assms(3) run by simp_all
  have "supersession_chain G ?o j 24 = supersession_chain G ?o i 24"
    by (simp only: supersession_chain_run [OF assms(1,2) few(1)] supersession_chain_run [OF assms(1) j few(2)] run)
  then have "walk_shift G ?o j = walk_shift G ?o i" by (simp only: walk_shift_def)
  moreover have "walk_shift G' ?o j = walk_shift G ?o j"
    by (simp only: walk_shift_def chain_read.same_subgraph [OF assms(1,5,6)]
        conflict_read.same_subgraph [OF assms(1,5,6)] get_many_read.same_subgraph [OF assms(1,5,6)])
  ultimately show ?thesis by simp
qed

section \<open>Concrete reads\<close>

definition hidden_claim :: "string \<Rightarrow> claim" where
  "hidden_claim txt = sample_claim\<lparr>clm_id := ''clm_9'', clm_statement := txt,
     clm_acl := sample_acl\<lparr>acl_sources := [''chatgpt'']\<rparr>\<rparr>"

definition hidden_hist :: "string \<Rightarrow> hist_candidate" where
  "hidden_hist txt = \<lparr>hc_id = ''clm_9'', hc_label = ''Claim'', hc_payload = ClaimN (hidden_claim txt)\<rparr>"

definition visible_hist :: hist_candidate where
  "visible_hist = \<lparr>hc_id = ''clm_1'', hc_label = ''Claim'',
     hc_payload = ClaimN (sample_claim\<lparr>supersedes := [''clm_9'']\<rparr>)\<rparr>"

definition sample_walk :: "string \<Rightarrow> walked" where
  "sample_walk txt = \<lparr>wk_candidates = [hidden_hist txt, visible_hist],
     wk_edges = [], wk_hop_of = [(''clm_9'', 0), (''clm_1'', 0)]\<rparr>"

lemma hidden_denied: "hist_decision sample_scope 3 (hidden_hist txt) = deny SourceNotInScope"
  by (simp add: hist_decision_def evaluate_def hidden_hist_def hidden_claim_def sample_scope_def sample_acl_def
      sample_claim_def allowed_def)

theorem shift_hides_denied_witness:
  "answer_shift ''clm_1'' sample_scope 3 (sample_walk ''x'') =
   answer_shift ''clm_1'' sample_scope 3 (sample_walk ''something else'')"
proof -
  let ?w = "sample_walk ''something else''" and ?ds = "wk_candidates (sample_walk ''x'')"
  have alike: "hist_alike sample_scope 3 (hidden_hist ''something else'') (hidden_hist ''x'')"
    unfolding hist_alike_def hidden_denied by (simp add: hidden_hist_def hidden_claim_def)
  have "answer_shift ''clm_1'' sample_scope 3 (?w\<lparr>wk_candidates := ?ds\<rparr>) = answer_shift ''clm_1'' sample_scope 3 ?w"
  proof (rule shift_hides_denied)
    show "list_all claim_candidate (wk_candidates ?w)" "list_all claim_candidate ?ds"
      "distinct (map hc_id (wk_candidates ?w))"
      by (simp_all add: sample_walk_def claim_candidate_def hidden_hist_def visible_hist_def hidden_claim_def sample_claim_def)
    show "list_all2 (hist_alike sample_scope 3) (wk_candidates ?w) ?ds"
      using alike by (simp add: sample_walk_def) (simp add: hist_alike_def)
  qed
  then show ?thesis by (simp add: sample_walk_def)
qed

lemma query_runtime_grant:
  "introspect_scope (rt_fmt query_runtime) (rt_validate_scope query_runtime) (rt_http query_runtime)
      (rt_gateway query_runtime) ''tok'' = Inr sample_scope"
  by (simp add: query_runtime_def introspect_scope_def http_post_def sample_grant_server_def unwrap_def json_item_def)

theorem shift_under_grant_witness:
  "\<exists>h. why_did_this_shift query_runtime run_graph 3 ''clm_1'' ''tok'' = Inr h"
  using shift_under_grant [OF run_graph_ok query_runtime_grant] by blast

theorem shift_same_history_witness:
  "answer_shift ''clm_1'' sample_scope 3 (walk_shift (upsert (ClaimN other_claim) [] run_graph) ''o'' ''clm_3'') =
   answer_shift ''clm_1'' sample_scope 3 (walk_shift run_graph ''o'' ''clm_1'')"
proof -
  let ?G' = "upsert (ClaimN other_claim) [] run_graph"
  have o: "scope_owner_id sample_scope = ''o''" by (simp add: sample_scope_def)
  have "\<not> owned run_graph ''o'' (''Claim'', ''clm_2'')" by code_simp
  then have "restrict ''o'' run_graph = restrict ''o'' ?G'"
    by (intro restrict_upsert_other [symmetric] run_graph_ok) (simp_all add: other_claim_def)
  then show ?thesis
    using shift_same_history [of run_graph sample_scope "''clm_1''" "''clm_3''" ?G' "''clm_1''" 3]
      run_graph_ok upsert_ok [OF run_graph_ok] run_graph_owned
    by (simp add: o run_graph_run)
qed

end
