(* ===== verification/Context.thy ===== *)
theory Context
  imports Shift_Props
begin

text \<open>
  The part of \<open>graphs/history.py\<close> that reads a context chain: the objects joined to one object
  by \<open>CITES\<close> links within some hops, nearest first, with the connectors they come from. An
  object the grant does not cover is an id, its hops and the reason. \<open>_authorize\<close>,
  \<open>_check_permissions\<close> and \<open>_node_of\<close> are those of the shift read.
\<close>

section \<open>Views\<close>

record source_view =
  sv_connector :: string
  sv_external_id :: string
  sv_url :: "string option"
  sv_occurred_at_ms :: int
  sv_ingested_at_ms :: int

definition source_view_of :: "event \<Rightarrow> source_view" where
  "source_view_of e = \<lparr>sv_connector = sr_connector (evt_source e), sv_external_id = sr_external_id (evt_source e),
     sv_url = sr_url (evt_source e), sv_occurred_at_ms = sr_occurred_at_ms (evt_source e),
     sv_ingested_at_ms = sr_ingested_at_ms (evt_source e)\<rparr>"

datatype node_body =
    EventBody string source_view
  | ClaimBody string string
  | EntityBody string

datatype node_view =
    NodeWithheld string nat string
  | NodeShown string string nat "string list" node_body

fun body_view :: "memory_node \<Rightarrow> node_body" where
  "body_view (EventN e) = EventBody (summary e) (source_view_of e)"
| "body_view (ClaimN c) = ClaimBody (clm_statement c) (status_value (status c))"
| "body_view (EntityN e) = EntityBody (ent_name e)"

definition node_view :: "memory_node \<Rightarrow> nat \<Rightarrow> string option \<Rightarrow> node_view" where
  "node_view n hops denied = (case denied of
      Some why \<Rightarrow> NodeWithheld (node_id n) hops why
    | None \<Rightarrow> NodeShown (node_id n) (label_of n) hops (acl_sources (node_acl n)) (body_view n))"

fun view_hops :: "node_view \<Rightarrow> nat" where
  "view_hops (NodeWithheld i h why) = h"
| "view_hops (NodeShown i l h srcs b) = h"

fun view_id :: "node_view \<Rightarrow> string" where
  "view_id (NodeWithheld i h why) = i"
| "view_id (NodeShown i l h srcs b) = i"

fun view_sources :: "node_view \<Rightarrow> string list" where
  "view_sources (NodeWithheld i h why) = []"
| "view_sources (NodeShown i l h srcs b) = srcs"

section \<open>Text\<close>

text \<open>\<open>view.get("summary") or view.get("statement") or view.get("name") or ""\<close>, and the connector.\<close>

fun body_label :: "node_body \<Rightarrow> string" where
  "body_label (EventBody s sv) = s"
| "body_label (ClaimBody s st) = s"
| "body_label (EntityBody n) = n"

fun body_source :: "node_body \<Rightarrow> string list \<Rightarrow> string" where
  "body_source (EventBody s sv) srcs = (if sv_connector sv \<noteq> [] then sv_connector sv else py_join '','' srcs)"
| "body_source (ClaimBody s st) srcs = py_join '','' srcs"
| "body_source (EntityBody n) srcs = py_join '','' srcs"

fun context_line :: "node_view \<Rightarrow> string" where
  "context_line (NodeWithheld i h why) =
     ''- ['' @ str_of_nat h @ '' hop] withheld ('' @ why @ '') '' @ i"
| "context_line (NodeShown i l h srcs b) =
     ''- ['' @ str_of_nat h @ '' hop] '' @ body_source b srcs @ '': '' @ body_label b @ '' ('' @ i @ '')''"

definition context_text :: "string \<Rightarrow> node_view list \<Rightarrow> string list \<Rightarrow> string" where
  "context_text seed_id views sources =
     (let reach = filter (\<lambda>v. 0 < view_hops v) views in
      if reach = [] then seed_id @ '' cites nothing and nothing cites it.''
      else py_join [newline]
        ((seed_id @ '': '' @ str_of_nat (length reach) @ '' object(s) in the citation chain across ''
            @ str_of_nat (length sources) @ '' source(s) (''
            @ (if py_join '', '' sources \<noteq> [] then py_join '', '' sources else ''none visible'') @ '').'')
         # map context_line views))"

section \<open>Walk and assemble\<close>

definition walk_context :: "graph \<Rightarrow> string \<Rightarrow> string \<Rightarrow> nat \<Rightarrow> walked" where
  "walk_context G owner seed_id hops =
     (let (near, edges) = cites_chain G owner seed_id hops;
          hop_of = (seed_id, 0) # filter (\<lambda>(k, v). k \<noteq> seed_id) near
      in \<lparr>wk_candidates = map hist_candidate_of (get_many G owner (map fst hop_of)),
          wk_edges = edges, wk_hop_of = hop_of\<rparr>)"

record context_result =
  cx_object_id :: string
  cx_answered :: bool
  cx_text :: string
  cx_hops :: nat
  cx_nodes :: "node_view list"
  cx_edges :: "(string \<times> string) list"
  cx_sources :: "string list"
  cx_denied :: "denial list"
  cx_considered :: nat

definition stored_nodes :: "hist_candidate list \<Rightarrow> (string \<times> memory_node) list result" where
  "stored_nodes cands = bind_e (map_e (\<lambda>c. bind_e (hist_node c) (\<lambda>n. Inr (hc_id c, n))) cands)
     (\<lambda>kvs. Inr (dict_of kvs))"

text \<open>\<open>hop_of.get(n.id, 0)\<close>.\<close>

definition hops_to :: "(string \<times> nat) list \<Rightarrow> string \<Rightarrow> nat" where
  "hops_to hop_of i = (case map_of hop_of i of None \<Rightarrow> 0 | Some h \<Rightarrow> h)"

definition near_order :: "(string \<times> nat) list \<Rightarrow> memory_node \<Rightarrow> nat \<times> string" where
  "near_order hop_of n = (hops_to hop_of (node_id n), node_id n)"

definition context_views :: "(string \<times> memory_node) list \<Rightarrow> verdicts \<Rightarrow> (string \<times> nat) list \<Rightarrow> node_view list" where
  "context_views nodes vs hop_of =
     map (\<lambda>n. node_view n (hops_to hop_of (node_id n)) (verdict_of vs (node_id n)))
       (sort_key (near_order hop_of) (map snd nodes))"

definition build_context ::
  "string \<Rightarrow> nat \<Rightarrow> (string \<times> memory_node) list \<Rightarrow> verdicts \<Rightarrow> denial list \<Rightarrow> (string \<times> string) list
    \<Rightarrow> (string \<times> nat) list \<Rightarrow> context_result" where
  "build_context seed_id hops nodes vs denials edges hop_of =
     (if nodes = [] then
        \<lparr>cx_object_id = seed_id, cx_answered = False,
         cx_text = ''No object '' @ py_repr seed_id @ '' is present in this memory.'', cx_hops = hops,
         cx_nodes = [], cx_edges = [], cx_sources = [], cx_denied = [], cx_considered = 0\<rparr>
      else if list_all (\<lambda>(i, n). verdict_of vs i \<noteq> None) nodes then
        \<lparr>cx_object_id = seed_id, cx_answered = False,
         cx_text = ''Declining to answer: '' @ str_of_nat (length nodes) @ '' object(s) form this ''
           @ ''context chain, but none are within the requesting ''
           @ ''agent'' @ [CHR 0x27] @ ''s scope ('' @ pretty_reasons denials @ '').'', cx_hops = hops,
         cx_nodes = [], cx_edges = [], cx_sources = [], cx_denied = denials, cx_considered = length nodes\<rparr>
      else
        let views = context_views nodes vs hop_of;
            sources = sorted_set (concat (map view_sources views))
        in \<lparr>cx_object_id = seed_id, cx_answered = True, cx_text = context_text seed_id views sources,
            cx_hops = hops, cx_nodes = views, cx_edges = edges, cx_sources = sources, cx_denied = denials,
            cx_considered = length nodes\<rparr>)"

definition assemble_context :: "string \<Rightarrow> nat \<Rightarrow> walked \<Rightarrow> verdicts \<Rightarrow> denial list \<Rightarrow> context_result result" where
  "assemble_context seed_id hops w vs denials =
     bind_e (stored_nodes (wk_candidates w)) (\<lambda>nodes.
       Inr (build_context seed_id hops nodes vs denials (wk_edges w) (wk_hop_of w)))"

definition answer_context :: "string \<Rightarrow> nat \<Rightarrow> scope \<Rightarrow> int \<Rightarrow> walked \<Rightarrow> context_result result" where
  "answer_context seed_id hops sc now_ms w =
     bind_e (check_hist sc now_ms (wk_candidates w)) (\<lambda>(vs, denials). assemble_context seed_id hops w vs denials)"

definition context_chain ::
  "runtime \<Rightarrow> graph \<Rightarrow> int \<Rightarrow> string \<Rightarrow> string \<Rightarrow> nat \<Rightarrow> context_result result" where
  "context_chain rt G now_ms object_id token hops =
     bind_e (authorize rt None (Some token)) (\<lambda>sc.
       answer_context object_id hops sc now_ms (walk_context G (scope_owner_id sc) object_id hops))"

end
