(* ===== verification/Context_Props.thy ===== *)
theory Context_Props
  imports Context
begin

text \<open>
  What the context read guarantees: it returns on every well-formed store, shows only what the
  grant permits, nearest first and within the hops asked for, and does not depend on the
  content of what it withholds. The lemmas on dicts keyed by id hold with ids shared by rows
  of different labels: the last row of an id decides both its node and its verdict.
\<close>

section \<open>Dicts keyed by candidate id\<close>

definition last_of :: "hist_candidate list \<Rightarrow> string \<Rightarrow> hist_candidate option" where
  "last_of cs i = find (\<lambda>c. hc_id c = i) (rev cs)"

lemma map_of_find: "map_of (map (\<lambda>c. (f c, g c)) xs) i = map_option g (find (\<lambda>c. f c = i) xs)"
  by (induction xs) auto

lemma map_of_last: "map_of (dict_of (map (\<lambda>c. (hc_id c, g c)) cs)) i = map_option g (last_of cs i)"
  by (simp add: map_of_dict_of rev_map last_of_def map_of_find)

lemma find_member: "find P xs = Some x \<Longrightarrow> x \<in> set xs \<and> P x"
  by (induction xs) (auto split: if_splits)

lemma last_of_Some: "last_of cs i = Some c \<Longrightarrow> c \<in> set cs \<and> hc_id c = i"
  by (auto simp: last_of_def dest: find_member)

lemma last_of_exists: "c \<in> set cs \<Longrightarrow> \<exists>d. last_of cs (hc_id c) = Some d"
  by (cases "last_of cs (hc_id c)") (auto simp: last_of_def find_None_iff)

lemma keys_foldl_dict:
  "map fst d = map fst d' \<Longrightarrow> map fst xs = map fst ys \<Longrightarrow>
    map fst (foldl (\<lambda>d (k, v). AList.update k v d) d xs) = map fst (foldl (\<lambda>d (k, v). AList.update k v d) d' ys)"
proof (induction xs arbitrary: ys d d')
  case (Cons p xs)
  then obtain q ys' where ys: "ys = q # ys'" "fst p = fst q" "map fst xs = map fst ys'" by (cases ys) auto
  have "map fst (AList.update (fst p) (snd p) d) = map fst (AList.update (fst q) (snd q) d')"
    using Cons.prems(1) ys(2) by (simp add: update_keys)
  from Cons.IH [OF this ys(3)] show ?case by (simp add: ys(1) case_prod_beta)
qed simp

lemma dict_of_keys: "map fst xs = map fst ys \<Longrightarrow> map fst (dict_of xs) = map fst (dict_of ys)"
  unfolding dict_of_def by (rule keys_foldl_dict) simp_all

lemma dict_of_rel:
  assumes "map fst xs = map fst ys"
    and "\<And>k x y. map_of (dict_of xs) k = Some x \<Longrightarrow> map_of (dict_of ys) k = Some y \<Longrightarrow> R (k, x) (k, y)"
  shows "list_all2 R (dict_of xs) (dict_of ys)"
proof -
  have keys: "map fst (dict_of xs) = map fst (dict_of ys)" by (rule dict_of_keys [OF assms(1)])
  then have len: "length (dict_of xs) = length (dict_of ys)" by (metis length_map)
  have "R (dict_of xs ! n) (dict_of ys ! n)" if n: "n < length (dict_of xs)" for n
  proof -
    obtain k x where x: "dict_of xs ! n = (k, x)" by fastforce
    obtain l y where y: "dict_of ys ! n = (l, y)" by fastforce
    have "map fst (dict_of xs) ! n = map fst (dict_of ys) ! n" using keys by simp
    then have l: "l = k" using n len x y by simp
    have "(k, x) \<in> set (dict_of xs)" "(k, y) \<in> set (dict_of ys)" using n len x y l nth_mem by metis+
    then show ?thesis using assms(2) by (simp add: x y l map_of_is_SomeI)
  qed
  with len show ?thesis by (simp add: list_all2_conv_all_nth)
qed

lemma insort_rel:
  assumes "list_all2 R xs ys" "R x y" "\<And>a b. R a b \<Longrightarrow> f a = f b"
  shows "list_all2 R (insort_key f x xs) (insort_key f y ys)"
  using assms(1)
proof (induction rule: list_all2_induct)
  case (Cons a as b bs)
  then show ?case using assms(2) assms(3) [OF assms(2)] assms(3) [OF Cons.hyps(1)] by simp
qed (simp add: assms(2))

lemma sort_key_rel:
  assumes "list_all2 R xs ys" "\<And>a b. R a b \<Longrightarrow> f a = f b"
  shows "list_all2 R (sort_key f xs) (sort_key f ys)"
  using assms(1) by (induction rule: list_all2_induct) (auto intro: insort_rel assms(2))

section \<open>The read over candidates of rows\<close>

text \<open>A candidate of a well-formed row: the label and the id are those of the payload.\<close>

definition row_candidate :: "hist_candidate \<Rightarrow> bool" where
  "row_candidate c \<longleftrightarrow> hc_label c = label_of (hc_payload c) \<and> hc_id c = node_id (hc_payload c)"

definition nodes_in :: "hist_candidate list \<Rightarrow> (string \<times> memory_node) list" where
  "nodes_in cs = dict_of (map (\<lambda>c. (hc_id c, hc_payload c)) cs)"

definition last_verdicts :: "scope \<Rightarrow> int \<Rightarrow> hist_candidate list \<Rightarrow> verdicts" where
  "last_verdicts sc now cs = dict_of (map (\<lambda>c. (hc_id c, hist_verdict sc now c)) cs)"

lemma row_labelled: "list_all row_candidate cs \<Longrightarrow> list_all hist_labelled cs"
  by (simp add: list_all_iff row_candidate_def hist_labelled_def)

lemma stored_nodes_rows: "list_all row_candidate cs \<Longrightarrow> stored_nodes cs = Inr (nodes_in cs)"
proof -
  assume "list_all row_candidate cs"
  then have "map_e (\<lambda>c. bind_e (hist_node c) (\<lambda>n. Inr (hc_id c, n))) cs = Inr (map (\<lambda>c. (hc_id c, hc_payload c)) cs)"
    by (intro map_e_total) (auto simp: list_all_iff row_candidate_def hist_node_def)
  then show ?thesis by (simp add: stored_nodes_def nodes_in_def)
qed

lemma check_hist_rows:
  "list_all row_candidate cs \<Longrightarrow> check_hist sc now cs = Inr (last_verdicts sc now cs, denials_on sc now cs)"
  using check_hist_labelled [OF row_labelled] by (simp add: last_verdicts_def denials_on_def)

lemma answer_context_eq:
  "list_all row_candidate (wk_candidates w) \<Longrightarrow>
    answer_context i hops sc now w = Inr (build_context i hops (nodes_in (wk_candidates w))
      (last_verdicts sc now (wk_candidates w)) (denials_on sc now (wk_candidates w)) (wk_edges w) (wk_hop_of w))"
  by (simp add: answer_context_def check_hist_rows assemble_context_def stored_nodes_rows)

lemma last_verdict: "verdict_of (last_verdicts sc now cs) i =
    (case last_of cs i of None \<Rightarrow> None | Some c \<Rightarrow> hist_verdict sc now c)"
  by (simp add: verdict_of_def last_verdicts_def map_of_last split: option.splits)

lemma nodes_in_mem:
  assumes "(i, n) \<in> set (nodes_in cs)"
  obtains c where "last_of cs i = Some c" "hc_payload c = n" "c \<in> set cs" "hc_id c = i"
proof -
  have "map_of (nodes_in cs) i = Some n"
    using assms by (simp add: nodes_in_def map_of_is_SomeI)
  then obtain c where "last_of cs i = Some c" "hc_payload c = n" by (auto simp: nodes_in_def map_of_last)
  with last_of_Some [OF this(1)] that show ?thesis by blast
qed

section \<open>Two runs\<close>

interpretation nodes: redaction node_id "\<lambda>n d. node_view n (hops_to hop_of (node_id n)) d" for hop_of
  by unfold_locales (simp add: node_view_def)

text \<open>Two candidates that a reader of the answer may not tell apart: equal, or of one id and
  denied for the same reason.\<close>

definition node_alike :: "scope \<Rightarrow> int \<Rightarrow> hist_candidate \<Rightarrow> hist_candidate \<Rightarrow> bool" where
  "node_alike sc now c d \<longleftrightarrow> c = d \<or>
     hc_id c = hc_id d \<and> \<not> allowed (hist_decision sc now c) \<and> hist_decision sc now c = hist_decision sc now d"

lemma node_alike_facts:
  "node_alike sc now c d \<Longrightarrow> hc_id c = hc_id d \<and> hist_verdict sc now c = hist_verdict sc now d
     \<and> (c = d \<or> hist_verdict sc now c \<noteq> None)"
  by (auto simp: node_alike_def hist_verdict_def)

lemma alike_maps:
  assumes "list_all2 (node_alike sc now) cs ds"
  shows "map hc_id cs = map hc_id ds"
    "map (\<lambda>c. (hc_id c, hist_verdict sc now c)) cs = map (\<lambda>c. (hc_id c, hist_verdict sc now c)) ds"
    "denials_on sc now cs = denials_on sc now ds"
  using assms
  by (induction rule: list_all2_induct)
    (auto simp: denials_on_def dest: node_alike_facts split: option.split)

lemma find_rel:
  assumes "list_all2 R xs ys" "\<And>x y. R x y \<Longrightarrow> P x = P y"
  shows "rel_option R (find P xs) (find P ys)"
  using assms(1) by (induction rule: list_all2_induct) (auto dest: assms(2))

lemma last_of_alike:
  "list_all2 (node_alike sc now) cs ds \<Longrightarrow> rel_option (node_alike sc now) (last_of cs i) (last_of ds i)"
  unfolding last_of_def by (rule find_rel) (auto dest: node_alike_facts simp: list_all2_rev)

text \<open>Nodes of one id, equal or withheld.\<close>

definition nodes_alike :: "verdicts \<Rightarrow> (string \<times> memory_node) list \<Rightarrow> (string \<times> memory_node) list \<Rightarrow> bool" where
  "nodes_alike vs A B \<longleftrightarrow> list_all2 (\<lambda>(i, n) (j, m). i = j \<and> nodes.alike (verdict_of vs) n m) A B"

lemma nodes_in_alike:
  assumes "list_all2 (node_alike sc now) cs ds" "list_all row_candidate cs" "list_all row_candidate ds"
  shows "nodes_alike (last_verdicts sc now cs) (nodes_in cs) (nodes_in ds)"
  unfolding nodes_alike_def nodes_in_def
proof (rule dict_of_rel)
  show "map fst (map (\<lambda>c. (hc_id c, hc_payload c)) cs) = map fst (map (\<lambda>c. (hc_id c, hc_payload c)) ds)"
    using alike_maps(1) [OF assms(1)] by (simp add: comp_def)
  fix k n m
  assume "map_of (dict_of (map (\<lambda>c. (hc_id c, hc_payload c)) cs)) k = Some n"
    "map_of (dict_of (map (\<lambda>c. (hc_id c, hc_payload c)) ds)) k = Some m"
  then obtain c d where c: "last_of cs k = Some c" "hc_payload c = n" and d: "last_of ds k = Some d" "hc_payload d = m"
    by (auto simp: map_of_last)
  have alike: "node_alike sc now c d" using last_of_alike [OF assms(1), of k] c d by simp
  have ids: "node_id n = k" "node_id m = k"
    using assms(2,3) last_of_Some [OF c(1)] last_of_Some [OF d(1)] c(2) d(2)
    by (auto simp: list_all_iff row_candidate_def)
  have "verdict_of (last_verdicts sc now cs) k = hist_verdict sc now c" by (simp add: last_verdict c(1))
  then have "nodes.alike (verdict_of (last_verdicts sc now cs)) n m"
    using node_alike_facts [OF alike] c(2) d(2) ids by (auto simp: nodes.alike_def)
  then show "(\<lambda>(i, n) (j, m). i = j \<and> nodes.alike (verdict_of (last_verdicts sc now cs)) n m) (k, n) (k, m)"
    by simp
qed

lemma context_views_alike:
  assumes "nodes_alike vs A B"
  shows "context_views A vs hop_of = context_views B vs hop_of"
proof -
  have "list_all2 (nodes.alike (verdict_of vs)) (map snd A) (map snd B)"
    using assms unfolding nodes_alike_def by (induction rule: list_all2_induct) auto
  then have "list_all2 (nodes.alike (verdict_of vs))
      (sort_key (near_order hop_of) (map snd A)) (sort_key (near_order hop_of) (map snd B))"
    by (rule sort_key_rel) (auto simp: near_order_def dest: nodes.alike_ident)
  then show ?thesis unfolding context_views_def by (rule nodes.alike_views)
qed

lemma nodes_alike_keys: "nodes_alike vs A B \<Longrightarrow> map fst A = map fst B"
  unfolding nodes_alike_def by (induction rule: list_all2_induct) auto

lemma build_context_alike:
  assumes "nodes_alike vs A B"
  shows "build_context i hops A vs dn es hop_of = build_context i hops B vs dn es hop_of"
proof -
  note keys = nodes_alike_keys [OF assms]
  have len: "length A = length B" using arg_cong [OF keys, of length] by simp
  then have empty: "(A = []) = (B = [])" by auto
  have "list_all (\<lambda>(i, n). verdict_of vs i \<noteq> None) X = list_all (\<lambda>i. verdict_of vs i \<noteq> None) (map fst X)"
    for X :: "(string \<times> memory_node) list"
    by (auto simp: list_all_iff)
  then have "list_all (\<lambda>(i, n). verdict_of vs i \<noteq> None) A = list_all (\<lambda>(i, n). verdict_of vs i \<noteq> None) B"
    using keys by simp
  then show ?thesis unfolding build_context_def context_views_alike [OF assms] len empty by simp
qed

section \<open>What the walk finds\<close>

lemma many_candidates:
  assumes "store_ok G" "c \<in> set (map hist_candidate_of (get_many G owner ids))"
  obtains n where "n \<in> owner_rows G owner" "c = hist_candidate_of (hydrate n)" "row_candidate c"
proof -
  from assms(2) obtain s where "s \<in> set (get_many G owner ids)" "c = hist_candidate_of s" by auto
  then obtain n where n: "n \<in> owner_rows G owner" "c = hist_candidate_of (hydrate n)" using many_rows by blast
  then have "row_ok n" using store_okD(2) [OF assms(1)] by (simp add: owner_rows_def)
  with n have "row_candidate c"
    by (simp add: row_candidate_def row_ok_def hist_candidate_of_def hydrate_def)
  with n that show ?thesis by blast
qed

lemma many_rows_ok: "store_ok G \<Longrightarrow> list_all row_candidate (map hist_candidate_of (get_many G owner ids))"
  unfolding list_all_iff by (blast elim: many_candidates)

lemma owned_trail_length: "(ws, fs) \<in> set (owned_trails G owner r h seed) \<Longrightarrow> length ws \<le> h"
  by (auto simp: owned_trails_def dest: trails_length)

lemma cites_hops:
  assumes "(i, d) \<in> set (fst (cites_chain G owner s h))"
  shows "d \<le> h"
  using assms by (auto simp: cites_chain_def Let_def dest!: min_hops_in owned_trail_length)

lemma walk_context_parts:
  "\<exists>ids. wk_candidates (walk_context G owner i hops) = map hist_candidate_of (get_many G owner ids)"
  "hops_to (wk_hop_of (walk_context G owner i hops)) j \<le> hops"
proof -
  show "\<exists>ids. wk_candidates (walk_context G owner i hops) = map hist_candidate_of (get_many G owner ids)"
    unfolding walk_context_def Let_def case_prod_beta walked.simps by blast
  let ?near = "fst (cites_chain G owner i hops)"
  have hop_of: "wk_hop_of (walk_context G owner i hops) = (i, 0) # filter (\<lambda>(k, v). k \<noteq> i) ?near"
    by (simp add: walk_context_def case_prod_beta)
  show "hops_to (wk_hop_of (walk_context G owner i hops)) j \<le> hops"
    unfolding hop_of hops_to_def by (auto split: option.split dest!: map_of_SomeD cites_hops)
qed

lemma shown_row:
  assumes "store_ok G" "c \<in> set (map hist_candidate_of (get_many G owner ids))" "hist_verdict sc now c = None"
  shows "\<exists>n \<in> set (gnodes G). g_payload n = hc_payload c \<and> g_label n = hc_label c \<and> g_id n = hc_id c
     \<and> g_owner_id n = owner \<and> permits now sc (node_acl (hc_payload c)) (Some now)"
proof -
  obtain n where n: "n \<in> owner_rows G owner" "c = hist_candidate_of (hydrate n)"
    by (rule many_candidates [OF assms(1,2)])
  then show ?thesis using assms(3)
    by (intro bexI [of _ n]) (auto simp: owner_rows_def hist_candidate_of_def hydrate_def hist_verdict_def
        hist_decision_def permits_def split: if_splits)
qed

lemma denied_listed:
  assumes "c \<in> set cs" "hist_verdict sc now c = Some why"
  shows "\<exists>d \<in> set (denials_on sc now cs). dn_id d = hc_id c \<and> dn_reason d = why"
  using assms by (intro bexI [of _ "\<lparr>dn_id = hc_id c, dn_reason = why\<rparr>"])
    (auto simp: denials_on_def map_filter_mem)

lemma sorted_first: "sorted (map (\<lambda>x. (f x, g x)) xs) \<Longrightarrow> sorted (map f xs)"
  for f :: "'a \<Rightarrow> 'b::linorder" and g :: "'a \<Rightarrow> 'c::linorder"
  by (induction xs) (auto simp: less_eq_prod_def)

lemma sorted_view_hops: "sorted (map view_hops (context_views nodes vs hop_of))"
proof -
  have "view_hops (node_view n h d) = h" for n h d by (simp add: node_view_def split: option.split)
  then have hops: "map view_hops (context_views nodes vs hop_of) =
      map (\<lambda>n. hops_to hop_of (node_id n)) (sort_key (near_order hop_of) (map snd nodes))"
    by (simp add: context_views_def comp_def)
  have "sorted (map (near_order hop_of) (sort_key (near_order hop_of) (map snd nodes)))" by simp
  then show ?thesis unfolding hops near_order_def by (rule sorted_first)
qed

section \<open>Properties\<close>

text \<open>A context chain reveals nothing of a denied object but its id, its distance and the
  reason: two runs whose denied objects share the ids and reasons, and nothing else, not even
  whether they are entities, events or claims, give the same nodes, edges, sources and text.\<close>

theorem context_hides_denied:
  assumes "list_all row_candidate (wk_candidates w)" "list_all row_candidate ds"
    and "list_all2 (node_alike sc now) (wk_candidates w) ds"
  shows "answer_context i hops sc now (w\<lparr>wk_candidates := ds\<rparr>) = answer_context i hops sc now w"
proof -
  note maps = alike_maps [OF assms(3)]
  have "last_verdicts sc now ds = last_verdicts sc now (wk_candidates w)"
    unfolding last_verdicts_def maps(2) ..
  moreover note build_context_alike [OF nodes_in_alike [OF assms(3,1,2)]]
  ultimately show ?thesis
    using assms(1,2) maps(3) by (simp add: answer_context_eq)
qed

text \<open>A view of an object the walk found: within the hop bound, and a stored object of the owner that the
  grant permits or a denial on the list.\<close>

lemma context_view_grounded:
  fixes G sc now i hops
  defines "w \<equiv> walk_context G (scope_owner_id sc) i hops"
  defines "cs \<equiv> wk_candidates w"
  assumes "store_ok G" "v \<in> set (context_views (nodes_in cs) (last_verdicts sc now cs) (wk_hop_of w))"
  shows "view_hops v \<le> hops \<and> (case v of
      NodeShown j l h srcs b \<Rightarrow> \<exists>n \<in> set (gnodes G). g_label n = l \<and> g_id n = j \<and> g_owner_id n = scope_owner_id sc
        \<and> permits now sc (node_acl (g_payload n)) (Some now) \<and> b = body_view (g_payload n)
        \<and> srcs = acl_sources (node_acl (g_payload n))
    | NodeWithheld j h why \<Rightarrow> \<exists>d \<in> set (denials_on sc now cs). dn_id d = j \<and> dn_reason d = why)"
proof -
  obtain ids where cs: "cs = map hist_candidate_of (get_many G (scope_owner_id sc) ids)"
    unfolding cs_def w_def using walk_context_parts(1) by blast
  have rows: "list_all row_candidate cs" unfolding cs by (rule many_rows_ok [OF assms(3)])
  obtain j n where n: "(j, n) \<in> set (nodes_in cs)"
    and view: "v = node_view n (hops_to (wk_hop_of w) (node_id n)) (verdict_of (last_verdicts sc now cs) (node_id n))"
    using assms(4) by (auto simp: context_views_def)
  obtain c where c: "last_of cs j = Some c" "hc_payload c = n" "c \<in> set cs" "hc_id c = j"
    by (rule nodes_in_mem [OF n])
  have row: "hc_label c = label_of n" "node_id n = j"
    using rows c by (auto simp: list_all_iff row_candidate_def)
  have verdict: "verdict_of (last_verdicts sc now cs) (node_id n) = hist_verdict sc now c"
    by (simp add: last_verdict row(2) c(1))
  have hops: "hops_to (wk_hop_of w) (node_id n) \<le> hops" unfolding w_def by (rule walk_context_parts(2))
  show ?thesis
  proof (cases "hist_verdict sc now c")
    case None
    have "v = NodeShown j (hc_label c) (hops_to (wk_hop_of w) (node_id n)) (acl_sources (node_acl n)) (body_view n)"
      using view unfolding verdict None by (simp add: node_view_def row)
    with shown_row [OF assms(3) c(3) [unfolded cs] None] show ?thesis
      using hops c(2,4) by auto
  next
    case (Some why)
    have "v = NodeWithheld j (hops_to (wk_hop_of w) (node_id n)) why"
      using view unfolding verdict Some by (simp add: node_view_def row)
    with denied_listed [OF c(3) Some] hops c(4) show ?thesis by simp
  qed
qed

text \<open>C23: the context read answers under the grant alone: on a well-formed store it returns
  whenever the gateway introspects the token. Its nodes come nearest first and within the hops
  asked for; each is a stored row of the owner that the grant permits now, shown as it is
  stored, or an id listed among the denials with the same reason.\<close>

theorem context_under_grant:
  assumes "store_ok G"
    and "introspect_scope (rt_fmt rt) (rt_validate_scope rt) (rt_http rt) (rt_gateway rt) token = Inr sc"
  shows "\<exists>r. context_chain rt G now i token hops = Inr r \<and> sorted (map view_hops (cx_nodes r)) \<and>
     list_all (\<lambda>v. view_hops v \<le> hops \<and> (case v of
         NodeShown j l h srcs b \<Rightarrow> list_ex (\<lambda>n. g_label n = l \<and> g_id n = j \<and> g_owner_id n = scope_owner_id sc
           \<and> permits now sc (node_acl (g_payload n)) (Some now) \<and> b = body_view (g_payload n)
           \<and> srcs = acl_sources (node_acl (g_payload n))) (gnodes G)
       | NodeWithheld j h why \<Rightarrow> list_ex (\<lambda>d. dn_id d = j \<and> dn_reason d = why) (cx_denied r))) (cx_nodes r)"
proof -
  let ?w = "walk_context G (scope_owner_id sc) i hops"
  let ?cs = "wk_candidates ?w"
  let ?vs = "last_verdicts sc now ?cs"
  have rows: "list_all row_candidate ?cs"
    using walk_context_parts(1) [of G "scope_owner_id sc" i hops] many_rows_ok [OF assms(1)] by fastforce
  define r where "r = build_context i hops (nodes_in ?cs) ?vs (denials_on sc now ?cs) (wk_edges ?w) (wk_hop_of ?w)"
  have run: "context_chain rt G now i token hops = Inr r"
    by (simp add: context_chain_def authorize_def assms(2) answer_context_eq [OF rows] r_def)
  have r: "cx_nodes r = [] \<or> cx_nodes r = context_views (nodes_in ?cs) ?vs (wk_hop_of ?w)
     \<and> cx_denied r = denials_on sc now ?cs"
    by (auto simp: r_def build_context_def Let_def)
  have sorted: "sorted (map view_hops (cx_nodes r))" using r sorted_view_hops by auto
  have "v \<in> set (context_views (nodes_in ?cs) ?vs (wk_hop_of ?w))" "cx_denied r = denials_on sc now ?cs"
    if "v \<in> set (cx_nodes r)" for v using that r by auto
  note view = this and grounded = context_view_grounded [OF assms(1) this(1)]
  have "list_all (\<lambda>v. view_hops v \<le> hops \<and> (case v of
         NodeShown j l h srcs b \<Rightarrow> list_ex (\<lambda>n. g_label n = l \<and> g_id n = j \<and> g_owner_id n = scope_owner_id sc
           \<and> permits now sc (node_acl (g_payload n)) (Some now) \<and> b = body_view (g_payload n)
           \<and> srcs = acl_sources (node_acl (g_payload n))) (gnodes G)
       | NodeWithheld j h why \<Rightarrow> list_ex (\<lambda>d. dn_id d = j \<and> dn_reason d = why) (cx_denied r))) (cx_nodes r)"
    unfolding list_all_iff list_ex_iff
  proof
    fix v assume v: "v \<in> set (cx_nodes r)"
    show "view_hops v \<le> hops \<and> (case v of
         NodeShown j l h srcs b \<Rightarrow> \<exists>n \<in> set (gnodes G). g_label n = l \<and> g_id n = j \<and> g_owner_id n = scope_owner_id sc
           \<and> permits now sc (node_acl (g_payload n)) (Some now) \<and> b = body_view (g_payload n)
           \<and> srcs = acl_sources (node_acl (g_payload n))
       | NodeWithheld j h why \<Rightarrow> \<exists>d \<in> set (cx_denied r). dn_id d = j \<and> dn_reason d = why)"
      unfolding view(2) [OF v] by (rule grounded [OF v])
  qed
  with run sorted show ?thesis by blast
qed

section \<open>Concrete reads\<close>

definition hidden_event :: "string \<Rightarrow> event" where
  "hidden_event txt = \<lparr>evt_id = ''clm_9'', evt_owner_id = ''o'', summary = txt, body = None, entity_ids = [],
     evt_source = \<lparr>sr_connector = ''chatgpt'', sr_external_id = ''x'', sr_url = None, sr_occurred_at_ms = 1,
        sr_ingested_at_ms = 2\<rparr>,
     encrypted_content = None, evt_provenance = sample_provenance,
     evt_acl = sample_acl\<lparr>acl_sources := [''google'']\<rparr>\<rparr>"

text \<open>The denied object is a claim in one run and an event in the other.\<close>

theorem context_hides_denied_witness:
  "answer_context ''clm_1'' 3 sample_scope 3 ((sample_walk ''x'')\<lparr>wk_candidates :=
       [\<lparr>hc_id = ''clm_9'', hc_label = ''Event'', hc_payload = EventN (hidden_event ''y'')\<rparr>,
        visible_hist]\<rparr>) =
   answer_context ''clm_1'' 3 sample_scope 3 (sample_walk ''x'')"
proof -
  let ?d = "\<lparr>hc_id = ''clm_9'', hc_label = ''Event'', hc_payload = EventN (hidden_event ''y'')\<rparr>"
  have denied: "hist_decision sample_scope 3 ?d = deny SourceNotInScope"
    by (simp add: hist_decision_def evaluate_def hidden_event_def sample_scope_def sample_acl_def allowed_def)
  have cs: "wk_candidates (sample_walk ''x'') = [hidden_hist ''x'', visible_hist]" by (simp add: sample_walk_def)
  have rows: "row_candidate (hidden_hist ''x'')" "row_candidate visible_hist" "row_candidate ?d"
    by (simp_all add: row_candidate_def hidden_hist_def hidden_claim_def visible_hist_def sample_claim_def hidden_event_def)
  have "node_alike sample_scope 3 (hidden_hist ''x'') ?d" "node_alike sample_scope 3 visible_hist visible_hist"
    unfolding node_alike_def hidden_denied denied by (simp_all add: hidden_hist_def)
  with rows show ?thesis by (intro context_hides_denied) (simp_all add: cs)
qed

text \<open>The claim of the example store, cited by nothing: the chain is the claim itself.\<close>

theorem context_under_grant_witness:
  "\<exists>r. context_chain query_runtime run_graph 3 ''clm_1'' ''tok'' 2 = Inr r \<and> sorted (map view_hops (cx_nodes r))"
  using context_under_grant [OF run_graph_ok query_runtime_grant] by blast

end
