(* ===== verification/Neighbourhood.thy ===== *)
theory Neighbourhood
  imports Context_Props
begin

text \<open>
  \<open>graphs/neighbourhood.py\<close>: the nodes and edges around some seeds. Unlike the history reads it
  drops what the grant does not cover: a denied node leaves the result with every edge that
  touches it, and only counts and reasons of denials remain. Its permission pass and its
  \<open>_node_of\<close> are line for line those of \<open>graphs/history.py\<close>.
\<close>

section \<open>Walk\<close>

record near_walked =
  nw_candidates :: "hist_candidate list"
  nw_edges :: "(string \<times> string \<times> string) list"
  nw_hop_of :: "(string \<times> nat) list"

definition near_hops :: "graph \<Rightarrow> string \<Rightarrow> string list \<Rightarrow> string list \<Rightarrow> nat \<Rightarrow> (string \<times> nat) list" where
  "near_hops G owner seeds present hops =
     (let start = map (\<lambda>i. (i, 0)) (filter (\<lambda>i. i \<in> set present) seeds)
      in start @ filter (\<lambda>(k, v). k \<notin> set (map fst start)) (neighbour_ids G owner (sorted_set present) hops))"

definition walk_near :: "graph \<Rightarrow> string \<Rightarrow> string list \<Rightarrow> nat \<Rightarrow> near_walked" where
  "walk_near G owner seed_ids hops =
     (let seeds = dedup seed_ids;
          present = map st_id (get_many G owner seeds)
      in if present = [] then \<lparr>nw_candidates = [], nw_edges = [], nw_hop_of = []\<rparr>
         else let hop_of = near_hops G owner seeds present hops
              in \<lparr>nw_candidates = map hist_candidate_of (get_many G owner (map fst hop_of)),
                  nw_edges = edges_among G owner (map fst hop_of), nw_hop_of = hop_of\<rparr>)"

definition check_near :: "scope \<Rightarrow> int \<Rightarrow> hist_candidate list \<Rightarrow> (verdicts \<times> denial list) result" where
  "check_near sc now_ms cands = check_hist sc now_ms cands"

section \<open>Views\<close>

text \<open>\<open>view["url"]\<close> is set for an event only, and may be null there.\<close>

record near_view =
  nv_id :: string
  nv_label :: string
  nv_hops :: nat
  nv_sources :: "string list"
  nv_occurred_at_ms :: int
  nv_status :: "string option"
  nv_is_commitment :: bool
  nv_text :: string
  nv_url :: "string option option"

definition near_view_of :: "memory_node \<Rightarrow> nat \<Rightarrow> near_view" where
  "near_view_of n hops =
     (let v = \<lparr>nv_id = node_id n, nv_label = label_of n, nv_hops = hops, nv_sources = acl_sources (node_acl n),
          nv_occurred_at_ms = acl_occurred_at_ms (node_acl n), nv_status = None, nv_is_commitment = False,
          nv_text = [], nv_url = None\<rparr>
      in case n of
           EventN e \<Rightarrow> v\<lparr>nv_text := summary e, nv_url := Some (sr_url (evt_source e))\<rparr>
         | ClaimN c \<Rightarrow> v\<lparr>nv_text := clm_statement c, nv_status := Some (status_value (status c)),
             nv_is_commitment := (clm_commitment c \<noteq> None)\<rparr>
         | EntityN e \<Rightarrow> v\<lparr>nv_text := kind_value (ent_kind e) @ '': '' @ ent_name e\<rparr>)"

definition near_text :: "string list \<Rightarrow> nat \<Rightarrow> nat \<Rightarrow> nat \<Rightarrow> string list \<Rightarrow> string" where
  "near_text seeds n_nodes n_edges withheld sources =
     str_of_nat n_nodes @ '' node(s) and '' @ str_of_nat n_edges @ '' edge(s) around ''
     @ py_join '', '' seeds @ '' across '' @ str_of_nat (length sources) @ '' source(s) (''
     @ (if py_join '', '' sources \<noteq> [] then py_join '', '' sources else ''none visible'') @ '').''
     @ (if withheld \<noteq> 0 then
          '' '' @ str_of_nat withheld @ '' further object(s) in this neighbourhood are outside ''
          @ ''the grant and are not shown -- neither they nor their edges are ''
          @ ''counted above, so this picture is partial.''
        else [])"

section \<open>Assemble\<close>

record near_result =
  nr_seed_ids :: "string list"
  nr_answered :: bool
  nr_text :: string
  nr_hops :: nat
  nr_nodes :: "near_view list"
  nr_edges :: "(string \<times> string \<times> string) list"
  nr_sources :: "string list"
  nr_withheld :: nat
  nr_withheld_reasons :: "string list"
  nr_withheld_edges :: nat
  nr_considered :: nat

definition visible_nodes :: "verdicts \<Rightarrow> (string \<times> memory_node) list \<Rightarrow> (string \<times> memory_node) list" where
  "visible_nodes vs walked = filter (\<lambda>(i, n). verdict_of vs i = None) walked"

definition visible_edges ::
  "(string \<times> memory_node) list \<Rightarrow> (string \<times> string \<times> string) list \<Rightarrow> (string \<times> string \<times> string) list" where
  "visible_edges visible edges =
     filter (\<lambda>(a, r, b). a \<in> set (map fst visible) \<and> b \<in> set (map fst visible)) edges"

definition build_near ::
  "string list \<Rightarrow> nat \<Rightarrow> (string \<times> memory_node) list \<Rightarrow> verdicts \<Rightarrow> denial list
    \<Rightarrow> (string \<times> string \<times> string) list \<Rightarrow> (string \<times> nat) list \<Rightarrow> near_result" where
  "build_near seed_ids hops walked vs denials all_edges hop_of =
     (let seeds = dedup seed_ids;
          reasons = sorted_set (map dn_reason denials);
          visible = visible_nodes vs walked;
          edges = visible_edges visible all_edges;
          empty = \<lparr>nr_seed_ids = seeds, nr_answered = False, nr_text = [], nr_hops = hops, nr_nodes = [],
            nr_edges = [], nr_sources = [], nr_withheld = 0, nr_withheld_reasons = [], nr_withheld_edges = 0,
            nr_considered = 0\<rparr>
      in if walked = [] then
           empty\<lparr>nr_text := ''No object among '' @ py_repr (py_join '', '' seeds) @ '' is present in this memory.''\<rparr>
         else if visible = [] then
           empty\<lparr>nr_text := ''Declining to answer: '' @ str_of_nat (length walked) @ '' object(s) are in this ''
               @ ''neighbourhood, but none are within the requesting agent'' @ [CHR 0x27] @ ''s ''
               @ ''scope ('' @ py_join '', '' (map spaced reasons) @ '').'',
             nr_withheld := length walked, nr_withheld_reasons := reasons,
             nr_withheld_edges := length all_edges - length edges, nr_considered := length walked\<rparr>
         else
           let nodes = map (\<lambda>n. near_view_of n (hops_to hop_of (node_id n)))
                 (sort_key (near_order hop_of) (map snd visible));
               sources = sorted_set (concat (map nv_sources nodes))
           in \<lparr>nr_seed_ids = seeds, nr_answered = True,
               nr_text = near_text seeds (length nodes) (length edges) (length denials) sources, nr_hops = hops,
               nr_nodes = nodes, nr_edges = edges, nr_sources = sources, nr_withheld = length denials,
               nr_withheld_reasons = reasons, nr_withheld_edges = length all_edges - length edges,
               nr_considered = length walked\<rparr>)"

definition answer_near :: "string list \<Rightarrow> nat \<Rightarrow> scope \<Rightarrow> int \<Rightarrow> near_walked \<Rightarrow> near_result result" where
  "answer_near seed_ids hops sc now_ms w =
     bind_e (check_near sc now_ms (nw_candidates w)) (\<lambda>(vs, denials).
       bind_e (stored_nodes (nw_candidates w)) (\<lambda>walked.
         Inr (build_near seed_ids hops walked vs denials (nw_edges w) (nw_hop_of w))))"

definition neighbourhood ::
  "runtime \<Rightarrow> graph \<Rightarrow> int \<Rightarrow> string list \<Rightarrow> string \<Rightarrow> nat \<Rightarrow> near_result result" where
  "neighbourhood rt G now_ms seed_ids token hops =
     bind_e (authorize rt None (Some token)) (\<lambda>sc.
       answer_near seed_ids hops sc now_ms (walk_near G (scope_owner_id sc) seed_ids hops))"

end
