(* ===== verification/Neighbourhood_Props.thy ===== *)
theory Neighbourhood_Props
  imports Neighbourhood
begin

text \<open>
  What the neighbourhood read guarantees: what it shows is permitted, no edge outlives one of
  its ends, every object walked is shown or counted, and the answer depends on the denied
  objects through their number, their reasons and the number of their edges alone.
\<close>

section \<open>The read over candidates of rows\<close>

definition permitted_hist :: "scope \<Rightarrow> int \<Rightarrow> hist_candidate \<Rightarrow> bool" where
  "permitted_hist sc now c = allowed (hist_decision sc now c)"

lemma permitted_verdict: "permitted_hist sc now c \<longleftrightarrow> hist_verdict sc now c = None"
  by (simp add: permitted_hist_def hist_verdict_def)

lemma answer_near_eq:
  "list_all row_candidate (nw_candidates w) \<Longrightarrow>
    answer_near i hops sc now w = Inr (build_near i hops (nodes_in (nw_candidates w))
      (last_verdicts sc now (nw_candidates w)) (denials_on sc now (nw_candidates w)) (nw_edges w) (nw_hop_of w))"
  by (simp add: answer_near_def check_near_def check_hist_rows stored_nodes_rows)

lemma denials_length:
  "map dn_reason (denials_on sc now cs) =
     map (\<lambda>c. reason_value (hist_decision sc now c)) (filter (\<lambda>c. \<not> permitted_hist sc now c) cs)"
  by (induction cs) (simp_all add: denials_on_def hist_verdict_def permitted_hist_def)

lemma visible_node_mem:
  assumes "(i, n) \<in> set (visible_nodes (last_verdicts sc now cs) (nodes_in cs))"
  obtains c where "c \<in> set cs" "hc_id c = i" "hc_payload c = n" "hist_verdict sc now c = None"
proof -
  from assms have n: "(i, n) \<in> set (nodes_in cs)" "verdict_of (last_verdicts sc now cs) i = None"
    by (auto simp: visible_nodes_def)
  obtain c where "last_of cs i = Some c" "hc_payload c = n" "c \<in> set cs" "hc_id c = i" by (rule nodes_in_mem [OF n(1)])
  with n(2) that show ?thesis by (simp add: last_verdict)
qed

text \<open>With distinct ids the dicts are the lists they are built from.\<close>

lemma nodes_in_distinct:
  "distinct (map hc_id cs) \<Longrightarrow> nodes_in cs = map (\<lambda>c. (hc_id c, hc_payload c)) cs"
  by (simp add: nodes_in_def dict_of_distinct comp_def)

lemma last_of_distinct: "distinct (map hc_id cs) \<Longrightarrow> c \<in> set cs \<Longrightarrow> last_of cs (hc_id c) = Some c"
  using last_of_exists last_of_Some by (metis distinct_map inj_onD)

lemma visible_distinct:
  assumes "distinct (map hc_id cs)"
  shows "visible_nodes (last_verdicts sc now cs) (nodes_in cs) =
     map (\<lambda>c. (hc_id c, hc_payload c)) (filter (permitted_hist sc now) cs)"
proof -
  have "filter (\<lambda>c. verdict_of (last_verdicts sc now cs) (hc_id c) = None) cs = filter (permitted_hist sc now) cs"
    by (rule filter_cong [OF refl]) (simp add: last_verdict last_of_distinct [OF assms] permitted_verdict)
  then show ?thesis by (simp add: visible_nodes_def nodes_in_distinct [OF assms] filter_map comp_def)
qed

text \<open>An edge both of whose ends are permitted.\<close>

definition inner_edge :: "scope \<Rightarrow> int \<Rightarrow> hist_candidate list \<Rightarrow> string \<times> string \<times> string \<Rightarrow> bool" where
  "inner_edge sc now cs e = (case e of (a, r, b) \<Rightarrow>
     list_ex (\<lambda>c. hc_id c = a \<and> permitted_hist sc now c) cs \<and> list_ex (\<lambda>c. hc_id c = b \<and> permitted_hist sc now c) cs)"

lemma visible_edges_inner:
  "visible_edges (map (\<lambda>c. (hc_id c, hc_payload c)) (filter (permitted_hist sc now) cs)) es =
     filter (inner_edge sc now cs) es"
  unfolding visible_edges_def by (rule filter_cong [OF refl]) (auto simp: inner_edge_def list_ex_iff)

lemma insort_key_same:
  "(\<And>y. y \<in> insert x (set ys) \<Longrightarrow> f y = g y) \<Longrightarrow> insort_key f x ys = insort_key g x ys"
  by (induction ys) auto

lemma sort_key_same: "(\<And>x. x \<in> set xs \<Longrightarrow> f x = g x) \<Longrightarrow> sort_key f xs = sort_key g xs"
  by (induction xs) (auto intro: insort_key_same)

lemma sort_views_cong:
  assumes "\<And>n. n \<in> set ns \<Longrightarrow> hops_to h (node_id n) = hops_to h' (node_id n)"
  shows "map (\<lambda>n. near_view_of n (hops_to h (node_id n))) (sort_key (near_order h) ns) =
     map (\<lambda>n. near_view_of n (hops_to h' (node_id n))) (sort_key (near_order h') ns)"
proof -
  have "sort_key (near_order h) ns = sort_key (near_order h') ns"
    by (rule sort_key_same) (simp add: near_order_def assms)
  then show ?thesis using assms by (auto intro: map_cong)
qed

section \<open>What the walk finds\<close>

lemma near_hops_bound:
  assumes "(i, d) \<in> set (near_hops G owner seeds present hops)"
  shows "d \<le> hops"
  using assms by (auto simp: near_hops_def Let_def neighbour_ids_paths hop_paths_def
      dest!: min_hops_in trails_length)

lemma walk_near_parts:
  "\<exists>ids. nw_candidates (walk_near G owner seeds hops) = map hist_candidate_of (get_many G owner ids)"
  "\<exists>ids. nw_edges (walk_near G owner seeds hops) = edges_among G owner ids"
  "hops_to (nw_hop_of (walk_near G owner seeds hops)) j \<le> hops"
proof -
  have none: "get_many G owner [] = []" "edges_among G owner [] = []"
    by (simp_all add: get_many_def edges_among_def)
  show "\<exists>ids. nw_candidates (walk_near G owner seeds hops) = map hist_candidate_of (get_many G owner ids)"
    unfolding walk_near_def Let_def using none(1)
    by (cases "map st_id (get_many G owner (dedup seeds)) = []") (auto intro: exI [of _ "[]"])
  show "\<exists>ids. nw_edges (walk_near G owner seeds hops) = edges_among G owner ids"
    unfolding walk_near_def Let_def using none(2)
    by (cases "map st_id (get_many G owner (dedup seeds)) = []") (auto intro: exI [of _ "[]"])
  show "hops_to (nw_hop_of (walk_near G owner seeds hops)) j \<le> hops"
    unfolding walk_near_def Let_def hops_to_def
    by (auto split: option.split dest!: map_of_SomeD near_hops_bound)
qed

lemma edges_among_stored:
  assumes "(a, r, b) \<in> set (edges_among G owner ids)"
  shows "\<exists>(x, r', y) \<in> set (gedges G). snd x = a \<and> r' = r \<and> snd y = b"
  using assms by (fastforce simp: edges_among_def split: if_splits)

lemma many_all_distinct:
  assumes "distinct (map g_id (gnodes G))"
  shows "distinct (map hc_id (map hist_candidate_of (get_many G owner ids)))"
proof -
  have "map hc_id (map hist_candidate_of (get_many G owner ids)) =
      map g_id (filter (\<lambda>n. g_owner_id n = owner \<and> g_id n \<in> set ids) (gnodes G))"
    by (simp add: get_many_def hist_candidate_of_def hydrate_def comp_def)
  then show ?thesis using distinct_map_filter [OF assms] by simp
qed

lemma near_view_fields [simp]:
  "nv_id (near_view_of n h) = node_id n" "nv_label (near_view_of n h) = label_of n" "nv_hops (near_view_of n h) = h"
  by (cases n; simp add: near_view_of_def Let_def)+

section \<open>Properties\<close>


text \<open>What the grant lets through of a walk, and how it is shown.\<close>

definition near_shown :: "scope \<Rightarrow> int \<Rightarrow> near_walked \<Rightarrow> (string \<times> memory_node) list" where
  "near_shown sc now w = visible_nodes (last_verdicts sc now (nw_candidates w)) (nodes_in (nw_candidates w))"

definition near_views :: "scope \<Rightarrow> int \<Rightarrow> near_walked \<Rightarrow> near_view list" where
  "near_views sc now w = map (\<lambda>n. near_view_of n (hops_to (nw_hop_of w) (node_id n)))
     (sort_key (near_order (nw_hop_of w)) (map snd (near_shown sc now w)))"

lemma near_views_sorted: "sorted (map nv_hops (near_views sc now w))"
proof -
  have "map nv_hops (near_views sc now w) = map (\<lambda>n. hops_to (nw_hop_of w) (node_id n))
      (sort_key (near_order (nw_hop_of w)) (map snd (near_shown sc now w)))"
    by (simp add: near_views_def comp_def)
  also have "sorted \<dots>" by (rule sorted_first [where g = node_id]) (simp add: near_order_def [symmetric])
  finally show ?thesis .
qed

lemma near_view_grounded:
  assumes "store_ok G" "v \<in> set (near_views sc now (walk_near G (scope_owner_id sc) seeds hops))"
  shows "nv_hops v \<le> hops \<and> (\<exists>n \<in> set (gnodes G). g_label n = nv_label v \<and> g_id n = nv_id v
    \<and> g_owner_id n = scope_owner_id sc \<and> permits now sc (node_acl (g_payload n)) (Some now)
    \<and> v = near_view_of (g_payload n) (nv_hops v))"
proof -
  let ?w = "walk_near G (scope_owner_id sc) seeds hops"
  obtain ids where cs: "nw_candidates ?w = map hist_candidate_of (get_many G (scope_owner_id sc) ids)"
    using walk_near_parts(1) by blast
  obtain i n where n: "(i, n) \<in> set (near_shown sc now ?w)" "v = near_view_of n (hops_to (nw_hop_of ?w) (node_id n))"
    using assms(2) by (auto simp: near_views_def)
  obtain c where c: "c \<in> set (nw_candidates ?w)" "hc_payload c = n" "hist_verdict sc now c = None"
    by (rule visible_node_mem [OF n(1) [unfolded near_shown_def]])
  have "hc_label c = label_of n" "hc_id c = node_id n"
    using many_rows_ok [OF assms(1)] c unfolding cs by (auto simp: list_all_iff row_candidate_def)
  with shown_row [OF assms(1) c(1) [unfolded cs] c(3)] c(2) walk_near_parts(3) show ?thesis by (auto simp: n(2))
qed

lemma near_edge_grounded:
  fixes G sc seeds hops
  defines "w \<equiv> walk_near G (scope_owner_id sc) seeds hops"
  assumes "store_ok G"
    and "(a, rel, b) \<in> set (visible_edges (near_shown sc now w) (nw_edges w))"
  shows "a \<in> nv_id ` set (near_views sc now w)" "b \<in> nv_id ` set (near_views sc now w)"
    "\<exists>(x, rel', y) \<in> set (gedges G). snd x = a \<and> rel' = rel \<and> snd y = b"
proof -
  obtain ids where cs: "nw_candidates w = map hist_candidate_of (get_many G (scope_owner_id sc) ids)"
    unfolding w_def using walk_near_parts(1) by blast
  obtain ids' where es: "nw_edges w = edges_among G (scope_owner_id sc) ids'"
    unfolding w_def using walk_near_parts(2) by blast
  have rows: "list_all row_candidate (nw_candidates w)" unfolding cs by (rule many_rows_ok [OF assms(2)])
  have e: "(a, rel, b) \<in> set (nw_edges w)" "a \<in> fst ` set (near_shown sc now w)" "b \<in> fst ` set (near_shown sc now w)"
    using assms(3) by (auto simp: visible_edges_def)
  have "node_id n = i" if "(i, n) \<in> set (near_shown sc now w)" for i n
    by (rule visible_node_mem [OF that [unfolded near_shown_def]])
      (use rows in \<open>auto simp: list_all_iff row_candidate_def\<close>)
  then have "fst ` set (near_shown sc now w) \<subseteq> nv_id ` set (near_views sc now w)" by (force simp: near_views_def)
  with e show "a \<in> nv_id ` set (near_views sc now w)" "b \<in> nv_id ` set (near_views sc now w)" by blast+
  show "\<exists>(x, rel', y) \<in> set (gedges G). snd x = a \<and> rel' = rel \<and> snd y = b"
    using e(1) edges_among_stored [of a rel b G "scope_owner_id sc" ids'] unfolding es by blast
qed

lemma near_accounts:
  assumes "distinct (map hc_id (nw_candidates w))"
  shows "length (near_views sc now w) + length (denials_on sc now (nw_candidates w)) = length (nodes_in (nw_candidates w))"
proof -
  let ?cs = "nw_candidates w"
  have "length (denials_on sc now ?cs) = length (filter (\<lambda>c. \<not> permitted_hist sc now c) ?cs)"
    using arg_cong [OF denials_length, of length sc now ?cs] by simp
  moreover have "length (near_shown sc now w) = length (filter (permitted_hist sc now) ?cs)"
    by (simp add: near_shown_def visible_distinct [OF assms])
  moreover have "length (nodes_in ?cs) = length ?cs" by (simp add: nodes_in_distinct [OF assms])
  ultimately show ?thesis
    using sum_length_filter_compl [of "permitted_hist sc now" ?cs] by (simp add: near_views_def)
qed

text \<open>C24: the neighbourhood read answers under the grant alone: on a well-formed store it returns
  whenever the gateway introspects the token. Its nodes come nearest first, within the hops
  asked for, and each is a stored row of the owner that the grant permits; each edge is stored
  and joins two nodes shown; and when ids are unique the nodes shown and the number withheld
  add up to the objects walked.\<close>

theorem near_under_grant:
  assumes "store_ok G"
    and "introspect_scope (rt_fmt rt) (rt_validate_scope rt) (rt_http rt) (rt_gateway rt) token = Inr sc"
  shows "\<exists>r. neighbourhood rt G now seeds token hops = Inr r \<and> sorted (map nv_hops (nr_nodes r))
     \<and> list_all (\<lambda>v. nv_hops v \<le> hops \<and> list_ex (\<lambda>n. g_label n = nv_label v \<and> g_id n = nv_id v
           \<and> g_owner_id n = scope_owner_id sc \<and> permits now sc (node_acl (g_payload n)) (Some now)
           \<and> v = near_view_of (g_payload n) (nv_hops v)) (gnodes G)) (nr_nodes r)
     \<and> list_all (\<lambda>(a, rel, b). a \<in> nv_id ` set (nr_nodes r) \<and> b \<in> nv_id ` set (nr_nodes r)
           \<and> list_ex (\<lambda>(x, rel', y). snd x = a \<and> rel' = rel \<and> snd y = b) (gedges G)) (nr_edges r)
     \<and> (distinct (map g_id (gnodes G)) \<longrightarrow> nr_answered r \<longrightarrow> length (nr_nodes r) + nr_withheld r = nr_considered r)"
proof -
  let ?w = "walk_near G (scope_owner_id sc) seeds hops"
  let ?cs = "nw_candidates ?w"
  obtain ids where cs: "?cs = map hist_candidate_of (get_many G (scope_owner_id sc) ids)"
    using walk_near_parts(1) by blast
  define r where "r = build_near seeds hops (nodes_in ?cs) (last_verdicts sc now ?cs) (denials_on sc now ?cs)
    (nw_edges ?w) (nw_hop_of ?w)"
  have "list_all row_candidate ?cs" unfolding cs by (rule many_rows_ok [OF assms(1)])
  then have run: "neighbourhood rt G now seeds token hops = Inr r"
    by (simp add: neighbourhood_def authorize_def assms(2) answer_near_eq r_def)
  have shape: "nr_nodes r = [] \<and> nr_edges r = [] \<and> \<not> nr_answered r \<or>
      nr_nodes r = near_views sc now ?w \<and> nr_edges r = visible_edges (near_shown sc now ?w) (nw_edges ?w) \<and>
      nr_withheld r = length (denials_on sc now ?cs) \<and> nr_considered r = length (nodes_in ?cs)"
    by (simp add: r_def build_near_def Let_def near_views_def near_shown_def)
  then have sorted: "sorted (map nv_hops (nr_nodes r))" using near_views_sorted by auto
  have node: "v \<in> set (near_views sc now ?w)" if "v \<in> set (nr_nodes r)" for v using that shape by auto
  have edge: "e \<in> set (visible_edges (near_shown sc now ?w) (nw_edges ?w))" "nr_nodes r = near_views sc now ?w"
    if "e \<in> set (nr_edges r)" for e using that shape by auto
  have inner: "a \<in> nv_id ` set (nr_nodes r) \<and> b \<in> nv_id ` set (nr_nodes r) \<and>
      (\<exists>(x, rel', y) \<in> set (gedges G). snd x = a \<and> rel' = rel \<and> snd y = b)" if "(a, rel, b) \<in> set (nr_edges r)" for a rel b
    using near_edge_grounded [OF assms(1) edge(1) [OF that]] edge(2) [OF that] by simp
  have "length (nr_nodes r) + nr_withheld r = nr_considered r" if "distinct (map g_id (gnodes G))" "nr_answered r"
    using near_accounts [of ?w sc now] many_all_distinct [OF that(1)] shape that(2) unfolding cs by auto
  then show ?thesis
    using run sorted near_view_grounded [OF assms(1) node] inner unfolding list_all_iff list_ex_iff by fastforce
qed

section \<open>Concrete reads\<close>

text \<open>Three claims in a row of which the middle one is denied, walked from the first. The answer
  shows the third at two hops without an edge to it: a reader can tell that an object the grant
  hides lies between the two, which the source says the answer does not disclose.\<close>

definition row_walk :: "string \<Rightarrow> near_walked" where
  "row_walk txt = \<lparr>nw_candidates = [\<lparr>hc_id = ''clm_1'', hc_label = ''Claim'', hc_payload = ClaimN sample_claim\<rparr>,
        hidden_hist txt, \<lparr>hc_id = ''clm_3'', hc_label = ''Claim'', hc_payload = ClaimN far_claim\<rparr>],
     nw_edges = [(''clm_1'', ''SUPERSEDES'', ''clm_9''), (''clm_9'', ''SUPERSEDES'', ''clm_3'')],
     nw_hop_of = [(''clm_1'', 0), (''clm_9'', 1), (''clm_3'', 2)]\<rparr>"

lemma hops_through_hidden:
  "map_sum id (\<lambda>r. (map (\<lambda>v. (nv_id v, nv_hops v)) (nr_nodes r), nr_edges r, nr_withheld r))
     (answer_near [''clm_1''] 2 sample_scope 3 (row_walk ''x'')) =
   Inr ([(''clm_1'', 0), (''clm_3'', 2)], [], 1)"
  by code_simp


theorem near_under_grant_witness:
  "\<exists>r. neighbourhood query_runtime run_graph 3 [''clm_1''] ''tok'' 2 = Inr r
     \<and> (\<not> nr_answered r \<or> length (nr_nodes r) + nr_withheld r = nr_considered r)"
proof -
  have "distinct (map g_id (gnodes run_graph))" by code_simp
  with near_under_grant [OF run_graph_ok query_runtime_grant] show ?thesis by blast
qed

end
