(* ===== verification/ChatGPT.thy ===== *)
theory ChatGPT
  imports Connectors Gateway Formatting PyRegex
begin

text \<open>
  \<open>connectors/chatgpt.py\<close>: the reader of a ChatGPT data export. A decoded export is a \<open>json\<close>
  value, a dict in it an association list with distinct keys. The tree of a conversation is
  walked with the set of visited ids the code keeps, and times are doubles, so the product of
  \<open>_ms\<close> is rounded and its conversion to an integer can raise. The file system, the zip reader
  and the JSON decoder are the record \<open>filesystem\<close>; a path is the list of its parts.
\<close>

section \<open>Times\<close>

definition times_1000 :: "pyfloat \<Rightarrow> pyfloat" where
  "times_1000 x = (case x of Fin m e \<Rightarrow> round_double (m * 1000) e | Infinity pos \<Rightarrow> Infinity pos | NaN \<Rightarrow> NaN)"

definition ms_of :: "json option \<Rightarrow> int option result" where
  "ms_of seconds = (case seconds of
      Some (JInt i) \<Rightarrow> Inr (Some (i * 1000))
    | Some (JFloat x) \<Rightarrow> bind_e (int_of_float (times_1000 x)) (\<lambda>i. Inr (Some i))
    | _ \<Rightarrow> Inr None)"

section \<open>Messages\<close>

type_synonym dict = "(string \<times> json) list"

definition dict_in :: "string \<Rightarrow> dict \<Rightarrow> dict option" where
  "dict_in k kvs = (case map_of kvs k of Some (JObj d) \<Rightarrow> Some d | _ \<Rightarrow> None)"

definition text_in :: "dict \<Rightarrow> string \<Rightarrow> string option" where
  "text_in kvs k = (case map_of kvs k of
      Some (JStr s) \<Rightarrow> if py_strip s \<noteq> [] then Some s else None
    | _ \<Rightarrow> None)"

definition part_text :: "json \<Rightarrow> string" where
  "part_text part = (case part of
      JStr s \<Rightarrow> s
    | JObj kvs \<Rightarrow>
        (case List.map_filter (text_in kvs) [''text'', ''content''] of
           t # _ \<Rightarrow> t
         | [] \<Rightarrow> (case map_of kvs ''content_type'' of Some (JStr kind) \<Rightarrow> ''['' @ kind @ '']'' | _ \<Rightarrow> []))
    | _ \<Rightarrow> [])"

definition message_text :: "dict \<Rightarrow> string" where
  "message_text message = (case dict_in ''content'' message of
      None \<Rightarrow> []
    | Some content \<Rightarrow> py_strip (case map_of content ''parts'' of
          Some (JArr parts) \<Rightarrow> py_join [newline] (filter (\<lambda>t. py_strip t \<noteq> []) (map part_text parts))
        | _ \<Rightarrow> (case map_of content ''text'' of Some (JStr t) \<Rightarrow> t | _ \<Rightarrow> [])))"

definition role_of :: "dict \<Rightarrow> string option" where
  "role_of message = (case dict_in ''author'' message of
      None \<Rightarrow> None
    | Some author \<Rightarrow> (case map_of author ''role'' of Some (JStr r) \<Rightarrow> Some r | _ \<Rightarrow> None))"

definition is_hidden :: "dict \<Rightarrow> bool" where
  "is_hidden message = (case dict_in ''metadata'' message of
      None \<Rightarrow> False
    | Some md \<Rightarrow> (case map_of md ''is_visually_hidden_from_conversation'' of None \<Rightarrow> False | Some v \<Rightarrow> truthy v))"

section \<open>The tree of a conversation\<close>

text \<open>\<open>node.get("parent") in mapping\<close>; a list or a dict is not hashable.\<close>

definition parent_known :: "dict \<Rightarrow> dict \<Rightarrow> bool result" where
  "parent_known mapping node = (case map_of node ''parent'' of
      Some (JStr p) \<Rightarrow> Inr (p \<in> set (map fst mapping))
    | Some (JArr xs) \<Rightarrow> Inl (TypeError ''unhashable type: list'')
    | Some (JObj kvs) \<Rightarrow> Inl (TypeError ''unhashable type: dict'')
    | _ \<Rightarrow> Inr False)"

definition roots :: "dict \<Rightarrow> string list result" where
  "roots mapping =
     bind_e (map_e (\<lambda>(i, node). case node of
         JObj kvs \<Rightarrow> bind_e (parent_known mapping kvs) (\<lambda>known. Inr (if known then [] else [i]))
       | _ \<Rightarrow> Inr []) mapping)
     (\<lambda>rs. Inr (if concat rs \<noteq> [] then concat rs else map fst mapping))"

definition last_child :: "dict \<Rightarrow> string option" where
  "last_child node = (case map_of node ''children'' of
      Some (JArr cs) \<Rightarrow>
        (case rev (List.map_filter (\<lambda>c. case c of JStr s \<Rightarrow> Some s | _ \<Rightarrow> None) cs) of
           [] \<Rightarrow> None | c # _ \<Rightarrow> Some c)
    | _ \<Rightarrow> None)"

definition message_in :: "dict \<Rightarrow> dict list" where
  "message_in node = (case dict_in ''message'' node of None \<Rightarrow> [] | Some m \<Rightarrow> [m])"

text \<open>The loop of \<open>walk_linear\<close>: each turn visits a new key of the mapping, so it ends.\<close>

function walk_from :: "dict \<Rightarrow> string list \<Rightarrow> string \<Rightarrow> dict list" where
  "walk_from mapping seen node_id' =
     (if node_id' \<in> set seen then []
      else case dict_in node_id' mapping of
          None \<Rightarrow> []
        | Some node \<Rightarrow> message_in node @
            (case last_child node of None \<Rightarrow> [] | Some c \<Rightarrow> walk_from mapping (node_id' # seen) c))"
  by pat_completeness auto
termination
proof (relation "measure (\<lambda>(mapping, seen, i). card (set (map fst mapping) - set seen))")
  fix mapping :: dict and seen :: "string list" and i node c
  assume new: "i \<notin> set seen" and node: "dict_in i mapping = Some node"
  have "i \<in> set (map fst mapping)"
    using node by (auto simp: dict_in_def split: option.splits dest!: map_of_SomeD) (force dest: map_of_SomeD)
  then have "set (map fst mapping) - set (i # seen) \<subset> set (map fst mapping) - set seen" using new by auto
  then have "card (set (map fst mapping) - set (i # seen)) < card (set (map fst mapping) - set seen)"
    by (intro psubset_card_mono) simp_all
  then show "((mapping, i # seen, c), (mapping, seen, i)) \<in> measure (\<lambda>(mapping, seen, i). card (set (map fst mapping) - set seen))"
    by simp
qed simp

declare walk_from.simps [simp del]

definition walk_linear :: "dict \<Rightarrow> dict list result" where
  "walk_linear mapping =
     (if mapping = [] then Inr []
      else bind_e (roots mapping) (\<lambda>rs. Inr (case rs of [] \<Rightarrow> [] | r # _ \<Rightarrow> walk_from mapping [] r)))"

section \<open>Turns and transcript\<close>

type_synonym turn = "string \<times> string \<times> int option"

definition turn_of :: "dict \<Rightarrow> turn list result" where
  "turn_of message = (case role_of message of
      None \<Rightarrow> Inr []
    | Some role \<Rightarrow>
        if role \<notin> {''user'', ''assistant''} \<or> is_hidden message then Inr []
        else (let txt = message_text message in
          if txt = [] then Inr []
          else bind_e (ms_of (map_of message ''create_time'')) (\<lambda>t. Inr [(role, txt, t)])))"

definition turns_of :: "dict list \<Rightarrow> turn list result" where
  "turns_of messages = bind_e (map_e turn_of messages) (\<lambda>ts. Inr (concat ts))"

definition render_turn :: "turn \<Rightarrow> string" where
  "render_turn t = fst t @ '': '' @ fst (snd t)"

definition render_transcript :: "turn list \<Rightarrow> string" where
  "render_transcript turns = py_join blank_line (map render_turn turns)"

definition max_title_chars :: nat where
  "max_title_chars = 80"

definition title_for :: "dict \<Rightarrow> turn list \<Rightarrow> string" where
  "title_for conversation turns = (case text_in conversation ''title'' of
      Some t \<Rightarrow> py_strip t
    | None \<Rightarrow> (case filter (\<lambda>t. fst t = ''user'') turns of
          (r, first_user, t) # _ \<Rightarrow>
            if first_user \<noteq> [] then take max_title_chars (py_join '' '' (py_words first_user))
            else ''Untitled ChatGPT conversation''
        | [] \<Rightarrow> ''Untitled ChatGPT conversation''))"

definition models_in :: "dict \<Rightarrow> string list" where
  "models_in mapping = List.map_filter (\<lambda>(i, node). case node of
      JObj kvs \<Rightarrow> (case dict_in ''message'' kvs of None \<Rightarrow> None
        | Some message \<Rightarrow> (case dict_in ''metadata'' message of None \<Rightarrow> None
            | Some md \<Rightarrow> (case map_of md ''model_slug'' of
                  Some (JStr slug) \<Rightarrow> if slug \<noteq> [] then Some slug else None
                | _ \<Rightarrow> None)))
    | _ \<Rightarrow> None) mapping"

section \<open>Conversations as records\<close>

text \<open>\<open>a or b\<close> of two optional integers: zero counts as missing.\<close>

definition or_ms :: "int option \<Rightarrow> int option \<Rightarrow> int option" where
  "or_ms a b = (case a of Some i \<Rightarrow> if i \<noteq> 0 then a else b | None \<Rightarrow> b)"

definition or_zero :: "int option \<Rightarrow> int" where
  "or_zero a = (case a of Some i \<Rightarrow> i | None \<Rightarrow> 0)"

definition message_times :: "turn list \<Rightarrow> int list" where
  "message_times turns = List.map_filter (\<lambda>(r, txt, t). t) turns"

definition created_ms :: "int option \<Rightarrow> int list \<Rightarrow> int option \<Rightarrow> int" where
  "created_ms created stamps updated =
     or_zero (or_ms (or_ms created (if stamps \<noteq> [] then Some (Min (set stamps)) else None)) updated)"

definition last_activity_ms :: "int \<Rightarrow> int option \<Rightarrow> int list \<Rightarrow> int" where
  "last_activity_ms created updated stamps = Max (set (created # or_zero updated # stamps))"

definition external_id_of :: "dict \<Rightarrow> string option" where
  "external_id_of conversation =
     (let j = (case map_of conversation ''conversation_id'' of
                 Some v \<Rightarrow> if truthy v then Some v else map_of conversation ''id''
               | None \<Rightarrow> map_of conversation ''id'')
      in case j of Some (JStr s) \<Rightarrow> if s \<noteq> [] then Some s else None | _ \<Rightarrow> None)"

definition mapping_of :: "dict \<Rightarrow> dict" where
  "mapping_of conversation = (case dict_in ''mapping'' conversation of Some m \<Rightarrow> m | None \<Rightarrow> [])"

definition record_of :: "dict \<Rightarrow> bool \<Rightarrow> turn list \<Rightarrow> string \<Rightarrow> int \<Rightarrow> int \<Rightarrow> raw_record" where
  "record_of conversation sensitive turns external_id created last_activity =
     \<lparr>rec_external_id = external_id, rec_connector = ''chatgpt'', rec_occurred_at_ms = created,
      rec_title = title_for conversation turns, rec_body = render_transcript turns,
      rec_url = Some (''https://chatgpt.com/c/'' @ external_id), rec_sensitive = sensitive,
      rec_participants = [],
      rec_metadata =
        [(''conversation_id'', JStr external_id),
         (''message_count'', JInt (int (length turns))),
         (''user_messages'', JInt (int (length (filter (\<lambda>t. fst t = ''user'') turns)))),
         (''assistant_messages'', JInt (int (length (filter (\<lambda>t. fst t = ''assistant'') turns)))),
         (''models'', JArr (map JStr (sorted_set (models_in (mapping_of conversation))))),
         (''last_activity_ms'', JInt last_activity),
         (''is_archived'', JBool (case map_of conversation ''is_archived'' of None \<Rightarrow> False | Some v \<Rightarrow> truthy v))]\<rparr>"

definition conversation_to_record :: "json \<Rightarrow> bool \<Rightarrow> (raw_record \<times> int) option result" where
  "conversation_to_record conversation sensitive = (case conversation of
      JObj conv \<Rightarrow>
        bind_e (walk_linear (mapping_of conv)) (\<lambda>messages.
        bind_e (turns_of messages) (\<lambda>turns.
          if turns = [] then Inr None
          else (case external_id_of conv of
              None \<Rightarrow> Inr None
            | Some external_id \<Rightarrow>
                bind_e (ms_of (map_of conv ''create_time'')) (\<lambda>created.
                bind_e (ms_of (map_of conv ''update_time'')) (\<lambda>updated.
                  let stamps = message_times turns;
                      start = created_ms created stamps updated;
                      latest = last_activity_ms start updated stamps
                  in Inr (Some (record_of conv sensitive turns external_id start latest, latest)))))))
    | _ \<Rightarrow> Inr None)"

definition parse_one :: "int \<Rightarrow> bool \<Rightarrow> json \<Rightarrow> raw_record list result" where
  "parse_one since_ms sensitive conversation =
     bind_e (conversation_to_record conversation sensitive) (\<lambda>parsed. Inr (case parsed of
         None \<Rightarrow> []
       | Some (rec, latest) \<Rightarrow> if since_ms \<le> latest then [rec] else []))"

definition parse_export :: "json \<Rightarrow> int \<Rightarrow> bool \<Rightarrow> raw_record list result" where
  "parse_export payload since_ms sensitive = (case payload of
      JArr conversations \<Rightarrow> bind_e (map_e (parse_one since_ms sensitive) conversations) (\<lambda>rs. Inr (concat rs))
    | _ \<Rightarrow> Inr [])"

section \<open>Chunks of a transcript\<close>

definition role_prefix :: regex where
  "role_prefix = RCat (RLit [newline, newline])
     (RLook (RCat (RGrp 1 (RAlt (RLit ''user'') (RLit ''assistant''))) (RLit '': '')))"

fun chunk_turns :: "int \<Rightarrow> string list \<Rightarrow> string list \<Rightarrow> string \<Rightarrow> string list \<times> string" where
  "chunk_turns max_chars [] chunks current = (chunks, current)"
| "chunk_turns max_chars (t # ts) chunks current =
     (if int (length t) > max_chars then
        chunk_turns max_chars ts
          ((if current \<noteq> [] then chunks @ [current] else chunks) @ pack_paragraphs max_chars t) []
      else if current \<noteq> [] \<and> int (length current) + int (length t) + 2 > max_chars
      then chunk_turns max_chars ts (chunks @ [current]) t
      else chunk_turns max_chars ts chunks (if current \<noteq> [] then current @ blank_line @ t else t))"

definition chunk_transcript :: "string \<Rightarrow> int \<Rightarrow> string list" where
  "chunk_transcript txt max_chars =
     (let turns = filter (\<lambda>t. py_strip t \<noteq> []) (re_split role_prefix txt) in
      if turns = [] then pack_paragraphs 1200 txt
      else let (chunks, current) = chunk_turns max_chars turns [] []
           in if current \<noteq> [] then chunks @ [current] else chunks)"

section \<open>Locating the export\<close>

type_synonym path = "string list"

record filesystem =
  fs_is_file :: "path \<Rightarrow> bool"
  fs_is_dir :: "path \<Rightarrow> bool"
  fs_names :: "path \<Rightarrow> string list"
  fs_is_zip :: "path \<Rightarrow> bool"
  fs_zip_names :: "path \<Rightarrow> string list"
  fs_zip_json :: "path \<Rightarrow> string \<Rightarrow> json result"
  fs_json :: "path \<Rightarrow> json result"
  fs_expand :: "string \<Rightarrow> path"

definition owner_first :: cset where
  "owner_first = Ranges [(CHR ''A'', CHR ''Z''), (CHR ''a'', CHR ''z''), (CHR ''0'', CHR ''9'')]"

definition owner_rest :: cset where
  "owner_rest = Ranges [(CHR ''A'', CHR ''Z''), (CHR ''a'', CHR ''z''), (CHR ''0'', CHR ''9''),
     (CHR ''.'', CHR ''.''), (CHR ''_'', CHR ''_''), (CHR ''@'', CHR ''@''), (CHR ''-'', CHR ''-'')]"

definition safe_owner :: regex where
  "safe_owner = RCat RBol (RCat (RSet owner_first) (RCat (RRep True owner_rest 0 (Some 127)) REol))"

definition conversations_json :: string where
  "conversations_json = ''conversations.json''"

definition candidate_paths :: "path \<Rightarrow> string \<Rightarrow> path list" where
  "candidate_paths export_dir owner =
     [export_dir @ [owner, conversations_json], export_dir @ [owner @ ''.json''],
      export_dir @ [owner @ ''.zip''], export_dir @ [owner]]"

text \<open>\<open>str(path)\<close>, and the message of \<open>ChatGPTExportNotFoundError\<close>.\<close>

definition path_str :: "path \<Rightarrow> string" where
  "path_str p = (case p of
      [] \<Rightarrow> ''.''
    | r # rest \<Rightarrow> if r = ''/'' then ''/'' @ py_join ''/'' rest else py_join ''/'' p)"

definition export_not_found_text :: "string \<Rightarrow> path list \<Rightarrow> bool \<Rightarrow> string" where
  "export_not_found_text owner looked_in configured =
     (if \<not> configured then ''CHATGPT_EXPORT_DIR is not set, so there is nowhere to look for an export.''
      else ''No export found for owner '' @ py_repr owner @ ''. Looked for:'' @ newline # ''  ''
        @ py_join (newline # ''  '') (map path_str looked_in))
     @ blank_line
     @ ''ChatGPT has no conversation-history API; the only source is your own data ''
     @ ''export. In ChatGPT: Settings -> Data controls -> Export data. OpenAI emails ''
     @ ''you a .zip; put the .zip (or the conversations.json inside it) at one of the ''
     @ ''paths above and re-run the ingest.''"

definition load_zip :: "filesystem \<Rightarrow> path \<Rightarrow> json result" where
  "load_zip fs p =
     (case filter (\<lambda>n. n = conversations_json \<or> is_suffix (''/'' @ conversations_json) n) (fs_zip_names fs p) of
        [] \<Rightarrow> Inl (ValueError ''contains no conversations.json; is it a ChatGPT export?'')
      | member # _ \<Rightarrow> fs_zip_json fs p member)"

definition load_export :: "filesystem \<Rightarrow> path \<Rightarrow> json result" where
  "load_export fs p = (if fs_is_zip fs p then load_zip fs p else fs_json fs p)"

definition resolve_export_path :: "filesystem \<Rightarrow> path option \<Rightarrow> string \<Rightarrow> path result" where
  "resolve_export_path fs export_dir owner =
     (if \<not> re_match safe_owner owner then Inl (ValueError owner)
      else (case export_dir of
          None \<Rightarrow> Inl (ExportNotFoundError owner False)
        | Some d \<Rightarrow>
            (case filter (fs_is_file fs) (take 3 (candidate_paths d owner)) of
               p # _ \<Rightarrow> Inr p
             | [] \<Rightarrow>
                 let zips = (if fs_is_dir fs (d @ [owner])
                             then sort (filter (is_suffix ''.zip'') (fs_names fs (d @ [owner]))) else [])
                 in if zips \<noteq> [] then Inr (d @ [owner, last zips])
                    else Inl (ExportNotFoundError owner True))))"

section \<open>The connectors\<close>

definition chatgpt_fetch :: "filesystem \<Rightarrow> settings \<Rightarrow> string \<Rightarrow> int \<Rightarrow> raw_record list result" where
  "chatgpt_fetch fs s owner since_ms =
     bind_e (resolve_export_path fs (case chatgpt_export_dir s of
               Some d \<Rightarrow> if d \<noteq> [] then Some (fs_expand fs d) else None | None \<Rightarrow> None) owner) (\<lambda>p.
     bind_e (load_export fs p) (\<lambda>payload. parse_export payload since_ms (chatgpt_sensitive s)))"

definition export_message :: "string \<Rightarrow> string \<Rightarrow> string \<Rightarrow> int \<Rightarrow> string \<Rightarrow> string list \<Rightarrow> (string \<times> json) list \<Rightarrow> json" where
  "export_message i parent role at_s txt children extra =
     JObj [(''id'', JStr i), (''parent'', JStr parent), (''children'', JArr (map JStr children)),
       (''message'', JObj ([(''id'', JStr i), (''author'', JObj [(''role'', JStr role)]),
          (''create_time'', JFloat (Fin at_s 0)),
          (''content'', JObj [(''content_type'', JStr ''text''), (''parts'', JArr [JStr txt])])] @ extra))]"

definition export_conversation :: "string \<Rightarrow> string \<Rightarrow> int \<Rightarrow> int \<Rightarrow> string \<Rightarrow> string \<Rightarrow> json" where
  "export_conversation i title created updated question reply =
     JObj [(''title'', JStr title), (''create_time'', JFloat (Fin created 0)),
       (''update_time'', JFloat (Fin updated 0)), (''conversation_id'', JStr i),
       (''mapping'', JObj
          [(''root'', JObj [(''id'', JStr ''root''), (''message'', JNull), (''parent'', JNull),
              (''children'', JArr [JStr ''m1''])]),
           (''m1'', export_message ''m1'' ''root'' ''user'' created question [''m2''] []),
           (''m2'', export_message ''m2'' ''m1'' ''assistant'' (created + 60) reply []
              [(''metadata'', JObj [(''model_slug'', JStr ''gpt-4o'')])])])]"

definition mock_export :: json where
  "mock_export = JArr
     [export_conversation ''chatgpt-mock-001'' ''Atlas datastore'' 1735689600 1735689900
        (''Alice decided that project Atlas will use Postgres for ''
          @ ''the primary datastore. Does that hold up?'')
        ''Postgres is a reasonable default for that workload.'',
      export_conversation ''chatgpt-mock-002'' ''Atlas storage revisited'' 1735948800 1735949000
        (''Bob decided that project Atlas will use Neo4j for the ''
          @ ''primary datastore instead.'')
        ''Noted -- a graph store fits the traversal requirement.'']"

definition mock_chatgpt_fetch :: "settings \<Rightarrow> string \<Rightarrow> int \<Rightarrow> raw_record list result" where
  "mock_chatgpt_fetch s owner since_ms = parse_export mock_export since_ms (chatgpt_sensitive s)"

definition chatgpt_spec :: "filesystem \<Rightarrow> connector_spec" where
  "chatgpt_spec fs = \<lparr>spec_object = 4, source_id = ''chatgpt'', display_name = ''ChatGPT (data export)'',
     factory = (\<lambda>s. Inr \<lparr>conn_name = ''chatgpt'', conn_fetch = chatgpt_fetch fs s\<rparr>),
     chunker = (\<lambda>t. Inr (chunk_transcript t 1200)), requires_oauth = False, oauth_scopes = [],
     mock_factory = Some (\<lambda>s. Inr \<lparr>conn_name = ''chatgpt'', conn_fetch = mock_chatgpt_fetch s\<rparr>)\<rparr>"

end
