(* ===== verification/ChatGPT_Props.thy ===== *)
theory ChatGPT_Props
  imports ChatGPT
begin

text \<open>
  What the reader of ChatGPT exports guarantees: the walk of a conversation follows one branch
  and ends, a transcript splits back into its turns, chunks keep every turn whole unless it is
  over the budget, an import since a time is a filter of any earlier one, and an export is only
  looked for below the configured directory.
\<close>

section \<open>The branch of a conversation\<close>

text \<open>The last string among the children of a node, if there is one.\<close>

definition child_ids :: "dict \<Rightarrow> string list" where
  "child_ids node = (case map_of node ''children'' of
      Some (JArr cs) \<Rightarrow> [s. JStr s \<leftarrow> cs]
    | _ \<Rightarrow> [])"

definition next_on_branch :: "dict \<Rightarrow> string \<Rightarrow> string option" where
  "next_on_branch m i = (case dict_in i m of
      None \<Rightarrow> None
    | Some node \<Rightarrow> if child_ids node = [] then None else Some (last (child_ids node)))"

lemma strings_in: "List.map_filter (\<lambda>c. case c of JStr s \<Rightarrow> Some s | _ \<Rightarrow> None) cs = [s. JStr s \<leftarrow> cs]"
  by (induction cs) (simp_all split: json.split)

lemma last_child_spec: "last_child node = (if child_ids node = [] then None else Some (last (child_ids node)))"
proof -
  have "(case rev xs of [] \<Rightarrow> None | c # _ \<Rightarrow> Some c) = (if xs = [] then None else Some (last xs))" for xs :: "string list"
    by (cases xs rule: rev_cases) simp_all
  then show ?thesis by (simp add: last_child_def child_ids_def strings_in split: option.split json.split)
qed

definition messages_at :: "dict \<Rightarrow> string \<Rightarrow> dict list" where
  "messages_at m i = (case dict_in i m of None \<Rightarrow> [] | Some node \<Rightarrow> message_in node)"

fun is_branch :: "dict \<Rightarrow> string list \<Rightarrow> bool" where
  "is_branch m [] = True"
| "is_branch m [i] = (dict_in i m \<noteq> None)"
| "is_branch m (i # j # is) = (dict_in i m \<noteq> None \<and> next_on_branch m i = Some j \<and> is_branch m (j # is))"

definition branch_ends :: "dict \<Rightarrow> string list \<Rightarrow> string option \<Rightarrow> bool" where
  "branch_ends m visited after = (case after of None \<Rightarrow> True | Some c \<Rightarrow> c \<in> set visited \<or> dict_in c m = None)"

lemma walk_from_branch:
  "\<exists>is. walk_from m seen i = concat (map (messages_at m) is) \<and> is_branch m is \<and> distinct is
     \<and> set is \<inter> set seen = {} \<and> (is = [] \<longleftrightarrow> branch_ends m seen (Some i)) \<and> (is \<noteq> [] \<longrightarrow> hd is = i)
     \<and> (is \<noteq> [] \<longrightarrow> branch_ends m (seen @ is) (next_on_branch m (last is)))"
proof (induction m seen i rule: walk_from.induct)
  case (1 m seen i)
  show ?case
  proof (cases "i \<in> set seen \<or> dict_in i m = None")
    case True
    then show ?thesis by (intro exI [of _ "[]"]) (auto simp: walk_from.simps branch_ends_def)
  next
    case False
    then obtain node where new: "i \<notin> set seen" and node: "dict_in i m = Some node" by auto
    have here: "messages_at m i = message_in node" "next_on_branch m i = last_child node"
      by (simp_all add: messages_at_def next_on_branch_def last_child_spec node)
    show ?thesis
    proof (cases "last_child node")
      case None
      then show ?thesis using new node here
        by (intro exI [of _ "[i]"]) (simp add: walk_from.simps [of m seen i] branch_ends_def)
    next
      case (Some c)
      from "1.IH" [OF new node Some] obtain js where js:
        "walk_from m (i # seen) c = concat (map (messages_at m) js)" "is_branch m js" "distinct js"
        "set js \<inter> set (i # seen) = {}" "js = [] \<longleftrightarrow> branch_ends m (i # seen) (Some c)" "js \<noteq> [] \<longrightarrow> hd js = c"
        "js \<noteq> [] \<longrightarrow> branch_ends m (i # seen @ js) (next_on_branch m (last js))"
        by auto
      have walk: "walk_from m seen i = concat (map (messages_at m) (i # js))"
        using new node Some js(1) here by (simp add: walk_from.simps [of m seen i])
      have branch: "is_branch m (i # js)"
        using js(2,6) node here(2) Some by (cases js) auto
      have ends: "branch_ends m (seen @ i # js) (next_on_branch m (last (i # js)))"
        using js(5,7) here(2) Some by (cases "js = []") (auto simp: branch_ends_def split: option.splits)
      show ?thesis
        using walk branch ends js(3,4) new node
        by (intro exI [of _ "i # js"]) (auto simp: branch_ends_def)
    qed
  qed
qed

section \<open>Splitting a transcript\<close>

definition role_marks :: "string list" where
  "role_marks = [blank_line @ ''user: '', blank_line @ ''assistant: '']"

definition at_role :: "string \<Rightarrow> bool" where
  "at_role s = list_ex (\<lambda>mk. is_prefix mk s) role_marks"

lemma run_lit_prefix: "run_lit ds p s g = (if is_prefix ds s
    then [(if ds = [] then p else Some (last ds), drop (length ds) s, g)] else [])"
  by (induction ds p s g rule: run_lit.induct) auto

lemma is_prefix_append: "is_prefix (a @ b) s \<longleftrightarrow> is_prefix a s \<and> is_prefix b (drop (length a) s)"
  by (induction a s rule: is_prefix.induct) auto

lemma re_first_role:
  "re_first role_prefix p s = (if at_role s then Some (Some newline, drop 2 s, []) else None)"
proof -
  have marks: "at_role s \<longleftrightarrow> is_prefix blank_line s \<and>
      (is_prefix ''user'' (drop 2 s) \<and> is_prefix '': '' (drop 4 (drop 2 s)) \<or>
       is_prefix ''assistant'' (drop 2 s) \<and> is_prefix '': '' (drop 9 (drop 2 s)))"
    unfolding at_role_def role_marks_def
    using is_prefix_append [of blank_line "''user'' @ '': ''" s] is_prefix_append [of "''user''" "'': ''" "drop 2 s"]
      is_prefix_append [of blank_line "''assistant'' @ '': ''" s] is_prefix_append [of "''assistant''" "'': ''" "drop 2 s"]
    by (simp add: blank_line_def eval_nat_numeral) blast
  show ?thesis
    by (simp only: re_first_def role_prefix_def re_run.simps run_lit_prefix marks blank_line_def [symmetric])
      (auto simp: blank_line_def run_lit_prefix eval_nat_numeral)
qed

lemma split_role_step:
  "re_split_from role_prefix cur p s =
     (if at_role s then rev cur # re_split_from role_prefix [] (Some newline) (drop 2 s)
      else (case s of [] \<Rightarrow> [rev cur] | c # cs \<Rightarrow> re_split_from role_prefix (c # cur) (Some c) cs))"
proof -
  have "length (drop 2 s) < length s" if "at_role s"
    using that by (cases s) (auto simp: at_role_def role_marks_def blank_line_def)
  then show ?thesis
    by (subst re_split_from.simps) (simp add: re_first_role split: list.split)
qed

lemma at_role_drop: "at_role s \<Longrightarrow> s = blank_line @ drop 2 s"
  by (cases s) (auto simp: at_role_def role_marks_def blank_line_def is_prefix_iff)

lemma split_role_nonempty: "re_split_from role_prefix cur p s \<noteq> []"
proof (induction s arbitrary: cur p)
  case (Cons c cs)
  then show ?case by (subst split_role_step) simp
qed (subst split_role_step, simp)

lemma join_role_split: "py_join blank_line (re_split_from role_prefix cur p s) = rev cur @ s"
proof (induction s arbitrary: cur p rule: measure_induct_rule [where f = length])
  case (less s)
  show ?case
  proof (cases "at_role s")
    case True
    note s = at_role_drop [OF True]
    have "length (drop 2 s) < length s" by (subst (2) s) (simp add: blank_line_def)
    from less [OF this, of "[]" "Some newline"]
    have "py_join blank_line (re_split_from role_prefix [] (Some newline) (drop 2 s)) = drop 2 s" by simp
    moreover obtain x xs where "re_split_from role_prefix [] (Some newline) (drop 2 s) = x # xs"
      using split_role_nonempty by (metis neq_Nil_conv)
    ultimately show ?thesis using True s by (subst split_role_step) simp
  next
    case False
    show ?thesis
    proof (cases s)
      case Nil
      then show ?thesis using False by (subst split_role_step) simp
    next
      case (Cons c cs)
      then show ?thesis using False less [of cs "c # cur" "Some c"] by (subst split_role_step) simp
    qed
  qed
qed

lemma split_role_skip:
  "(\<And>k. k < length w \<Longrightarrow> \<not> at_role (drop k (w @ s))) \<Longrightarrow>
    \<exists>p'. re_split_from role_prefix cur p (w @ s) = re_split_from role_prefix (rev w @ cur) p' s"
proof (induction w arbitrary: cur p)
  case Nil
  then show ?case by auto
next
  case (Cons c w)
  have "\<not> at_role (drop k (w @ s))" if "k < length w" for k
    using Cons.prems [of "Suc k"] that by simp
  from Cons.IH [OF this, of "c # cur" "Some c"]
  obtain p' where "re_split_from role_prefix (c # cur) (Some c) (w @ s) = re_split_from role_prefix (rev w @ c # cur) p' s"
    by blast
  moreover have "\<not> at_role (c # w @ s)" using Cons.prems [of 0] by simp
  ultimately show ?case by (subst split_role_step) auto
qed

text \<open>A turn a transcript keeps apart: a known role, and no text in it that looks like the start
  of another turn.\<close>

definition plain_turn :: "turn \<Rightarrow> bool" where
  "plain_turn t \<longleftrightarrow> fst t \<in> {''user'', ''assistant''} \<and> \<not> list_ex (\<lambda>mk. contains mk (fst (snd t))) role_marks"

lemma contains_iff: "contains sep s \<longleftrightarrow> (\<exists>k \<le> length s. is_prefix sep (drop k s))"
proof (induction s)
  case Nil
  then show ?case by (cases sep) auto
next
  case (Cons c cs)
  have "(\<exists>k \<le> length (c # cs). is_prefix sep (drop k (c # cs))) \<longleftrightarrow>
      is_prefix sep (c # cs) \<or> (\<exists>k \<le> length cs. is_prefix sep (drop k cs))"
    by (metis Suc_le_mono drop0 drop_Suc_Cons length_Cons not0_implies_Suc zero_le)
  with Cons show ?case by simp
qed

text \<open>No mark can start inside a turn: a mark has its newlines in front, the next turn begins
  with two of its own.\<close>

lemma mark_shape:
  assumes "mk \<in> set role_marks"
  obtains ds where "mk = newline # newline # ds" "newline \<notin> set ds" "2 < length ds"
  using assms by (auto simp: role_marks_def blank_line_def)

lemma no_mark_across:
  assumes "mk \<in> set role_marks" "\<not> is_prefix mk (drop k w)" "k < length w" "s = [] \<or> (\<exists>r. s = blank_line @ r)"
  shows "\<not> is_prefix mk (drop k (w @ s))"
proof
  assume pre: "is_prefix mk (drop k (w @ s))"
  obtain ds where mk: "mk = newline # newline # ds" "newline \<notin> set ds" "2 < length ds" by (rule mark_shape [OF assms(1)])
  define u where "u = drop k w"
  have u: "u \<noteq> []" "drop k (w @ s) = u @ s" using assms(3) by (simp_all add: u_def)
  from pre obtain r where r: "u @ s = mk @ r" unfolding u(2) is_prefix_iff by blast
  have short: "length u < length mk"
  proof (rule ccontr)
    assume "\<not> length u < length mk"
    then have "take (length mk) u = mk" using r by (metis append_eq_append_conv_if linorder_not_less)
    then have "is_prefix mk u" by (metis append_take_drop_id is_prefix_iff)
    with assms(2) show False by (simp add: u_def)
  qed
  have "s \<noteq> []" using r short by auto
  then obtain t where s: "s = newline # newline # t" using assms(4) by (auto simp: blank_line_def)
  have nth: "(u @ s) ! (length u + j) = newline" if "j < 2" for j
    using that by (auto simp: s nth_append less_2_cases_iff)
  have tail: "(u @ s) ! n = ds ! (n - 2)" if "2 \<le> n" "n < length mk" for n
  proof -
    have "(u @ s) ! n = mk ! n" using that r by (simp add: nth_append)
    also have "\<dots> = ds ! (n - 2)" using that mk(1) by (cases n) (auto simp: nth_Cons split: nat.split)
    finally show ?thesis .
  qed
  define n where "n = (if length u = 1 then 2 else length u)"
  have n: "2 \<le> n" "n < length mk" "(u @ s) ! n = newline"
  proof -
    have "0 < length u" using u(1) by simp
    then have "length u = 1 \<or> 2 \<le> length u" by linarith
    then show "2 \<le> n" "n < length mk" using short mk(1,3) by (auto simp: n_def)
    show "(u @ s) ! n = newline"
    proof (cases "length u = 1")
      case True
      then show ?thesis using nth [of 1] by (simp only: n_def if_True) (simp add: numeral_2_eq_2)
    qed (use nth [of 0] in \<open>simp add: n_def\<close>)
  qed
  from tail [OF n(1,2)] n(3) have "ds ! (n - 2) = newline" by simp
  moreover have "n - 2 < length ds" using n(1,2) mk(1) by simp
  ultimately show False using mk(2) by (metis nth_mem)
qed

lemma at_role_iff: "at_role s \<longleftrightarrow> (\<exists>mk \<in> set role_marks. is_prefix mk s)"
  by (simp add: at_role_def list_ex_iff)

lemma role_in_turn:
  assumes "plain_turn t" "k < length (render_turn t)" "s = [] \<or> (\<exists>r. s = blank_line @ r)"
  shows "\<not> at_role (drop k (render_turn t @ s))"
proof
  assume "at_role (drop k (render_turn t @ s))"
  then obtain mk where mk: "mk \<in> set role_marks" "is_prefix mk (drop k (render_turn t @ s))"
    by (auto simp: at_role_iff)
  have "\<not> is_prefix mk (drop k (render_turn t))"
  proof
    assume "is_prefix mk (drop k (render_turn t))"
    then obtain r where r: "drop k (render_turn t) = mk @ r" by (auto simp: is_prefix_iff)
    obtain ds where ds: "mk = newline # newline # ds" by (rule mark_shape [OF mk(1)])
    let ?role = "fst t @ '': ''"
    have "newline \<notin> set ?role" using assms(1) by (auto simp: plain_turn_def)
    have first: "render_turn t ! k = newline" using r ds assms(2) by (metis append_Cons hd_drop_conv_nth list.sel(1))
    have "\<not> k < length ?role"
    proof
      assume "k < length ?role"
      moreover have "render_turn t = ?role @ fst (snd t)" by (simp add: render_turn_def)
      ultimately have "render_turn t ! k = ?role ! k" by (simp only: nth_append if_True)
      with first \<open>newline \<notin> set ?role\<close> \<open>k < length ?role\<close> show False by (metis nth_mem)
    qed
    then have "drop k ?role = []" by simp
    moreover have "render_turn t = ?role @ fst (snd t)" by (simp add: render_turn_def)
    ultimately have "drop k (render_turn t) = drop (k - length ?role) (fst (snd t))"
      by (simp only: drop_append append.simps)
    then have "is_prefix mk (drop (k - length ?role) (fst (snd t)))"
      using r unfolding is_prefix_iff by metis
    moreover have "k - length ?role \<le> length (fst (snd t))" using assms(2) by (simp add: render_turn_def)
    ultimately have "contains mk (fst (snd t))" by (auto simp: contains_iff)
    with assms(1) mk(1) show False by (auto simp: plain_turn_def list_ex_iff)
  qed
  with no_mark_across [OF mk(1) _ assms(2,3)] mk(2) show False by blast
qed

lemma split_role_turns:
  "list_all plain_turn (t # ts) \<Longrightarrow>
    re_split_from role_prefix [] p (render_transcript (t # ts)) = map render_turn (t # ts)"
proof (induction ts arbitrary: t p)
  case Nil
  then have "\<not> at_role (drop k (render_turn t @ []))" if "k < length (render_turn t)" for k
    using role_in_turn [of t k "[]"] that by simp
  from split_role_skip [OF this, of "[]" p] obtain p' where
    "re_split_from role_prefix [] p (render_turn t) = re_split_from role_prefix (rev (render_turn t)) p' []" by auto
  moreover have "\<not> at_role []" by (simp add: at_role_def role_marks_def blank_line_def)
  ultimately show ?case by (simp add: render_transcript_def) (subst split_role_step, simp)
next
  case (Cons u us)
  let ?rest = "blank_line @ render_transcript (u # us)"
  have whole: "render_transcript (t # u # us) = render_turn t @ ?rest"
    by (simp add: render_transcript_def)
  have "\<not> at_role (drop k (render_turn t @ ?rest))" if "k < length (render_turn t)" for k
    using role_in_turn [of t k ?rest] that Cons.prems by simp
  from split_role_skip [OF this, of "[]" p] obtain p' where
    skip: "re_split_from role_prefix [] p (render_turn t @ ?rest) = re_split_from role_prefix (rev (render_turn t)) p' ?rest"
    by auto
  have "at_role ?rest"
    using Cons.prems by (cases us)
      (auto simp: at_role_def role_marks_def render_transcript_def render_turn_def plain_turn_def blank_line_def)
  then have "re_split_from role_prefix (rev (render_turn t)) p' ?rest =
      render_turn t # re_split_from role_prefix [] (Some newline) (render_transcript (u # us))"
    by (subst split_role_step) (simp add: blank_line_def)
  moreover have "re_split_from role_prefix [] (Some newline) (render_transcript (u # us)) = map render_turn (u # us)"
    using Cons.prems by (intro Cons.IH) simp
  ultimately show ?case by (simp only: whole skip list.map)
qed

section \<open>Chunks as blocks of turns\<close>

text \<open>A block is a group of consecutive turns within the budget, or one turn over it.\<close>

type_synonym block = "string list + string"

definition block_turns :: "block \<Rightarrow> string list" where
  "block_turns b = (case b of Inl g \<Rightarrow> g | Inr t \<Rightarrow> [t])"

definition block_chunks :: "int \<Rightarrow> block \<Rightarrow> string list" where
  "block_chunks m b = (case b of Inl g \<Rightarrow> [py_join blank_line g] | Inr t \<Rightarrow> pack_paragraphs m t)"

definition block_ok :: "int \<Rightarrow> block \<Rightarrow> bool" where
  "block_ok m b = (case b of Inl g \<Rightarrow> g \<noteq> [] \<and> int (length (py_join blank_line g)) \<le> m | Inr t \<Rightarrow> int (length t) > m)"

lemma block_simps [simp]:
  "block_turns (Inl g) = g" "block_turns (Inr t) = [t]" "block_chunks m (Inl g) = [py_join blank_line g]"
  "block_chunks m (Inr t) = pack_paragraphs m t" "block_ok m (Inr t) = (int (length t) > m)"
  "block_ok m (Inl g) = (g \<noteq> [] \<and> int (length (py_join blank_line g)) \<le> m)"
  by (simp_all add: block_turns_def block_chunks_def block_ok_def)

lemma chunk_turns_blocks:
  assumes "[] \<notin> set us" "[] \<notin> set g" "g = [] \<or> int (length (join_units g)) \<le> m" "list_all (block_ok m) bs"
  shows "\<exists>bs' g'. chunk_turns m us (concat (map (block_chunks m) bs)) (join_units g) =
       (concat (map (block_chunks m) bs'), join_units g')
     \<and> concat (map block_turns bs') @ g' = concat (map block_turns bs) @ g @ us \<and> [] \<notin> set g'
     \<and> (g' = [] \<or> int (length (join_units g')) \<le> m) \<and> list_all (block_ok m) bs'"
  using assms
proof (induction us arbitrary: g bs)
  case Nil
  then show ?case by (intro exI [of _ bs] exI [of _ g]) simp
next
  case (Cons u us)
  have u: "u \<noteq> []" "[] \<notin> set us" using Cons.prems by auto
  have flushed: "list_all (block_ok m) (if g \<noteq> [] then bs @ [Inl g] else bs)" using Cons.prems by auto
  have cur: "join_units g = [] \<longleftrightarrow> g = []" by (rule join_units_Nil [OF Cons.prems(2)])
  consider "int (length u) > m" | "\<not> int (length u) > m" "g = []"
    | "\<not> int (length u) > m" "g \<noteq> []" "int (length (join_units g)) + int (length u) + 2 > m"
    | "\<not> int (length u) > m" "g \<noteq> []" "\<not> int (length (join_units g)) + int (length u) + 2 > m" by blast
  then show ?case
  proof cases
    case 1
    with Cons.IH [of "[]" "(if g \<noteq> [] then bs @ [Inl g] else bs) @ [Inr u]"] u flushed cur show ?thesis
      by (cases "g = []") auto
  next
    case 2
    with Cons.IH [of "[u]" bs] Cons.prems u show ?thesis by simp
  next
    case 3
    with Cons.IH [of "[u]" "bs @ [Inl g]"] Cons.prems u cur show ?thesis by simp
  next
    case 4
    have "int (length (join_units (g @ [u]))) \<le> m" using 4 by (simp add: py_join_snoc blank_line_def)
    with Cons.IH [of "g @ [u]" bs] Cons.prems u cur 4 show ?thesis by (simp add: py_join_snoc)
  qed
qed

lemma set_py_join_parts: "set (py_join sep us) \<subseteq> set sep \<union> (\<Union>u \<in> set us. set u)"
  by (induction sep us rule: py_join.induct) auto

lemma all_blank_turns:
  assumes "filter (\<lambda>t. py_strip t \<noteq> []) (re_split role_prefix txt) = []"
  shows "pack_paragraphs m txt = []"
proof -
  have "txt = py_join blank_line (re_split role_prefix txt)"
    using join_role_split [of "[]" None "txt"] by (simp add: re_split_def)
  then have "set txt \<subseteq> set blank_line \<union> (\<Union>u \<in> set (re_split role_prefix txt). set u)"
    using set_py_join_parts by metis
  moreover have "\<forall>u \<in> set (re_split role_prefix txt). list_all is_space u"
    using assms by (simp add: filter_empty_conv py_strip_Nil)
  moreover have "is_space newline" by (simp add: is_space_def in_range_def ord_of_def)
  ultimately have "list_all is_space txt" by (fastforce simp: list_all_iff blank_line_def)
  then have "py_strip txt = []" by (simp add: py_strip_Nil)
  then show ?thesis by (simp add: pack_paragraphs_def blank_paragraphs)
qed

section \<open>Records of an export\<close>

definition activity :: "raw_record \<Rightarrow> int" where
  "activity r = (case map_of (rec_metadata r) ''last_activity_ms'' of Some (JInt i) \<Rightarrow> i | _ \<Rightarrow> 0)"

definition count_in :: "string \<Rightarrow> raw_record \<Rightarrow> int" where
  "count_in k r = (case map_of (rec_metadata r) k of Some (JInt i) \<Rightarrow> i | _ \<Rightarrow> 0)"

definition export_record :: "bool \<Rightarrow> raw_record \<Rightarrow> bool" where
  "export_record sensitive r \<longleftrightarrow> rec_connector r = ''chatgpt'' \<and> rec_sensitive r = sensitive \<and> rec_participants r = []
     \<and> rec_external_id r \<noteq> [] \<and> rec_body r \<noteq> [] \<and> rec_occurred_at_ms r \<le> activity r
     \<and> 1 \<le> count_in ''message_count'' r
     \<and> count_in ''user_messages'' r + count_in ''assistant_messages'' r = count_in ''message_count'' r"

lemma turn_of_role: "turn_of m = Inr ts \<Longrightarrow> t \<in> set ts \<Longrightarrow> fst t \<in> {''user'', ''assistant''}"
  by (auto simp: turn_of_def Let_def split: option.splits if_splits elim!: bind_e_InrE)

lemma map_e_member: "map_e f xs = Inr ys \<Longrightarrow> y \<in> set ys \<Longrightarrow> \<exists>x \<in> set xs. f x = Inr y"
  by (induction xs arbitrary: ys) (auto elim!: bind_e_InrE)

lemma turns_of_roles:
  assumes "turns_of ms = Inr ts" "t \<in> set ts"
  shows "fst t \<in> {''user'', ''assistant''}"
proof -
  from assms obtain tss us m where "map_e turn_of ms = Inr tss" "us \<in> set tss" "t \<in> set us"
    by (auto simp: turns_of_def elim!: bind_e_InrE)
  then show ?thesis using map_e_member turn_of_role by meson
qed

lemma role_counts:
  assumes "\<And>t. t \<in> set ts \<Longrightarrow> fst t \<in> {''user'', ''assistant''}"
  shows "length (filter (\<lambda>t. fst t = ''user'') ts) + length (filter (\<lambda>t. fst t = ''assistant'') ts) = length ts"
proof -
  have "filter (\<lambda>t. fst t = ''assistant'') ts = filter (\<lambda>t. fst t \<noteq> ''user'') ts"
    using assms by (intro filter_cong) auto
  then show ?thesis by (simp add: sum_length_filter_compl)
qed

lemma external_id_nonempty: "external_id_of conv = Some i \<Longrightarrow> i \<noteq> []"
proof -
  have "(case j of Some (JStr s) \<Rightarrow> if s \<noteq> [] then Some s else None | _ \<Rightarrow> None) = Some i \<Longrightarrow> i \<noteq> []" for j
    by (auto split: option.splits json.splits if_splits)
  then show "external_id_of conv = Some i \<Longrightarrow> i \<noteq> []" unfolding external_id_of_def Let_def by blast
qed

lemma conversation_record:
  assumes "conversation_to_record j sensitive = Inr (Some (r, latest))"
  shows "export_record sensitive r \<and> activity r = latest"
proof -
  from assms obtain conv where j: "j = JObj conv" by (cases j) (simp_all add: conversation_to_record_def)
  from assms obtain ms ts i created updated where
    ts: "turns_of ms = Inr ts" "ts \<noteq> []" and i: "external_id_of conv = Some i"
    and r: "r = record_of conv sensitive ts i (created_ms created (message_times ts) updated) latest"
    and latest: "latest = last_activity_ms (created_ms created (message_times ts) updated) updated (message_times ts)"
    unfolding j by (auto simp: conversation_to_record_def Let_def split: option.splits if_splits elim!: bind_e_InrE)
  have id: "i \<noteq> []" using i by (rule external_id_nonempty)
  have act: "activity r = latest" by (simp add: r activity_def record_of_def)
  obtain t us where "ts = t # us" using ts(2) by (cases ts) auto
  then have body: "rec_body r \<noteq> []"
    by (cases us) (simp_all add: r record_of_def render_transcript_def render_turn_def)
  have "created_ms created (message_times ts) updated \<le> latest"
    unfolding latest last_activity_ms_def by (rule Max_ge) simp_all
  moreover have "int (length (filter (\<lambda>t. fst t = ''user'') ts)) + int (length (filter (\<lambda>t. fst t = ''assistant'') ts)) = int (length ts)"
  proof -
    have "length (filter (\<lambda>t. fst t = ''user'') ts) + length (filter (\<lambda>t. fst t = ''assistant'') ts) = length ts"
      by (rule role_counts) (rule turns_of_roles [OF ts(1)])
    then show ?thesis by linarith
  qed
  moreover have "1 \<le> int (length ts)" using ts(2) by (cases ts) auto
  ultimately show ?thesis
    using id act body by (simp add: export_record_def count_in_def) (simp add: r record_of_def count_in_def)
qed

lemma parse_one_eq:
  "parse_one since sensitive j = bind_e (parse_one low sensitive j) (\<lambda>rs. Inr (filter (\<lambda>r. since \<le> activity r) rs))"
  if "low \<le> since"
proof (cases "conversation_to_record j sensitive")
  case (Inr parsed)
  then show ?thesis
    using that conversation_record [of j sensitive]
    by (cases parsed) (auto simp: parse_one_def split: prod.splits)
qed (simp add: parse_one_def)

lemma map_e_filter:
  "(\<And>x. x \<in> set xs \<Longrightarrow> f x = bind_e (g x) (\<lambda>rs. Inr (filter P rs))) \<Longrightarrow>
    map_e f xs = bind_e (map_e g xs) (\<lambda>rss. Inr (map (filter P) rss))"
proof (induction xs)
  case (Cons x xs)
  have "map_e f xs = bind_e (map_e g xs) (\<lambda>rss. Inr (map (filter P) rss))" using Cons by simp
  then show ?case using Cons.prems [of x] by (cases "g x"; cases "map_e g xs") simp_all
qed simp

lemma parse_export_records:
  assumes "parse_export p since sensitive = Inr rs" "r \<in> set rs"
  shows "export_record sensitive r \<and> since \<le> activity r"
proof -
  from assms obtain js where p: "p = JArr js" by (cases p) (auto simp: parse_export_def)
  from assms obtain rss us where "map_e (parse_one since sensitive) js = Inr rss" "us \<in> set rss" "r \<in> set us"
    by (auto simp: parse_export_def p elim!: bind_e_InrE)
  then obtain j where "parse_one since sensitive j = Inr us" using map_e_member by meson
  then obtain parsed where parsed: "conversation_to_record j sensitive = Inr parsed"
    "us = (case parsed of None \<Rightarrow> [] | Some (rec, latest) \<Rightarrow> if since \<le> latest then [rec] else [])"
    unfolding parse_one_def by (elim bind_e_InrE) simp
  with \<open>r \<in> set us\<close> obtain latest where "parsed = Some (r, latest)" "since \<le> latest"
    by (auto split: option.splits if_splits)
  with parsed conversation_record show ?thesis by blast
qed

section \<open>Where an export may be\<close>

lemma safe_owner_shape:
  assumes "re_match safe_owner s"
  shows "\<exists>c w. in_cset owner_first c \<and> list_all (in_cset owner_rest) w \<and> (s = c # w \<or> s = c # w @ [newline])"
proof -
  from assms have ne: "re_run safe_owner (None, s, []) \<noteq> []"
    by (auto simp: re_match_def re_first_def split: list.splits)
  then obtain c cs where s: "s = c # cs" and c: "in_cset owner_first c"
    and rest: "re_run (RCat (RRep True owner_rest 0 (Some 127)) REol) (Some c, cs, []) \<noteq> []"
    by (cases s) (auto simp: safe_owner_def simp del: re_run.simps(3) split: if_splits)
  obtain k where k: "k \<le> length (takeWhile (in_cset owner_rest) cs)" "drop k cs = [] \<or> drop k cs = [newline]"
  proof -
    from rest obtain st where st: "st \<in> set (re_run (RRep True owner_rest 0 (Some 127)) (Some c, cs, []))"
      "re_run REol st \<noteq> []"
      by (auto simp del: re_run.simps(3))
    from st(1) obtain k where k: "k \<le> length (takeWhile (in_cset owner_rest) cs)"
      "st = (if k = 0 then Some c else Some (cs ! (k - 1)), drop k cs, [])"
      unfolding set_anchored_rep by blast
    have "drop k cs = [] \<or> drop k cs = [newline]" using st(2) unfolding k(2) re_run.simps by argo
    with k(1) that show ?thesis by blast
  qed
  then have "list_all (in_cset owner_rest) (take k cs)" using takeWhile_at_least [of k "in_cset owner_rest" cs] by simp
  moreover have "cs = take k cs \<or> cs = take k cs @ [newline]" using k(2) by (metis append_Nil2 append_take_drop_id)
  ultimately show ?thesis using c s by blast
qed

text \<open>A name that stays inside its directory.\<close>

definition plain_name :: "string \<Rightarrow> bool" where
  "plain_name c \<longleftrightarrow> CHR ''/'' \<notin> set c \<and> c \<notin> {[], ''.'', ''..''}"

lemma safe_owner_plain:
  assumes "re_match safe_owner s" "CHR ''/'' \<notin> set sfx"
  shows "plain_name (s @ sfx)"
proof -
  obtain c w where s: "in_cset owner_first c" "list_all (in_cset owner_rest) w" "s = c # w \<or> s = c # w @ [newline]"
    using safe_owner_shape [OF assms(1)] by blast
  have "\<not> in_cset owner_first CHR ''/''" "\<not> in_cset owner_first CHR ''.''" "\<not> in_cset owner_rest CHR ''/''"
    by (simp_all add: owner_first_def owner_rest_def in_range_def ord_of_def)
  then have "c \<noteq> CHR ''/''" "c \<noteq> CHR ''.''" "CHR ''/'' \<notin> set w"
    using s(1,2) by (auto simp: list_all_iff)
  with s(3) assms(2) show ?thesis by (auto simp: plain_name_def)
qed

lemma export_path_cases:
  assumes "resolve_export_path fs (Some d) owner = Inr p"
  obtains "re_match safe_owner owner" "p \<in> set (take 3 (candidate_paths d owner))" "fs_is_file fs p"
  | z where "re_match safe_owner owner" "p = d @ [owner, z]" "z \<in> set (fs_names fs (d @ [owner]))" "is_suffix ''.zip'' z"
proof -
  have safe: "re_match safe_owner owner" using assms by (auto simp: resolve_export_path_def split: if_splits)
  show ?thesis
  proof (cases "filter (fs_is_file fs) (take 3 (candidate_paths d owner))")
    case Nil
    let ?zips = "if fs_is_dir fs (d @ [owner]) then sort (filter (is_suffix ''.zip'') (fs_names fs (d @ [owner]))) else []"
    have p: "?zips \<noteq> []" "p = d @ [owner, last ?zips]"
      using assms safe Nil by (auto simp: resolve_export_path_def Let_def split: if_splits)
    then have "last ?zips \<in> set ?zips" by (intro last_in_set)
    then have "last ?zips \<in> set (fs_names fs (d @ [owner]))" "is_suffix ''.zip'' (last ?zips)"
      by (auto split: if_splits)
    with p(2) safe that(2) show ?thesis by blast
  next
    case (Cons q qs)
    with assms safe have "p = q" by (simp add: resolve_export_path_def)
    moreover have "q \<in> set (take 3 (candidate_paths d owner))" "fs_is_file fs q"
      using filter_eq_ConsD [OF Cons] by auto
    ultimately show ?thesis using safe that(1) by blast
  qed
qed

section \<open>Properties\<close>

text \<open>C30: the walk of a conversation ends, also on cyclic or broken mappings, and follows one
  branch: distinct nodes from the first root on, each the last child of the one before, until
  a node has no child, or the child is missing or was visited. Its messages are those of the
  nodes, in order, and it fails exactly when the parent of a node is not hashable.\<close>

theorem walk_linear_branch:
  "case roots m of
     Inl e \<Rightarrow> m \<noteq> [] \<longrightarrow> walk_linear m = Inl e
   | Inr rs \<Rightarrow> \<exists>is. walk_linear m = Inr (concat (map (messages_at m) is)) \<and> distinct is \<and> is_branch m is
       \<and> (is \<noteq> [] \<longrightarrow> hd is = hd rs \<and> branch_ends m is (next_on_branch m (last is)))
       \<and> (is = [] \<longrightarrow> m = [] \<or> rs = [] \<or> dict_in (hd rs) m = None)"
proof (cases "roots m")
  case (Inr rs)
  show ?thesis
  proof (cases "m = [] \<or> rs = []")
    case True
    then show ?thesis using Inr
      by (auto simp: walk_linear_def intro!: exI [of _ "[]"])
  next
    case False
    then obtain r rs' where rs: "rs = r # rs'" by (cases rs) auto
    from walk_from_branch [of m "[]" r] False Inr show ?thesis
      by (auto simp: walk_linear_def rs branch_ends_def)
  qed
qed (simp add: walk_linear_def)


text \<open>C36: the chunks of a transcript keep its turns. In order, they are groups of consecutive
  non-blank turns within the budget, joined by blank lines, and the paragraphs of a single
  turn that is over the budget; nothing is lost and no other chunk exceeds the budget.\<close>

theorem chunk_transcript_blocks:
  "\<exists>bs. concat (map block_turns bs) = filter (\<lambda>t. py_strip t \<noteq> []) (re_split role_prefix s)
     \<and> chunk_transcript s m = concat (map (block_chunks m) bs) \<and> list_all (block_ok m) bs"
proof (cases "filter (\<lambda>t. py_strip t \<noteq> []) (re_split role_prefix s)")
  case Nil
  then show ?thesis by (intro exI [of _ "[]"]) (simp add: chunk_transcript_def all_blank_turns)
next
  case (Cons t ts)
  let ?us = "filter (\<lambda>t. py_strip t \<noteq> []) (re_split role_prefix s)"
  have "[] \<notin> set ?us" by (auto simp: py_strip_def)
  from chunk_turns_blocks [OF this, of "[]" m "[]"] obtain bs g where
    run: "chunk_turns m ?us [] [] = (concat (map (block_chunks m) bs), join_units g)"
    and all: "concat (map block_turns bs) @ g = ?us" "[] \<notin> set g" "g = [] \<or> int (length (join_units g)) \<le> m"
      "list_all (block_ok m) bs"
    by auto
  have "chunk_transcript s m = concat (map (block_chunks m) (if g = [] then bs else bs @ [Inl g]))"
    using run Cons join_units_Nil [OF all(2)] by (simp add: chunk_transcript_def)
  with all show ?thesis by (intro exI [of _ "if g = [] then bs else bs @ [Inl g]"]) auto
qed

text \<open>Importing since a later time is filtering the earlier import by last activity, and it
  fails exactly when that one does. Every record has a conversation id, a non-empty body, as
  many messages as user and assistant turns together, started no later than its last
  activity, and carries the sensitivity flag of the settings.\<close>

theorem parse_export_since:
  assumes "low \<le> since"
  shows "parse_export p since sensitive =
      bind_e (parse_export p low sensitive) (\<lambda>rs. Inr (filter (\<lambda>r. since \<le> activity r) rs))
     \<and> (case parse_export p low sensitive of Inl e \<Rightarrow> True
        | Inr rs \<Rightarrow> list_all (\<lambda>r. export_record sensitive r \<and> low \<le> activity r) rs)"
proof
  show "parse_export p since sensitive =
      bind_e (parse_export p low sensitive) (\<lambda>rs. Inr (filter (\<lambda>r. since \<le> activity r) rs))"
  proof (cases p)
    case (JArr js)
    have "map_e (parse_one since sensitive) js =
        bind_e (map_e (parse_one low sensitive) js) (\<lambda>rss. Inr (map (filter (\<lambda>r. since \<le> activity r)) rss))"
      by (rule map_e_filter) (rule parse_one_eq [OF assms])
    then show ?thesis by (simp add: JArr parse_export_def bind_e_assoc filter_concat)
  qed (simp_all add: parse_export_def)
  show "case parse_export p low sensitive of Inl e \<Rightarrow> True
        | Inr rs \<Rightarrow> list_all (\<lambda>r. export_record sensitive r \<and> low \<le> activity r) rs"
    using parse_export_records [of p low sensitive] by (cases "parse_export p low sensitive") (auto simp: list_all_iff)
qed

text \<open>C29: an export is only read from below the configured directory. Whatever the owner id,
  the path found extends the directory by one or two names, and when the listing of a
  directory holds plain names none of them is empty, contains a slash or is a dot name; an id
  with any of these is refused.\<close>

theorem export_path_confined:
  assumes "resolve_export_path fs (Some d) owner = Inr p"
    and "\<And>q. list_all (\<lambda>n. CHR ''/'' \<notin> set n) (fs_names fs q)"
  shows "\<exists>rest. p = d @ rest \<and> rest \<noteq> [] \<and> length rest \<le> 2 \<and> list_all plain_name rest
     \<and> is_prefix owner (hd rest)"
  using assms(1)
proof (cases rule: export_path_cases)
  case 1
  note plain = safe_owner_plain [OF 1(1)]
  have sfx: "plain_name owner" "plain_name (owner @ ''.json'')" "plain_name (owner @ ''.zip'')"
    using plain [of "[]"] plain [of "''.json''"] plain [of "''.zip''"] by simp_all
  have "plain_name conversations_json" by (simp add: plain_name_def conversations_json_def)
  then have names: "list_all plain_name rest \<and> length rest \<le> 2 \<and> rest \<noteq> [] \<and> is_prefix owner (hd rest)"
    if "rest \<in> {[owner, conversations_json], [owner @ ''.json''], [owner @ ''.zip'']}" for rest
    using that sfx by (auto simp: is_prefix_iff)
  have "p \<in> {d @ [owner, conversations_json], d @ [owner @ ''.json''], d @ [owner @ ''.zip'']}"
    using 1(2) by (auto simp: candidate_paths_def take_Cons')
  with names show ?thesis by blast
next
  case (2 z)
  have "plain_name owner" using safe_owner_plain [OF 2(1), of "[]"] by simp
  moreover have "plain_name z"
  proof -
    have "CHR ''/'' \<notin> set z" using assms(2) [of "d @ [owner]"] 2(3) by (auto simp: list_all_iff)
    moreover have "z \<notin> {[], ''.'', ''..''}" using 2(4) by (auto simp: is_suffix_def)
    ultimately show ?thesis by (simp add: plain_name_def)
  qed
  ultimately show ?thesis using 2(2) by (intro exI [of _ "[owner, z]"]) (simp add: is_prefix_iff)
qed

section \<open>Concrete exports\<close>

text \<open>A mapping whose two nodes are each other's children.\<close>

definition looped :: dict where
  "looped = [(''a'', JObj [(''message'', JObj [(''id'', JStr ''m'')]), (''children'', JArr [JStr ''b''])]),
             (''b'', JObj [(''parent'', JStr ''a''), (''children'', JArr [JNull, JStr ''a'', JInt 3])])]"

theorem walk_linear_branch_witness:
  "roots looped = Inr [''a''] \<and> walk_linear looped = Inr [[(''id'', JStr ''m'')]]
   \<and> (\<exists>is. walk_linear looped = Inr (concat (map (messages_at looped) is)) \<and> distinct is)"
proof -
  have r: "roots looped = Inr [''a'']" by code_simp
  moreover have "walk_linear looped = Inr [[(''id'', JStr ''m'')]]" by code_simp
  ultimately show ?thesis using walk_linear_branch [of looped] by auto
qed


text \<open>A turn that quotes the start of another is split in the middle.\<close>

lemma quoted_turn_splits:
  "re_split role_prefix (render_transcript [(''user'', ''you wrote:'' @ blank_line @ ''assistant: no'', None)]) =
     [''user: you wrote:'', ''assistant: no'']"
  by code_simp

definition small_export :: json where
  "small_export = JArr [JNull, export_conversation ''c1'' ''T'' 1 2 ''q'' ''r'']"

lemma small_times:
  "ms_of (Some (JFloat (Fin 1 0))) = Inr (Some 1000)" "ms_of (Some (JFloat (Fin 2 0))) = Inr (Some 2000)"
  "ms_of (Some (JFloat (Fin 61 0))) = Inr (Some 61000)"
  by (simp_all add: ms_of_def times_1000_def round_double_def int_of_float_def round_even_def bit_length.simps)

lemma small_walk: "walk_linear (mapping_of (case export_conversation ''c1'' ''T'' 1 2 ''q'' ''r'' of JObj d \<Rightarrow> d | _ \<Rightarrow> [])) =
    Inr (map (\<lambda>(i, role, at_s, txt, extra). [(''id'', JStr i), (''author'', JObj [(''role'', JStr role)]),
          (''create_time'', JFloat (Fin at_s 0)),
          (''content'', JObj [(''content_type'', JStr ''text''), (''parts'', JArr [JStr txt])])] @ extra)
      [(''m1'', ''user'', 1, ''q'', []), (''m2'', ''assistant'', 61, ''r'', [(''metadata'', JObj [(''model_slug'', JStr ''gpt-4o'')])])])"
  by code_simp

lemma small_parsed:
  "\<exists>r. parse_export small_export 0 True = Inr [r] \<and> rec_body r = ''user: q'' @ blank_line @ ''assistant: r''
     \<and> rec_occurred_at_ms r = 1000 \<and> activity r = 61000 \<and> rec_title r = ''T''"
proof -
  have strip: "py_strip ''q'' = ''q''" "py_strip ''r'' = ''r''" "py_strip ''T'' = ''T''" by code_simp+
  show ?thesis
    using small_walk
    by (simp add: small_export_def parse_export_def parse_one_def conversation_to_record_def export_conversation_def
        export_message_def turns_of_def turn_of_def role_of_def is_hidden_def message_text_def part_text_def dict_in_def
        text_in_def strip small_times external_id_of_def message_times_def created_ms_def or_ms_def or_zero_def
        last_activity_ms_def record_of_def title_for_def render_transcript_def render_turn_def activity_def mapping_of_def)
qed

theorem parse_export_since_witness:
  "parse_export small_export 61001 True = Inr []
   \<and> (\<exists>rs. parse_export small_export 0 True = Inr rs \<and> list_all (export_record True) rs \<and> length rs = 1)"
proof -
  obtain r where r: "parse_export small_export 0 True = Inr [r]" "activity r = 61000" using small_parsed by blast
  show ?thesis using parse_export_since [of 0 61001 small_export True] r by simp
qed

definition sample_fs :: filesystem where
  "sample_fs = \<lparr>fs_is_file = (\<lambda>p. False), fs_is_dir = (\<lambda>p. p = [''exports'', ''ann'']),
     fs_names = (\<lambda>p. if p = [''exports'', ''ann''] then [''b.zip'', ''a.zip'', ''notes.txt''] else []),
     fs_is_zip = (\<lambda>p. True), fs_zip_names = (\<lambda>p. []), fs_zip_json = (\<lambda>p n. Inl NotImplementedError),
     fs_json = (\<lambda>p. Inl NotImplementedError), fs_expand = (\<lambda>d. [d])\<rparr>"

theorem export_path_confined_witness:
  "resolve_export_path sample_fs (Some [''exports'']) ''ann'' = Inr [''exports'', ''ann'', ''b.zip'']
   \<and> (\<exists>rest. [''exports'', ''ann'', ''b.zip''] = [''exports''] @ rest \<and> list_all plain_name rest)"
proof -
  have run: "resolve_export_path sample_fs (Some [''exports'']) ''ann'' = Inr [''exports'', ''ann'', ''b.zip'']"
    by code_simp
  have "list_all (\<lambda>n. CHR ''/'' \<notin> set n) (fs_names sample_fs q)" for q
    by (simp add: sample_fs_def)
  from export_path_confined [OF run this] run show ?thesis by blast
qed

text \<open>\<open>$\<close> lets an owner id end in a newline.\<close>

lemma owner_newline: "re_match safe_owner (''ann'' @ [newline])"
  by code_simp

end
