(* ===== verification/Sha256.thy ===== *)
theory Sha256
  imports Base64 Formatting "HOL-Library.Word"
begin

text \<open>
  \<open>hashlib.sha256\<close>, which derives the ids of extracted objects and the buckets of the token
  embedder. The compression function works on 32-bit words; addition wraps. Bytes are
  characters, as in \<open>Base64\<close>. The length field holds the number of bits modulo \<open>2 ^ 64\<close>.
\<close>

unbundle bit_operations_syntax

section \<open>Padding\<close>

fun be_bytes :: "nat \<Rightarrow> int \<Rightarrow> string" where
  "be_bytes 0 n = []"
| "be_bytes (Suc k) n = be_bytes k (n div 256) @ [char_of (n mod 256)]"

definition be_int :: "string \<Rightarrow> int" where
  "be_int bs = foldl (\<lambda>n b. n * 256 + of_char b) 0 bs"

definition zero_bytes :: "nat \<Rightarrow> nat" where
  "zero_bytes len = (119 - len mod 64) mod 64"

definition padded :: "string \<Rightarrow> string" where
  "padded msg = msg @ CHR 0x80 # replicate (zero_bytes (length msg)) (CHR 0x00) @ be_bytes 8 (8 * int (length msg))"

fun groups :: "nat \<Rightarrow> nat \<Rightarrow> 'a list \<Rightarrow> 'a list list" where
  "groups k 0 xs = []"
| "groups k (Suc n) xs = take k xs # groups k n (drop k xs)"

section \<open>Compression\<close>

type_synonym w32 = "32 word"
type_synonym chain = "w32 \<times> w32 \<times> w32 \<times> w32 \<times> w32 \<times> w32 \<times> w32 \<times> w32"

definition rotr :: "nat \<Rightarrow> w32 \<Rightarrow> w32" where
  "rotr n x = (drop_bit n x OR push_bit (32 - n) x)"

definition expand_next :: "w32 list \<Rightarrow> w32" where
  "expand_next ws =
     (let a = ws ! 14; b = ws ! 1 in
        (rotr 17 a XOR rotr 19 a XOR drop_bit 10 a) + ws ! 9
        + (rotr 7 b XOR rotr 18 b XOR drop_bit 3 b) + ws ! 0)"

text \<open>The schedule from a window of 16 words: \<open>n\<close> words, the window moving on with each.\<close>

fun schedule :: "nat \<Rightarrow> w32 list \<Rightarrow> w32 list" where
  "schedule 0 ws = []"
| "schedule (Suc n) ws = ws ! 0 # schedule n (drop 1 ws @ [expand_next ws])"

fun sha_round :: "w32 \<times> w32 \<Rightarrow> chain \<Rightarrow> chain" where
  "sha_round (k, w) (a, b, c, d, e, f, g, h) =
     (let t1 = h + (rotr 6 e XOR rotr 11 e XOR rotr 25 e) + ((e AND f) XOR (NOT e AND g)) + k + w;
          t2 = (rotr 2 a XOR rotr 13 a XOR rotr 22 a) + ((a AND b) XOR (a AND c) XOR (b AND c))
      in (t1 + t2, a, b, c, d + t1, e, f, g))"

text \<open>The fractional bits of the square and cube roots of the first primes.\<close>

definition initial_chain :: "w32 list" where
  "initial_chain =
    [1779033703, 3144134277, 1013904242, 2773480762,
     1359893119, 2600822924, 528734635, 1541459225]"

definition round_keys :: "w32 list" where
  "round_keys =
    [1116352408, 1899447441, 3049323471, 3921009573, 961987163, 1508970993,
     2453635748, 2870763221, 3624381080, 310598401, 607225278, 1426881987,
     1925078388, 2162078206, 2614888103, 3248222580, 3835390401, 4022224774,
     264347078, 604807628, 770255983, 1249150122, 1555081692, 1996064986,
     2554220882, 2821834349, 2952996808, 3210313671, 3336571891, 3584528711,
     113926993, 338241895, 666307205, 773529912, 1294757372, 1396182291,
     1695183700, 1986661051, 2177026350, 2456956037, 2730485921, 2820302411,
     3259730800, 3345764771, 3516065817, 3600352804, 4094571909, 275423344,
     430227734, 506948616, 659060556, 883997877, 958139571, 1322822218,
     1537002063, 1747873779, 1955562222, 2024104815, 2227730452, 2361852424,
     2428436474, 2756734187, 3204031479, 3329325298]"

fun chain_list :: "chain \<Rightarrow> w32 list" where
  "chain_list (a, b, c, d, e, f, g, h) = [a, b, c, d, e, f, g, h]"

fun list_chain :: "w32 list \<Rightarrow> chain" where
  "list_chain (a # b # c # d # e # f # g # h # ws) = (a, b, c, d, e, f, g, h)"
| "list_chain ws = (0, 0, 0, 0, 0, 0, 0, 0)"

definition compress :: "string \<Rightarrow> w32 list \<Rightarrow> w32 list" where
  "compress block hs =
     (let ws = schedule 64 (map (\<lambda>g. word_of_int (be_int g)) (groups 4 16 block))
      in map2 (+) hs (chain_list (fold sha_round (zip round_keys ws) (list_chain hs))))"

section \<open>Digest\<close>

definition sha256 :: "string \<Rightarrow> string" where
  "sha256 msg =
     (let m = padded msg
      in concat (map (\<lambda>w. be_bytes 4 (uint w))
           (fold compress (groups 64 (length m div 64) m) initial_chain)))"

definition hex_byte :: "char \<Rightarrow> string" where
  "hex_byte b = [hex_digit (ord_of b div 16), hex_digit (ord_of b mod 16)]"

definition hexdigest :: "string \<Rightarrow> string" where
  "hexdigest msg = concat (map hex_byte (sha256 msg))"

section \<open>The shape of a digest\<close>

lemma length_be_bytes [simp]: "length (be_bytes k n) = k"
  by (induction k arbitrary: n) simp_all

lemma length_chain_list [simp]: "length (chain_list c) = 8"
  by (cases c rule: chain_list.cases) simp

lemma length_compress: "length hs = 8 \<Longrightarrow> length (compress block hs) = 8"
  by (simp add: compress_def Let_def)

lemma length_fold_compress: "length hs = 8 \<Longrightarrow> length (fold compress blocks hs) = 8"
  by (induction blocks arbitrary: hs) (simp_all add: length_compress)

lemma length_concat_same: "(\<And>x. x \<in> set xs \<Longrightarrow> length (f x) = k) \<Longrightarrow> length (concat (map f xs)) = k * length xs"
  by (induction xs) (simp_all add: algebra_simps)

lemma length_sha256: "length (sha256 msg) = 32"
proof -
  have "length initial_chain = 8" by (simp add: initial_chain_def)
  then show ?thesis
    unfolding sha256_def Let_def by (subst length_concat_same [where k = 4]) (simp_all add: length_fold_compress)
qed

lemma length_hexdigest: "length (hexdigest msg) = 64"
  unfolding hexdigest_def by (subst length_concat_same [where k = 2]) (simp_all add: hex_byte_def length_sha256)

definition hex_chars :: string where
  "hex_chars = ''0123456789abcdef''"

lemma hex_digit_chars: "n < 16 \<Longrightarrow> hex_digit n \<in> set hex_chars"
proof -
  have "list_all (\<lambda>n. hex_digit n \<in> set hex_chars) [0..<16]" by code_simp
  then show "n < 16 \<Longrightarrow> hex_digit n \<in> set hex_chars" by (simp add: list_all_iff)
qed

lemma set_hexdigest: "set (hexdigest msg) \<subseteq> set hex_chars"
proof -
  have "ord_of b div 16 < 16" for b by (simp add: ord_of_def less_mult_imp_div_less)
  then show ?thesis by (auto simp: hexdigest_def hex_byte_def hex_digit_chars)
qed

end
