(* ===== verification/Dates.thy ===== *)
theory Dates
  imports PyRegex
begin

text \<open>
  The part of \<open>datetime\<close> the extractors use: \<open>strptime\<close> and \<open>strftime\<close> with the format
  \<open>%Y-%m-%d\<close>, in UTC. A date is a day number, 1 for 0001-01-01, as in \<open>date.toordinal\<close>.
  The seconds and milliseconds of a whole day are small enough for a double to hold
  exactly, so times are integers here.
\<close>

section \<open>The calendar\<close>

definition is_leap :: "int \<Rightarrow> bool" where
  "is_leap y \<longleftrightarrow> y mod 4 = 0 \<and> (y mod 100 \<noteq> 0 \<or> y mod 400 = 0)"

definition days_before_year :: "int \<Rightarrow> int" where
  "days_before_year y = (let p = y - 1 in p * 365 + p div 4 - p div 100 + p div 400)"

definition days_in_month :: "int \<Rightarrow> int \<Rightarrow> int" where
  "days_in_month y m =
     (if m = 2 then (if is_leap y then 29 else 28)
      else if m = 4 \<or> m = 6 \<or> m = 9 \<or> m = 11 then 30 else 31)"

definition days_before_month :: "int \<Rightarrow> int \<Rightarrow> int" where
  "days_before_month y m = sum_list (map (days_in_month y) [1..m - 1])"

definition valid_date :: "int \<Rightarrow> int \<Rightarrow> int \<Rightarrow> bool" where
  "valid_date y m d \<longleftrightarrow> 1 \<le> y \<and> y \<le> 9999 \<and> 1 \<le> m \<and> m \<le> 12 \<and> 1 \<le> d \<and> d \<le> days_in_month y m"

definition ordinal :: "int \<Rightarrow> int \<Rightarrow> int \<Rightarrow> int" where
  "ordinal y m d = days_before_year y + days_before_month y m + d"

text \<open>The inverse: the last year, then the last month, that starts before the day.\<close>

definition year_of :: "int \<Rightarrow> int" where
  "year_of n = (let y = (400 * (n - 1)) div 146097 + 1
     in if n \<le> days_before_year y then y - 1
        else if days_before_year (y + 1) < n then y + 1 else y)"

fun month_from :: "int \<Rightarrow> int list \<Rightarrow> int \<Rightarrow> int \<times> int" where
  "month_from y [] k = (12, k)"
| "month_from y (m # ms) k =
     (if k \<le> days_in_month y m then (m, k) else month_from y ms (k - days_in_month y m))"

definition date_of_ordinal :: "int \<Rightarrow> int \<times> int \<times> int" where
  "date_of_ordinal n =
     (let y = year_of n; (m, d) = month_from y [1..12] (n - days_before_year y) in (y, m, d))"

section \<open>Parsing\<close>

definition digits :: cset where
  "digits = Ranges [(CHR ''0'', CHR ''9'')]"

definition one_of :: "char \<Rightarrow> char \<Rightarrow> regex" where
  "one_of lo hi = RSet (Ranges [(lo, hi)])"

definition year_re :: regex where
  "year_re = RGrp 1 (RCat (RSet digits) (RCat (RSet digits) (RCat (RSet digits) (RSet digits))))"

definition month_re :: regex where
  "month_re = RGrp 2 (RAlt (RCat (RLit ''1'') (one_of CHR ''0'' CHR ''2''))
     (RAlt (RCat (RLit ''0'') (one_of CHR ''1'' CHR ''9'')) (one_of CHR ''1'' CHR ''9'')))"

definition day_re :: regex where
  "day_re = RGrp 3 (RAlt (RCat (RLit ''3'') (one_of CHR ''0'' CHR ''1''))
     (RAlt (RCat (one_of CHR ''1'' CHR ''2'') (RSet digits))
     (RAlt (RCat (RLit ''0'') (one_of CHR ''1'' CHR ''9''))
     (RAlt (one_of CHR ''1'' CHR ''9'') (RCat (RLit '' '') (one_of CHR ''1'' CHR ''9''))))))"

definition date_re :: regex where
  "date_re = RCat year_re (RCat (RLit ''-'') (RCat month_re (RCat (RLit ''-'') day_re)))"

text \<open>\<open>int\<close> of a matched group; the space of a day like \<open>' 5'\<close> is skipped.\<close>

definition int_of_digits :: "string \<Rightarrow> int" where
  "int_of_digits s = foldl (\<lambda>n c. n * 10 + (int (ord_of c) - 48)) 0 (filter (in_cset digits) s)"

definition group_int :: "(nat \<times> string) list \<Rightarrow> nat \<Rightarrow> int" where
  "group_int g n = (case map_of g n of None \<Rightarrow> 0 | Some s \<Rightarrow> int_of_digits s)"

definition strptime_date :: "string \<Rightarrow> int result" where
  "strptime_date s = (case re_first date_re None s of
      None \<Rightarrow> Inl (ValueError s)
    | Some (p, rest, g) \<Rightarrow>
        if rest \<noteq> [] then Inl (ValueError s)
        else (let y = group_int g 1; m = group_int g 2; d = group_int g 3
          in if valid_date y m d then Inr (ordinal y m d) else Inl (ValueError s)))"

section \<open>Milliseconds\<close>

definition epoch_ordinal :: int where
  "epoch_ordinal = 719163"

text \<open>\<open>int(datetime.strptime(date, "%Y-%m-%d").replace(tzinfo=UTC).timestamp() * 1000)\<close>\<close>

definition date_ms :: "string \<Rightarrow> int result" where
  "date_ms s = bind_e (strptime_date s) (\<lambda>n. Inr ((n - epoch_ordinal) * 86400000))"

definition pad :: "nat \<Rightarrow> int \<Rightarrow> string" where
  "pad k i = (let s = str_of_nat (nat i) in replicate (k - length s) (CHR ''0'') @ s)"

text \<open>
  \<open>datetime.fromtimestamp(ms / 1000, tz=UTC).strftime("%Y-%m-%d")\<close>: the day that holds the
  instant. An instant outside the years 1 to 9999 raises; so far from the epoch the
  exception may be an \<open>OverflowError\<close> as well.
\<close>

definition format_date :: "int \<Rightarrow> string" where
  "format_date n = (case date_of_ordinal n of (y, m, d) \<Rightarrow> pad 4 y @ ''-'' @ pad 2 m @ ''-'' @ pad 2 d)"

definition day_of_ms :: "int \<Rightarrow> string result" where
  "day_of_ms ms = (let n = ms div 86400000 + epoch_ordinal
     in if 1 \<le> n \<and> n \<le> 3652059 then Inr (format_date n) else Inl (ValueError (str_of_int ms)))"

section \<open>Lemmas on the calendar\<close>

lemma div_pred:
  fixes y k :: int
  assumes "0 < k"
  shows "y div k = (y - 1) div k + (if y mod k = 0 then 1 else 0)"
proof (cases "y mod k = 0")
  case True
  then have "y - 1 = k * (y div k - 1) + (k - 1)" by (auto simp: algebra_simps)
  then have "(y - 1) div k = y div k - 1" using assms by (intro int_div_pos_eq [where r = "k - 1"]) auto
  with True show ?thesis by simp
next
  case False
  have "y - 1 = k * (y div k) + (y mod k - 1)" by (simp add: algebra_simps)
  moreover have "0 < y mod k" "y mod k < k" using False assms by (simp_all add: le_neq_trans)
  ultimately have "(y - 1) div k = y div k" by (intro int_div_pos_eq [where r = "y mod k - 1"]) auto
  with False show ?thesis by simp
qed

lemma leap_count:
  fixes y :: int
  assumes "a' = a + (if p then 1 else 0)" "b' = b + (if q then 1 else 0)" "c' = c + (if r then 1 else 0)"
    and "r \<Longrightarrow> q" "q \<Longrightarrow> p"
  shows "y * 365 + a' - b' + c' = ((y - 1) * 365 + a - b + c) + (if p \<and> (\<not> q \<or> r) then 366 else 365)"
  using assms(4,5) unfolding assms(1-3) by (cases p; cases q; cases r) simp_all

lemma days_before_year_Suc:
  "days_before_year (y + 1) = days_before_year y + (if is_leap y then 366 else 365)"
proof -
  have "y mod 400 mod 100 = y mod 100" "y mod 100 mod 4 = y mod 4" by (simp_all add: mod_mod_cancel)
  then have "y mod 400 = 0 \<Longrightarrow> y mod 100 = 0" "y mod 100 = 0 \<Longrightarrow> y mod 4 = 0"
    by (metis mod_0)+
  from leap_count [OF div_pred div_pred div_pred this] show ?thesis
    unfolding days_before_year_def Let_def is_leap_def add_diff_cancel_right' by simp
qed

lemma centuries:
  fixes p :: int
  assumes "4 * a = p - a'" "100 * b = p - b'" "400 * c = p - c'"
  shows "400 * (p * 365 + a - b + c) = 146097 * p - 100 * a' + 4 * b' - c'"
  using assms by (simp add: algebra_simps)

lemma days_before_year_bounds:
  "146097 * (y - 1) - 800 < 400 * days_before_year y" "400 * days_before_year y < 146097 * (y - 1) + 400"
proof -
  define p where "p = y - 1"
  have m: "0 \<le> p mod 4" "p mod 4 < 4" "0 \<le> p mod 100" "p mod 100 < 100" "0 \<le> p mod 400" "p mod 400 < 400"
    by simp_all
  have e: "400 * days_before_year y = 146097 * p - 100 * (p mod 4) + 4 * (p mod 100) - p mod 400"
    unfolding days_before_year_def Let_def p_def [symmetric]
    by (rule centuries) (simp_all only: minus_mod_eq_mult_div)
  show "146097 * (y - 1) - 800 < 400 * days_before_year y"
    unfolding e p_def [symmetric] using m by linarith
  show "400 * days_before_year y < 146097 * (y - 1) + 400"
    unfolding e p_def [symmetric] using m by linarith
qed

lemma year_of_bounds: "days_before_year (year_of n) < n" "n \<le> days_before_year (year_of n + 1)"
proof -
  define y where "y = (400 * (n - 1)) div 146097 + 1"
  have y: "146097 * (y - 1) \<le> 400 * (n - 1)" "400 * (n - 1) < 146097 * (y - 1) + 146097"
    using pos_mod_bound [of 146097 "400 * (n - 1)"] pos_mod_sign [of 146097 "400 * (n - 1)"]
      mult_div_mod_eq [of 146097 "400 * (n - 1)"] by (simp_all add: y_def)
  have "year_of n = (if n \<le> days_before_year y then y - 1 else if days_before_year (y + 1) < n then y + 1 else y)"
    unfolding year_of_def Let_def y_def [symmetric] by (rule refl)
  moreover have "days_before_year (y - 1) < n"
    using y(1) days_before_year_bounds(2) [of "y - 1"] by (simp add: algebra_simps)
  moreover have "n \<le> days_before_year (y + 2)"
    using y(2) days_before_year_bounds(1) [of "y + 2"] by (simp add: algebra_simps)
  ultimately show "days_before_year (year_of n) < n" "n \<le> days_before_year (year_of n + 1)"
    by (auto simp: add.commute split: if_splits)
qed

lemma days_before_year_mono: "0 \<le> k \<Longrightarrow> days_before_year y \<le> days_before_year (y + k)"
proof (induction k rule: int_ge_induct)
  case (step i)
  then show ?case using days_before_year_Suc [of "y + i"] by (auto simp: add.assoc split: if_splits)
qed simp

lemma year_of_unique:
  assumes "days_before_year y < n" "n \<le> days_before_year (y + 1)"
  shows "year_of n = y"
proof (rule ccontr)
  assume ne: "year_of n \<noteq> y"
  consider "year_of n + 1 \<le> y" | "y + 1 \<le> year_of n" using ne by linarith
  then show False
  proof cases
    case 1
    then have "days_before_year (year_of n + 1) \<le> days_before_year y"
      using days_before_year_mono [of "y - (year_of n + 1)" "year_of n + 1"] by simp
    with year_of_bounds [of n] assms show False by linarith
  next
    case 2
    then have "days_before_year (y + 1) \<le> days_before_year (year_of n)"
      using days_before_year_mono [of "year_of n - (y + 1)" "y + 1"] by simp
    with year_of_bounds [of n] assms show False by linarith
  qed
qed

lemma days_in_month_pos: "0 < days_in_month y m"
  by (simp add: days_in_month_def)

lemma days_sum_nonneg: "0 \<le> sum_list (map (days_in_month y) ms)"
  using days_in_month_pos by (intro sum_list_nonneg) (auto intro: less_imp_le)

lemma takeWhile_before: "m \<notin> set xs \<Longrightarrow> takeWhile (\<lambda>x. x \<noteq> m) (xs @ m # ys) = xs"
  by (induction xs) auto

lemma months: "[1..12] = [1, 2, 3, 4, 5, 6, 7, 8, 9, 10, 11, 12::int]"
  by code_simp

lemma days_of_year: "sum_list (map (days_in_month y) [1..12]) = (if is_leap y then 366 else 365)"
  by (simp add: months days_in_month_def)

lemma month_from_prefix:
  assumes "1 \<le> d" "d \<le> days_in_month y m"
  shows "month_from y (xs @ m # ys) (sum_list (map (days_in_month y) xs) + d) = (m, d)"
proof (induction xs)
  case (Cons x xs)
  with days_sum_nonneg [of y xs] assms(1) show ?case by (simp add: add.assoc)
qed (use assms in simp)

lemma month_from_split:
  assumes "1 \<le> k" "k \<le> sum_list (map (days_in_month y) ms)"
  obtains xs m zs d where "ms = xs @ m # zs" "month_from y ms k = (m, d)" "1 \<le> d" "d \<le> days_in_month y m"
    "k = sum_list (map (days_in_month y) xs) + d"
proof -
  have "\<exists>xs m zs d. ms = xs @ m # zs \<and> month_from y ms k = (m, d) \<and> 1 \<le> d \<and> d \<le> days_in_month y m
      \<and> k = sum_list (map (days_in_month y) xs) + d"
    using assms
  proof (induction ms arbitrary: k)
    case (Cons x ms)
    show ?case
    proof (cases "k \<le> days_in_month y x")
      case True
      with Cons.prems show ?thesis by (intro exI [of _ "[]"]) auto
    next
      case False
      with Cons.IH [of "k - days_in_month y x"] Cons.prems obtain xs m zs d where
        "ms = xs @ m # zs" "month_from y ms (k - days_in_month y x) = (m, d)" "1 \<le> d" "d \<le> days_in_month y m"
        "k - days_in_month y x = sum_list (map (days_in_month y) xs) + d" by auto
      with False show ?thesis by (intro exI [of _ "x # xs"]) auto
    qed
  qed simp
  then show thesis using that by blast
qed

lemma upto_prefix: "1 \<le> m \<Longrightarrow> m \<le> n \<Longrightarrow> [1..n] = [1..m - 1] @ m # [m + 1..n]" for m n :: int
  using upto_split2 [of 1 "m" n] upto_rec2 [of 1 m] by simp

lemma date_of_ordinal_ordinal:
  assumes "valid_date y m d"
  shows "date_of_ordinal (ordinal y m d) = (y, m, d)"
proof -
  have m: "1 \<le> m" "m \<le> 12" "1 \<le> d" "d \<le> days_in_month y m" using assms by (simp_all add: valid_date_def)
  let ?k = "days_before_month y m + d"
  have "month_from y [1..12] ?k = (m, d)"
    unfolding days_before_month_def upto_prefix [OF m(1,2)] by (rule month_from_prefix [OF m(3,4)])
  moreover have "year_of (ordinal y m d) = y"
  proof (rule year_of_unique)
    have "0 \<le> days_before_month y m" by (simp add: days_before_month_def days_sum_nonneg)
    with m(3) show "days_before_year y < ordinal y m d" by (simp add: ordinal_def)
    have "0 \<le> sum_list (map (days_in_month y) [m + 1..12])" by (rule days_sum_nonneg)
    then have "days_before_month y m + days_in_month y m \<le> sum_list (map (days_in_month y) [1..12])"
      unfolding days_before_month_def upto_prefix [OF m(1,2)] by simp
    with m(4) show "ordinal y m d \<le> days_before_year (y + 1)"
      by (simp add: ordinal_def days_before_year_Suc days_of_year)
  qed
  ultimately show ?thesis by (simp add: date_of_ordinal_def ordinal_def Let_def)
qed

lemma ordinal_date_of_ordinal:
  assumes "1 \<le> n" "n \<le> 3652059"
  obtains y m d where "date_of_ordinal n = (y, m, d)" "valid_date y m d" "ordinal y m d = n"
proof -
  define y k where "y = year_of n" and "k = n - days_before_year y"
  have k: "1 \<le> k" "k \<le> sum_list (map (days_in_month y) [1..12])"
    using year_of_bounds [of n] unfolding days_of_year k_def y_def days_before_year_Suc by simp_all
  from month_from_split [OF k] obtain xs m zs d where
    s: "[1..12] = xs @ m # zs" "month_from y [1..12] k = (m, d)" "1 \<le> d" "d \<le> days_in_month y m"
    "k = sum_list (map (days_in_month y) xs) + d" .
  have "m \<in> set [1..12]" unfolding s(1) by simp
  then have m: "1 \<le> m" "m \<le> 12" by simp_all
  have "xs = [1..m - 1]"
  proof -
    have eq: "xs @ m # zs = [1..m - 1] @ m # [m + 1..12]" using upto_prefix [OF m] s(1) by simp
    have "distinct (xs @ m # zs)" using s(1) by (metis distinct_upto)
    then have "m \<notin> set xs" by simp
    moreover have "m \<notin> set [1..m - 1]" by simp
    ultimately show ?thesis using eq takeWhile_before by metis
  qed
  then have "ordinal y m d = n" using s(5) by (simp add: ordinal_def days_before_month_def k_def)
  moreover have "1 \<le> y"
  proof (rule ccontr)
    assume "\<not> 1 \<le> y"
    then have "days_before_year (y + 1) \<le> days_before_year 1"
      using days_before_year_mono [of "- y" "y + 1"] by simp
    with year_of_bounds(2) [of n] assms(1) show False by (simp add: y_def days_before_year_def)
  qed
  moreover have "y \<le> 9999"
  proof (rule ccontr)
    assume "\<not> y \<le> 9999"
    then have "days_before_year 10000 \<le> days_before_year y"
      using days_before_year_mono [of "y - 10000" 10000] by simp
    with year_of_bounds(1) [of n] assms(2) show False by (simp add: y_def days_before_year_def)
  qed
  ultimately show thesis
    using that [of y m d] s m by (simp add: date_of_ordinal_def Let_def y_def [symmetric] k_def [symmetric] valid_date_def)
qed

section \<open>Printing and parsing a date\<close>

lemma re_run_assoc: "re_run (RCat a (RCat b c)) st = re_run (RCat (RCat a b) c) st"
proof -
  have "concat (map (\<lambda>x. concat (map (re_run c) (re_run b x))) xs)
      = concat (map (re_run c) (concat (map (re_run b) xs)))" for xs
    by (induction xs) simp_all
  moreover have "re_run (RCat b c) = (\<lambda>x. concat (map (re_run c) (re_run b x)))" by (rule ext) simp
  ultimately show ?thesis by simp
qed

lemma digit_chars:
  "digit_char (Suc 0) = CHR ''1''" "digit_char 0 = CHR ''0''" "digit_char 1 = CHR ''1''" "digit_char 2 = CHR ''2''" "digit_char 3 = CHR ''3''"
  "digit_char 4 = CHR ''4''" "digit_char 5 = CHR ''5''" "digit_char 6 = CHR ''6''" "digit_char 7 = CHR ''7''"
  "digit_char 8 = CHR ''8''" "digit_char 9 = CHR ''9''"
  by code_simp+

lemma digit_char_mod: "digit_char (n mod 10) = digit_char n"
  by (simp add: digit_char_def)

lemma str_of_nat_step: "10 \<le> n \<Longrightarrow> str_of_nat n = str_of_nat (n div 10) @ [digit_char (n mod 10)]"
  "n < 10 \<Longrightarrow> str_of_nat n = [digit_char n]"
  by (simp_all add: str_of_nat.simps [of n] digit_char_mod)

lemma two_digits:
  assumes "0 \<le> i" "i \<le> 99"
  shows "pad 2 i = [digit_char (nat i div 10), digit_char (nat i mod 10)]"
proof (cases "nat i < 10")
  case True
  then show ?thesis by (simp add: pad_def str_of_nat_step digit_chars)
next
  case False
  then have "nat i div 10 < 10" using assms by auto
  with False show ?thesis by (simp add: pad_def str_of_nat_step digit_chars)
qed

lemma four_digits:
  assumes "0 \<le> i" "i \<le> 9999"
  shows "pad 4 i = [digit_char (nat i div 1000), digit_char (nat i div 100 mod 10),
     digit_char (nat i div 10 mod 10), digit_char (nat i mod 10)]"
proof -
  define n where "n = nat i"
  have n: "n \<le> 9999" using assms by (simp add: n_def)
  have d: "n div 10 div 10 = n div 100" "n div 10 div 10 div 10 = n div 1000" "n div 100 div 10 = n div 1000"
    by (simp_all add: div_mult2_eq [symmetric])
  consider "n < 10" | "10 \<le> n" "n < 100" | "100 \<le> n" "n < 1000" | "1000 \<le> n" by linarith
  then have "pad 4 i = [digit_char (n div 1000), digit_char (n div 100 mod 10),
     digit_char (n div 10 mod 10), digit_char (n mod 10)]"
  proof cases
    case 1
    then show ?thesis by (simp add: pad_def str_of_nat_step digit_chars n_def [symmetric] numeral_3_eq_3 numeral_2_eq_2)
  next
    case 2
    then have "n div 10 < 10" by auto
    with 2 show ?thesis by (simp add: pad_def str_of_nat_step digit_chars n_def [symmetric] numeral_3_eq_3 numeral_2_eq_2)
  next
    case 3
    then have "10 \<le> n div 10" "n div 100 < 10" by auto
    with 3 show ?thesis by (simp add: pad_def str_of_nat_step digit_chars n_def [symmetric] d)
  next
    case 4
    then have "10 \<le> n div 10" "10 \<le> n div 100" "n div 1000 < 10" using n by auto
    with 4 show ?thesis by (simp add: pad_def str_of_nat_step digit_chars n_def [symmetric] d)
  qed
  then show ?thesis by (simp add: n_def)
qed

lemma digit_char_in: "in_cset digits (digit_char n)"
  by (simp add: digits_def in_range_def ord_of_def digit_char_def)

lemma digit_value: "int (ord_of (digit_char n)) - 48 = int (n mod 10)"
  by (simp add: ord_of_def digit_char_def)

lemma int_of_digits_chars:
  "int_of_digits [digit_char a, digit_char b] = int (a mod 10 * 10 + b mod 10)"
  "int_of_digits [digit_char a, digit_char b, digit_char c, digit_char d]
     = int (a mod 10 * 1000 + b mod 10 * 100 + c mod 10 * 10 + d mod 10)"
  by (simp_all add: int_of_digits_def digit_char_in digit_value)

lemma int_of_pad2: "0 \<le> i \<Longrightarrow> i \<le> 99 \<Longrightarrow> int_of_digits (pad 2 i) = i"
  by (simp add: two_digits int_of_digits_chars)

lemma int_of_pad4:
  assumes "0 \<le> i" "i \<le> 9999"
  shows "int_of_digits (pad 4 i) = i"
proof -
  define n where "n = nat i"
  have n: "n \<le> 9999" "i = int n" using assms by (simp_all add: n_def)
  have "n div 1000 mod 10 * 1000 + n div 100 mod 10 * 100 + n div 10 mod 10 * 10 + n mod 10 = n"
  proof -
    have "n div 10 div 10 = n div 100" "n div 100 div 10 = n div 1000" "n div 1000 mod 10 = n div 1000"
      using n by (simp_all add: div_mult2_eq [symmetric] less_mult_imp_div_less)
    with div_mult_mod_eq [of n 10] div_mult_mod_eq [of "n div 10" 10] div_mult_mod_eq [of "n div 100" 10]
    show ?thesis by linarith
  qed
  then show ?thesis using assms by (simp add: four_digits int_of_digits_chars n_def [symmetric] n(2))
qed

lemma year_run:
  assumes "0 \<le> y" "y \<le> 9999"
  shows "re_run year_re (None, pad 4 y @ s, []) = [(Some (last (pad 4 y)), s, [(1, pad 4 y)])]"
  using assms by (simp add: year_re_def four_digits digit_char_in)

lemma small_nat_cases: "m \<in> set [1..n] \<longleftrightarrow> 1 \<le> m \<and> m \<le> n" for m n :: int
  by simp

lemma month_run:
  assumes "1 \<le> m" "m \<le> 12"
  shows "re_run (RCat month_re (RLit ''-'')) (p, pad 2 m @ ''-'' @ s, g) = [(Some CHR ''-'', s, (2, pad 2 m) # g)]"
proof -
  have "m \<in> set [1..12]" using assms by simp
  then show ?thesis unfolding months
    by (auto simp: two_digits month_re_def one_of_def in_range_def ord_of_def digit_chars digits_def)
qed

lemma upto_31: "[1..31] = [1, 2, 3, 4, 5, 6, 7, 8, 9, 10, 11, 12, 13, 14, 15, 16, 17, 18, 19, 20, 21, 22, 23, 24,
   25, 26, 27, 28, 29, 30, 31::int]"
  by code_simp

lemma day_run:
  assumes "1 \<le> d" "d \<le> 31"
  shows "\<exists>p' sts. re_run day_re (p, pad 2 d, g) = (p', [], (3, pad 2 d) # g) # sts"
proof -
  have "d \<in> set [1..31]" using assms by simp
  then show ?thesis unfolding upto_31
    by (auto simp: two_digits day_re_def one_of_def in_range_def ord_of_def digit_chars digits_def)
qed

lemma days_in_month_le: "days_in_month y m \<le> 31"
  by (simp add: days_in_month_def)

lemma strptime_pads:
  assumes "valid_date y m d"
  shows "strptime_date (pad 4 y @ ''-'' @ pad 2 m @ ''-'' @ pad 2 d) = Inr (ordinal y m d)"
proof -
  have b: "0 \<le> y" "y \<le> 9999" "1 \<le> m" "m \<le> 12" "1 \<le> d" "d \<le> 31"
    using assms days_in_month_le [of y m] by (simp_all add: valid_date_def)
  let ?g = "[(2, pad 2 m), (1 :: nat, pad 4 y)]"
  obtain p' sts where day: "re_run day_re (Some CHR ''-'', pad 2 d, ?g) = (p', [], (3, pad 2 d) # ?g) # sts"
    using day_run [OF b(5,6)] by blast
  have "re_run (RCat month_re (RCat (RLit ''-'') day_re)) (Some CHR ''-'', pad 2 m @ ''-'' @ pad 2 d, [(1, pad 4 y)])
      = (p', [], (3, pad 2 d) # ?g) # sts"
    unfolding re_run_assoc re_run.simps(4) [of "RCat month_re (RLit ''-'')"] month_run [OF b(3,4)] using day by simp
  then have "re_run date_re (None, pad 4 y @ ''-'' @ pad 2 m @ ''-'' @ pad 2 d, []) = (p', [], (3, pad 2 d) # ?g) # sts"
    unfolding date_re_def re_run.simps(4) [of year_re] year_run [OF b(1,2)] by simp
  with assms b show ?thesis
    by (simp add: strptime_date_def re_first_def group_int_def int_of_pad2 int_of_pad4)
qed

lemma strptime_format:
  assumes "1 \<le> n" "n \<le> 3652059"
  shows "strptime_date (format_date n) = Inr n"
proof -
  obtain y m d where o: "date_of_ordinal n = (y, m, d)" "valid_date y m d" "ordinal y m d = n"
    using ordinal_date_of_ordinal [OF assms] by blast
  show ?thesis using strptime_pads [OF o(2)] unfolding format_date_def o(1) o(3) by simp
qed

text \<open>A time survives being printed as a day and read back up to the time of day.\<close>

lemma date_ms_day_of_ms: "day_of_ms ms = Inr s \<Longrightarrow> date_ms s = Inr (ms - ms mod 86400000)"
proof -
  assume "day_of_ms ms = Inr s"
  then have "1 \<le> ms div 86400000 + epoch_ordinal" "ms div 86400000 + epoch_ordinal \<le> 3652059"
    and s: "s = format_date (ms div 86400000 + epoch_ordinal)"
    by (auto simp: day_of_ms_def Let_def split: if_splits)
  from strptime_format [OF this(1,2)] have "date_ms s = Inr (ms div 86400000 * 86400000)"
    by (simp add: date_ms_def s)
  then show ?thesis by (simp only: minus_mod_eq_div_mult)
qed

text \<open>Parsing accepts exactly the valid dates, written in digits.\<close>

lemma strptime_valid: "strptime_date s = Inr n \<Longrightarrow> \<exists>y m d. valid_date y m d \<and> n = ordinal y m d"
  unfolding strptime_date_def Let_def
  by (cases "re_first date_re None s") (auto split: prod.splits if_splits)

end
