(* ===== verification/Extractor.thy ===== *)
theory Extractor
  imports Sha256 Dates Schema Config
begin

text \<open>
  \<open>extraction/ids.py\<close> and \<open>extraction/mock.py\<close>: content-addressed ids and the rule-based
  extractor. Time is an argument: \<open>now\<close> is what \<open>_now_ms\<close> returns. \<open>show\<close> is the \<open>str\<close> of the
  JSON values whose text is that of \<open>repr\<close> (floats, lists and dicts), of use for malformed
  references only. A model that pydantic refuses to build is a \<open>ValidationError\<close>: the one
  field whose validator is the repository's is the source id.
\<close>

section \<open>Ids\<close>

definition unit_sep :: string where
  "unit_sep = [CHR 0x1F]"

definition stable_id :: "string \<Rightarrow> string list \<Rightarrow> string" where
  "stable_id prefix parts = prefix @ ''_'' @ take 20 (hexdigest (utf8 (py_join unit_sep parts)))"

section \<open>Reading JSON values\<close>

text \<open>Iterating over a JSON value, and \<open>str\<close> of one.\<close>

definition py_iter :: "json \<Rightarrow> json list result" where
  "py_iter j = (case j of
      JArr xs \<Rightarrow> Inr xs
    | JObj kvs \<Rightarrow> Inr (map (\<lambda>(k, v). JStr k) kvs)
    | JStr s \<Rightarrow> Inr (map (\<lambda>c. JStr [c]) s)
    | _ \<Rightarrow> Inl (TypeError ''object is not iterable''))"

definition py_str :: "(json \<Rightarrow> string) \<Rightarrow> json \<Rightarrow> string" where
  "py_str show j = (case j of
      JStr s \<Rightarrow> s
    | JNull \<Rightarrow> ''None''
    | JBool b \<Rightarrow> if b then ''True'' else ''False''
    | JInt i \<Rightarrow> str_of_int i
    | _ \<Rightarrow> show j)"

section \<open>The fixture grammar\<close>

definition upper_class :: cset where
  "upper_class = Ranges [(CHR ''A'', CHR ''Z'')]"

definition lower_class :: cset where
  "lower_class = Ranges [(CHR ''a'', CHR ''z'')]"

definition name_class :: cset where
  "name_class = Ranges [(CHR ''A'', CHR ''Z''), (CHR ''a'', CHR ''z''), (CHR ''0'', CHR ''9''),
     (CHR ''_'', CHR ''_''), (CHR ''-'', CHR ''-'')]"

definition artifact_class :: cset where
  "artifact_class = Ranges [(CHR ''A'', CHR ''Z''), (CHR ''a'', CHR ''z''), (CHR ''0'', CHR ''9''),
     (CHR ''_'', CHR ''_''), (CHR ''+'', CHR ''+''), (CHR ''.'', CHR ''.''), (CHR ''-'', CHR ''-'')]"

definition not_dot :: cset where
  "not_dot = NotRanges [(CHR ''.'', CHR ''.'')]"

definition person_re :: regex where
  "person_re = RCat (RSet upper_class) (RRep True lower_class 1 None)"

definition project_re :: regex where
  "project_re = RCat RWordB (RCat (RLit ''project '')
     (RGrp 1 (RCat (RSet upper_class) (RRep True name_class 0 None))))"

definition artifact_re :: regex where
  "artifact_re = RCat RWordB (RCat (RLit ''use '')
     (RGrp 1 (RCat (RSet upper_class) (RRep True artifact_class 0 None))))"

definition will_re :: "bool \<Rightarrow> regex" where
  "will_re greedy = RCat (RLit ''project '') (RCat (RRep True name_class 1 None)
     (RCat (RLit '' will '') (RRep greedy not_dot 1 None)))"

definition claim_re :: regex where
  "claim_re = RCat (RGrp 1 person_re) (RCat (RLit '' '')
     (RCat (RAlt (RLit ''decided'') (RAlt (RLit ''agreed'') (RAlt (RLit ''noted'') (RLit ''recorded''))))
     (RCat (RLit '' that '') (RGrp 2 (will_re True)))))"

definition due_re :: regex where
  "due_re = RCat (RRep True digits 4 (Some 4)) (RCat (RLit ''-'')
     (RCat (RRep True digits 2 (Some 2)) (RCat (RLit ''-'') (RRep True digits 2 (Some 2)))))"

definition commitment_re :: regex where
  "commitment_re = RCat (RGrp 1 person_re) (RCat (RLit '' committed'')
     (RCat (ROpt (RCat (RLit '' to '') (RGrp 2 person_re)))
     (RCat (RLit '' that '') (RCat (RGrp 3 (will_re False))
     (RCat (ROpt (RCat (RLit '' by '') (RGrp 4 due_re))) (RLit ''.''))))))"

section \<open>Parts of a candidate\<close>

definition mock_name :: string where
  "mock_name = ''mock-extractor@v1''"

text \<open>\<open>SourceRef(...)\<close>: the validator of the connector is \<open>check_source_id\<close>.\<close>

definition new_source_ref :: "string \<Rightarrow> string \<Rightarrow> string option \<Rightarrow> int \<Rightarrow> int \<Rightarrow> source_ref result" where
  "new_source_ref connector external_id url occurred_at ingested_at =
     (case check_source_id connector of
        Inl e \<Rightarrow> Inl (ValidationError connector)
      | Inr c \<Rightarrow> Inr \<lparr>sr_connector = c, sr_external_id = external_id, sr_url = url,
                    sr_occurred_at_ms = occurred_at, sr_ingested_at_ms = ingested_at\<rparr>)"

definition event_id_of :: "string \<Rightarrow> raw_record \<Rightarrow> string" where
  "event_id_of owner rec = stable_id ''evt'' [owner, rec_connector rec, rec_external_id rec]"

definition entity_id_of :: "string \<Rightarrow> entity_kind \<Rightarrow> string \<Rightarrow> string" where
  "entity_id_of owner kind name = stable_id ''ent'' [owner, kind_value kind, py_lower name]"

definition extract_acl :: "string \<Rightarrow> raw_record \<Rightarrow> entity_kind list \<Rightarrow> object_acl" where
  "extract_acl owner rec kinds =
     \<lparr>acl_owner_id = owner, acl_sources = [rec_connector rec],
      acl_sensitivity = (if rec_sensitive rec then Confidential else Personal),
      acl_entity_kinds = kinds, acl_occurred_at_ms = rec_occurred_at_ms rec, acl_denied_agents = []\<rparr>"

definition quoting :: "string \<Rightarrow> source_ref \<Rightarrow> string \<Rightarrow> citation" where
  "quoting event_id source q = \<lparr>cit_event_id = event_id, cit_source = source, cit_quote = Some q\<rparr>"

definition provenance_of :: "string \<Rightarrow> citation list \<Rightarrow> pyfloat \<Rightarrow> int \<Rightarrow> provenance" where
  "provenance_of by cits conf now =
     \<lparr>prov_citations = cits, derived_by = by, confidence = conf, created_at_ms = now\<rparr>"

text \<open>\<open>sorted({e.kind for e in ...}, key=lambda k: k.value)\<close>\<close>

definition kinds_of :: "entity list \<Rightarrow> entity_kind list" where
  "kinds_of es = sorted_kinds (map ent_kind es)"

definition conf_entity :: pyfloat where
  "conf_entity = Fin 8106479329266893 (- 53)"

definition conf_claim :: pyfloat where
  "conf_claim = Fin 3602879701896397 (- 52)"

definition is_subject :: "entity \<Rightarrow> bool" where
  "is_subject e \<longleftrightarrow> ent_kind e = Project \<or> ent_kind e = Artifact"

section \<open>The mock extractor\<close>

definition mock_entity :: "string \<Rightarrow> raw_record \<Rightarrow> source_ref \<Rightarrow> entity_kind \<Rightarrow> string \<Rightarrow> entity" where
  "mock_entity owner rec source kind name =
     \<lparr>ent_id = entity_id_of owner kind name, ent_owner_id = owner, ent_kind = kind, ent_name = name,
      ent_aliases = [], first_seen_at_ms = rec_occurred_at_ms rec, last_seen_at_ms = rec_occurred_at_ms rec,
      ent_provenance = provenance_of mock_name [quoting (event_id_of owner rec) source name] conf_entity
                         (sr_ingested_at_ms source),
      ent_acl = extract_acl owner rec [kind]\<rparr>"

text \<open>\<open>add_entity\<close>: the entity with the id, added when there is none.\<close>

definition add_entity ::
  "string \<Rightarrow> raw_record \<Rightarrow> source_ref \<Rightarrow> entity_kind \<Rightarrow> string \<Rightarrow> entity list \<Rightarrow> entity list \<times> entity" where
  "add_entity owner rec source kind name es =
     (case find (\<lambda>e. ent_id e = entity_id_of owner kind name) es of
        Some e \<Rightarrow> (es, e)
      | None \<Rightarrow> (es @ [mock_entity owner rec source kind name], mock_entity owner rec source kind name))"

definition record_text :: "raw_record \<Rightarrow> string" where
  "record_text rec = rec_title rec @ ''. '' @ rec_body rec"

definition group_text :: "re_hit \<Rightarrow> nat \<Rightarrow> string" where
  "group_text h n = (case group_of h n of None \<Rightarrow> [] | Some s \<Rightarrow> s)"

definition parties_of :: "re_hit \<Rightarrow> (entity_kind \<times> string) list" where
  "parties_of h = (Person, group_text h 1)
     # (case group_of h 2 of None \<Rightarrow> [] | Some s \<Rightarrow> if s \<noteq> [] then [(Person, s)] else [])"

text \<open>The names in the order the extractor adds them.\<close>

definition mentions :: "raw_record \<Rightarrow> (entity_kind \<times> string) list" where
  "mentions rec =
     (let txt = record_text rec in
        map (Pair Person) (rec_participants rec)
        @ map (\<lambda>h. (Person, group_text h 1)) (re_finditer claim_re txt)
        @ concat (map parties_of (re_finditer commitment_re txt))
        @ map (\<lambda>h. (Project, group_text h 1)) (re_finditer project_re txt)
        @ map (\<lambda>h. (Artifact, group_text h 1)) (re_finditer artifact_re txt))"

definition mock_entities :: "string \<Rightarrow> raw_record \<Rightarrow> source_ref \<Rightarrow> entity list" where
  "mock_entities owner rec source =
     fold (\<lambda>(kind, name) es. fst (add_entity owner rec source kind name es)) (mentions rec) []"

text \<open>A declared reference, \<open>"<connector>:<external_id>"\<close>.\<close>

definition cite_of :: "(json \<Rightarrow> string) \<Rightarrow> string \<Rightarrow> raw_record \<Rightarrow> int \<Rightarrow> json \<Rightarrow> citation result" where
  "cite_of show owner rec now reference =
     (let s = py_str show reference;
          connector = takeWhile (\<lambda>c. c \<noteq> CHR '':'') s;
          external_id = drop 1 (dropWhile (\<lambda>c. c \<noteq> CHR '':'') s)
      in bind_e (new_source_ref connector external_id None (rec_occurred_at_ms rec) now) (\<lambda>src.
           Inr \<lparr>cit_event_id = stable_id ''evt'' [owner, connector, external_id], cit_source = src,
                cit_quote = None\<rparr>))"

definition cited_in :: "(json \<Rightarrow> string) \<Rightarrow> string \<Rightarrow> raw_record \<Rightarrow> int \<Rightarrow> citation list result" where
  "cited_in show owner rec now =
     bind_e (case map_of (rec_metadata rec) ''cites'' of None \<Rightarrow> Inr [] | Some j \<Rightarrow> py_iter j)
       (map_e (cite_of show owner rec now))"

definition mock_event :: "string \<Rightarrow> raw_record \<Rightarrow> source_ref \<Rightarrow> entity list \<Rightarrow> citation list \<Rightarrow> event" where
  "mock_event owner rec source es cits =
     \<lparr>evt_id = event_id_of owner rec, evt_owner_id = owner, summary = rec_title rec,
      body = (if rec_sensitive rec then None else Some (rec_body rec)), entity_ids = map ent_id es,
      evt_source = source, encrypted_content = None,
      evt_provenance = provenance_of mock_name
        (quoting (event_id_of owner rec) source (rec_title rec) # cits) (Fin 1 0) (sr_ingested_at_ms source),
      evt_acl = extract_acl owner rec (kinds_of es)\<rparr>"

definition mock_claim ::
  "string \<Rightarrow> raw_record \<Rightarrow> source_ref \<Rightarrow> string \<Rightarrow> string \<Rightarrow> entity list \<Rightarrow> commitment option \<Rightarrow> entity list \<Rightarrow> claim" where
  "mock_claim owner rec source statement quote subjects facet parties =
     \<lparr>clm_id = stable_id ''clm'' [owner, event_id_of owner rec, statement], clm_owner_id = owner,
      clm_statement = statement, subject_entity_ids = map ent_id subjects, status = Active,
      supersedes = [], contradicts = [], reconciled_into = None, clm_commitment = facet,
      asserted_at_ms = rec_occurred_at_ms rec,
      clm_provenance = provenance_of mock_name [quoting (event_id_of owner rec) source quote] conf_claim
        (sr_ingested_at_ms source),
      clm_acl = extract_acl owner rec (kinds_of (subjects @ parties))\<rparr>"

definition plain_claim :: "string \<Rightarrow> raw_record \<Rightarrow> source_ref \<Rightarrow> entity list \<Rightarrow> re_hit \<Rightarrow> claim" where
  "plain_claim owner rec source es h =
     mock_claim owner rec source (py_strip (group_text h 2) @ ''.'') (hit_text h) (filter is_subject es) None []"

definition due_ms :: "string option \<Rightarrow> int option result" where
  "due_ms date = (case date of
      None \<Rightarrow> Inr None
    | Some s \<Rightarrow> if s = [] then Inr None else bind_e (date_ms s) (\<lambda>ms. Inr (Some ms)))"

definition obligation_text :: "re_hit \<Rightarrow> string" where
  "obligation_text h = py_strip (group_text h 3)
     @ (case group_of h 4 of None \<Rightarrow> [] | Some due \<Rightarrow> if due \<noteq> [] then '' by '' @ due else []) @ ''.''"

text \<open>One turn of the loop over commitments; the parties are added when they are new.\<close>

definition commitment_step ::
  "string \<Rightarrow> raw_record \<Rightarrow> source_ref \<Rightarrow> re_hit \<Rightarrow> entity list \<times> claim list \<Rightarrow> (entity list \<times> claim list) result" where
  "commitment_step owner rec source h acc = (case acc of (es, claims) \<Rightarrow>
     (let subjects = filter is_subject es;
          (es1, by) = add_entity owner rec source Person (group_text h 1) es;
          (es2, to) = (case group_of h 2 of
              None \<Rightarrow> (es1, [])
            | Some s \<Rightarrow> if s \<noteq> [] then map_prod id (\<lambda>e. [e]) (add_entity owner rec source Person s es1) else (es1, []))
      in bind_e (due_ms (group_of h 4)) (\<lambda>due.
           Inr (es2, claims @ [mock_claim owner rec source (obligation_text h) (hit_text h) subjects
             (Some \<lparr>owed_by_entity_id = ent_id by,
                    owed_to_entity_id = (case to of [] \<Rightarrow> None | e # _ \<Rightarrow> Some (ent_id e)),
                    due_at_ms = due, fulfillment = Open, settled_at_ms = None\<rparr>) (by # to)]))))"

definition mock_extract :: "(json \<Rightarrow> string) \<Rightarrow> int \<Rightarrow> string \<Rightarrow> raw_record \<Rightarrow> candidate result" where
  "mock_extract show now owner rec =
     bind_e (new_source_ref (rec_connector rec) (rec_external_id rec) (rec_url rec) (rec_occurred_at_ms rec) now) (\<lambda>source.
     bind_e (cited_in show owner rec now) (\<lambda>cits.
       let es = mock_entities owner rec source;
           claims = map (plain_claim owner rec source es) (re_finditer claim_re (record_text rec))
       in bind_e (fold_e (commitment_step owner rec source) (re_finditer commitment_re (record_text rec)) (es, claims)) (\<lambda>(es', claims').
            Inr \<lparr>cand_entities = es', cand_events = [mock_event owner rec source es cits], cand_claims = claims'\<rparr>)))"

end
