(* ===== verification/Extractor_Props.thy ===== *)
theory Extractor_Props
  imports Extractor
begin

text \<open>
  What the extractors guarantee. The locale \<open>extractor\<close> is the contract of
  \<open>extraction/base.py\<close> with what the rest of the system relies on: candidates are unresolved,
  refer to their own entities only, and carry the owner, source, time and sensitivity of the
  record. Its lemmas say which grants can see what was extracted. The mock extractor is an
  instance of it here, the language-model extractor in its own theory.
\<close>

section \<open>Ids\<close>

lemma stable_id_length: "length (stable_id prefix parts) = length prefix + 21"
  by (simp add: stable_id_def length_hexdigest)

lemma join_inj:
  assumes "CHR 0x1F \<notin> set x" "CHR 0x1F \<notin> set y" "x @ CHR 0x1F # s = y @ CHR 0x1F # t"
  shows "x = y \<and> s = t"
proof -
  have "takeWhile (\<lambda>c. c \<noteq> CHR 0x1F) (x @ CHR 0x1F # s) = x" "takeWhile (\<lambda>c. c \<noteq> CHR 0x1F) (y @ CHR 0x1F # t) = y"
    using assms(1,2) by (simp_all add: takeWhile_before)
  with assms(3) show ?thesis by simp
qed

lemma unit_join_inj:
  assumes "list_all (\<lambda>x. CHR 0x1F \<notin> set x) xs" "list_all (\<lambda>y. CHR 0x1F \<notin> set y) ys"
    and "length xs = length ys" "py_join unit_sep xs = py_join unit_sep ys"
  shows "xs = ys"
  using assms
proof (induction unit_sep xs arbitrary: ys rule: py_join.induct)
  case (2 x)
  then show ?case by (cases ys) auto
next
  case (3 x y zs)
  then obtain x' y' zs' where ys: "ys = x' # y' # zs'"
    by (cases ys; cases "tl ys") auto
  have "x = x' \<and> py_join unit_sep (y # zs) = py_join unit_sep (y' # zs')"
    using 3 by (intro join_inj) (auto simp: ys unit_sep_def)
  moreover from this have "y # zs = y' # zs'" using 3 by (intro 3(1)) (auto simp: ys)
  ultimately show ?case by (simp add: ys)
qed auto

lemma utf8_char_shape:
  "ord_of c < 128 \<Longrightarrow> utf8_char c = [c]"
  "128 \<le> ord_of c \<Longrightarrow> \<exists>a b. utf8_char c = [a, b] \<and> 128 \<le> ord_of a
     \<and> ord_of c = (ord_of a - 192) * 64 + (ord_of b - 128)"
proof -
  have "ord_of c < 4 * 64" using ord_of_less [of c] by simp
  then have "ord_of c div 64 < 4" by (rule less_mult_imp_div_less)
  then have "192 + ord_of c div 64 < 256" by linarith
  then have "ord_of (char_of (192 + ord_of c div 64)) = 192 + ord_of c div 64" by (rule ord_of_char_of)
  moreover have "ord_of (char_of (128 + ord_of c mod 64)) = 128 + ord_of c mod 64" by (intro ord_of_char_of) (simp add: less_trans [OF mod_less_divisor])
  ultimately show "128 \<le> ord_of c \<Longrightarrow> \<exists>a b. utf8_char c = [a, b] \<and> 128 \<le> ord_of a
     \<and> ord_of c = (ord_of a - 192) * 64 + (ord_of b - 128)"
    by (simp add: utf8_char_def)
qed (simp add: utf8_char_def)

lemma utf8_char_inj:
  assumes "utf8_char c @ s = utf8_char d @ t"
  shows "c = d \<and> s = t"
proof -
  consider "ord_of c < 128" "ord_of d < 128" | "ord_of c < 128" "128 \<le> ord_of d"
    | "128 \<le> ord_of c" "ord_of d < 128" | "128 \<le> ord_of c" "128 \<le> ord_of d" by linarith
  then show ?thesis
  proof cases
    case 4
    from utf8_char_shape(2) [OF 4(1)] obtain a b where
      c: "utf8_char c = [a, b]" "ord_of c = (ord_of a - 192) * 64 + (ord_of b - 128)" by auto
    from utf8_char_shape(2) [OF 4(2)] obtain a' b' where
      d: "utf8_char d = [a', b']" "ord_of d = (ord_of a' - 192) * 64 + (ord_of b' - 128)" by auto
    have "a = a'" "b = b'" "s = t" using assms unfolding c(1) d(1) by simp_all
    then have "ord_of c = ord_of d" "s = t" using c(2) d(2) by simp_all
    then show ?thesis by (simp add: ord_of_inj)
  next
    case 1
    with assms show ?thesis by (simp add: utf8_char_shape)
  next
    case 2
    with utf8_char_shape(2) [of d] assms show ?thesis by (auto simp: utf8_char_shape(1))
  next
    case 3
    with utf8_char_shape(2) [of c] assms show ?thesis by (auto simp: utf8_char_shape(1))
  qed
qed

lemma utf8_inj: "utf8 s = utf8 t \<Longrightarrow> s = t"
proof (induction s arbitrary: t)
  case Nil
  then show ?case by (cases t) (auto simp: utf8_def utf8_char_def split: if_splits)
next
  case (Cons c s)
  then obtain d t' where t: "t = d # t'" by (cases t) (auto simp: utf8_def utf8_char_def split: if_splits)
  with Cons.prems have "c = d \<and> utf8 s = utf8 t'" by (intro utf8_char_inj) (simp add: utf8_def)
  with Cons.IH t show ?case by simp
qed

text \<open>An id stands for its parts. Two ids of one kind are equal only when their parts are, or when
  SHA-256 agrees on the first 80 bits of two different messages; the separator keeps the parts
  apart when it occurs in none of them.\<close>

theorem stable_id_parts:
  assumes "list_all (\<lambda>x. CHR 0x1F \<notin> set x) xs" "list_all (\<lambda>y. CHR 0x1F \<notin> set y) ys" "length xs = length ys"
    and "stable_id prefix xs = stable_id prefix ys"
  shows "xs = ys \<or> (\<exists>m m'. m \<noteq> m' \<and> take 20 (hexdigest m) = take 20 (hexdigest m'))"
proof (cases "utf8 (py_join unit_sep xs) = utf8 (py_join unit_sep ys)")
  case True
  with unit_join_inj [OF assms(1-3)] show ?thesis by (blast dest: utf8_inj)
next
  case False
  moreover have "take 20 (hexdigest (utf8 (py_join unit_sep xs))) = take 20 (hexdigest (utf8 (py_join unit_sep ys)))"
    using assms(4) by (simp add: stable_id_def)
  ultimately show ?thesis by blast
qed

section \<open>The contract of an extractor\<close>

definition acl_ok :: "string \<Rightarrow> raw_record \<Rightarrow> object_acl \<Rightarrow> bool" where
  "acl_ok owner rec acl \<longleftrightarrow> acl = extract_acl owner rec (acl_entity_kinds acl)"

text \<open>The entities a claim names: its subjects and the parties of a commitment.\<close>

definition refs_of :: "claim \<Rightarrow> string list" where
  "refs_of c = subject_entity_ids c @ (case clm_commitment c of None \<Rightarrow> []
     | Some m \<Rightarrow> owed_by_entity_id m # (case owed_to_entity_id m of None \<Rightarrow> [] | Some i \<Rightarrow> [i]))"

definition unresolved :: "claim \<Rightarrow> bool" where
  "unresolved c \<longleftrightarrow> status c = Active \<and> supersedes c = [] \<and> contradicts c = [] \<and> reconciled_into c = None
     \<and> (case clm_commitment c of None \<Rightarrow> True | Some m \<Rightarrow> fulfillment m = Open \<and> settled_at_ms m = None)"

definition entity_ok :: "string \<Rightarrow> raw_record \<Rightarrow> entity \<Rightarrow> bool" where
  "entity_ok owner rec e \<longleftrightarrow> ent_owner_id e = owner \<and> ent_id e = entity_id_of owner (ent_kind e) (ent_name e)
     \<and> ent_acl e = extract_acl owner rec [ent_kind e]"

definition event_ok :: "string \<Rightarrow> raw_record \<Rightarrow> entity list \<Rightarrow> event \<Rightarrow> bool" where
  "event_ok owner rec es e \<longleftrightarrow> evt_owner_id e = owner \<and> evt_id e = event_id_of owner rec
     \<and> body e = (if rec_sensitive rec then None else Some (rec_body rec))
     \<and> encrypted_content e = None \<and> entity_ids e = map ent_id es
     \<and> sr_connector (evt_source e) = rec_connector rec \<and> sr_external_id (evt_source e) = rec_external_id rec
     \<and> evt_acl e = extract_acl owner rec (kinds_of es)"

definition claim_ok :: "string \<Rightarrow> raw_record \<Rightarrow> entity list \<Rightarrow> claim \<Rightarrow> bool" where
  "claim_ok owner rec es c \<longleftrightarrow> clm_owner_id c = owner \<and> unresolved c
     \<and> clm_id c = stable_id ''clm'' [owner, event_id_of owner rec, clm_statement c]
     \<and> map cit_event_id (prov_citations (clm_provenance c)) = [event_id_of owner rec]
     \<and> (\<exists>ds. set ds \<subseteq> set es \<and> set (refs_of c) = ent_id ` set ds
          \<and> clm_acl c = extract_acl owner rec (kinds_of ds))"

definition candidate_ok :: "string \<Rightarrow> raw_record \<Rightarrow> candidate \<Rightarrow> bool" where
  "candidate_ok owner rec cand \<longleftrightarrow>
     (\<forall>e \<in> set (cand_entities cand). entity_ok owner rec e)
     \<and> (\<exists>e. cand_events cand = [e] \<and> event_ok owner rec (cand_entities cand) e)
     \<and> (\<forall>c \<in> set (cand_claims cand). claim_ok owner rec (cand_entities cand) c)"

definition nodes_in :: "candidate \<Rightarrow> memory_node list" where
  "nodes_in cand = map EntityN (cand_entities cand) @ map EventN (cand_events cand) @ map ClaimN (cand_claims cand)"

lemma set_kinds_of [simp]: "set (kinds_of es) = ent_kind ` set es"
  by (simp add: kinds_of_def sorted_kinds_def)

lemma candidate_okD:
  assumes "candidate_ok owner rec cand"
  shows "e \<in> set (cand_entities cand) \<Longrightarrow> entity_ok owner rec e"
    and "\<exists>e. cand_events cand = [e] \<and> event_ok owner rec (cand_entities cand) e"
    and "c \<in> set (cand_claims cand) \<Longrightarrow> claim_ok owner rec (cand_entities cand) c"
  using assms unfolding candidate_ok_def by blast+

lemma node_cases:
  assumes "n \<in> set (nodes_in cand)"
  obtains e where "n = EntityN e" "e \<in> set (cand_entities cand)"
    | e where "n = EventN e" "e \<in> set (cand_events cand)"
    | c where "n = ClaimN c" "c \<in> set (cand_claims cand)"
  using assms unfolding nodes_in_def by auto

lemma node_acl_of:
  assumes "candidate_ok owner rec cand" "n \<in> set (nodes_in cand)"
  obtains kinds where "node_acl n = extract_acl owner rec kinds" "node_owner n = owner"
  using assms(2)
proof (cases rule: node_cases)
  case (1 e)
  with candidate_okD(1) [OF assms(1)] that show thesis by (auto simp: entity_ok_def)
next
  case (2 e)
  with candidate_okD(2) [OF assms(1)] that show thesis by (auto simp: event_ok_def)
next
  case (3 c)
  with candidate_okD(3) [OF assms(1)] that show thesis by (fastforce simp: claim_ok_def)
qed

lemma permitsD:
  assumes "permits clock sc acl now_opt"
  shows "scope_owner_id sc = acl_owner_id acl" "acl_sources acl \<noteq> []" "set (acl_sources acl) \<subseteq> set (scope_sources sc)"
    "acl_entity_kinds acl \<noteq> []" "set (acl_entity_kinds acl) \<subseteq> set (scope_entity_kinds sc)"
    "acl_sensitivity acl \<le> max_sensitivity sc"
proof -
  have no: "\<not> violates r sc acl (case now_opt of None \<Rightarrow> clock | Some n \<Rightarrow> n)" for r
    using assms by (simp add: permits_def evaluate_clock spec_allowed_iff)
  show "scope_owner_id sc = acl_owner_id acl" using no [of WrongOwner] by simp
  show "acl_sources acl \<noteq> []" "set (acl_sources acl) \<subseteq> set (scope_sources sc)" using no [of SourceNotInScope] by auto
  show "acl_entity_kinds acl \<noteq> []" "set (acl_entity_kinds acl) \<subseteq> set (scope_entity_kinds sc)"
    using no [of EntityKindNotInScope] by auto
  show "acl_sensitivity acl \<le> max_sensitivity sc" using no [of TooSensitive] by simp
qed

locale extractor =
  fixes extr :: "string \<Rightarrow> raw_record \<Rightarrow> candidate result"
  assumes extr_ok: "extr owner rec = Inr cand \<Longrightarrow> candidate_ok owner rec cand"
begin

text \<open>What a grant must cover to see anything of a record.\<close>

lemma gated:
  assumes "extr owner rec = Inr cand" "n \<in> set (nodes_in cand)" "permits clock sc (node_acl n) now_opt"
  shows "scope_owner_id sc = owner" "rec_connector rec \<in> set (scope_sources sc)"
    "rec_sensitive rec \<longrightarrow> Confidential \<le> max_sensitivity sc"
proof -
  obtain kinds where acl: "node_acl n = extract_acl owner rec kinds"
    by (rule node_acl_of [OF extr_ok [OF assms(1)] assms(2)])
  note p = permitsD [OF assms(3), unfolded acl]
  show "scope_owner_id sc = owner" using p(1) by (simp add: extract_acl_def)
  show "rec_connector rec \<in> set (scope_sources sc)" using p(3) by (simp add: extract_acl_def)
  show "rec_sensitive rec \<longrightarrow> Confidential \<le> max_sensitivity sc" using p(6)
    by (simp add: extract_acl_def split: if_splits)
qed

text \<open>A claim is as hard to see as every entity it names.\<close>

lemma named_kind:
  assumes "extr owner rec = Inr cand" "c \<in> set (cand_claims cand)" "permits clock sc (clm_acl c) now_opt"
    and "i \<in> set (refs_of c)"
  shows "\<exists>e \<in> set (cand_entities cand). ent_id e = i \<and> ent_kind e \<in> set (scope_entity_kinds sc)"
proof -
  obtain ds where ds: "set ds \<subseteq> set (cand_entities cand)" "set (refs_of c) = ent_id ` set ds"
    "clm_acl c = extract_acl owner rec (kinds_of ds)"
    using candidate_okD(3) [OF extr_ok [OF assms(1)] assms(2)] unfolding claim_ok_def by blast
  obtain d where d: "d \<in> set ds" "ent_id d = i" using ds(2) assms(4) by auto
  have "set (kinds_of ds) \<subseteq> set (scope_entity_kinds sc)"
    using permitsD(5) [OF assms(3)] by (simp add: ds(3) extract_acl_def del: set_kinds_of)
  with d ds(1) show ?thesis by auto
qed

text \<open>A claim without an entity, and the event of a record without one, are seen by nobody.\<close>

lemma needs_entity:
  assumes "extr owner rec = Inr cand" "cand_entities cand = []" "n \<in> set (nodes_in cand)"
  shows "\<not> permits clock sc (node_acl n) now_opt"
proof
  assume p: "permits clock sc (node_acl n) now_opt"
  note ok = candidate_okD [OF extr_ok [OF assms(1)]]
  from assms(3) show False
  proof (cases rule: node_cases)
    case (2 e)
    with ok(2) assms(2) have "node_acl n = extract_acl owner rec (kinds_of [])" by (auto simp: event_ok_def)
    with permitsD(4) [OF p] show False by (simp add: extract_acl_def kinds_of_def sorted_kinds_def)
  next
    case (3 c)
    with ok(3) assms(2) have "node_acl n = extract_acl owner rec (kinds_of [])"
      unfolding claim_ok_def by fastforce
    with permitsD(4) [OF p] show False by (simp add: extract_acl_def kinds_of_def sorted_kinds_def)
  qed (use assms(2) in simp)
qed

end

section \<open>The mock extractor\<close>

lemma add_entity_cases:
  obtains e where "find (\<lambda>e. ent_id e = entity_id_of owner kind name) es = Some e" "e \<in> set es"
      "ent_id e = entity_id_of owner kind name" "add_entity owner rec source kind name es = (es, e)"
  | "entity_id_of owner kind name \<notin> ent_id ` set es"
      "add_entity owner rec source kind name es
         = (es @ [mock_entity owner rec source kind name], mock_entity owner rec source kind name)"
proof (cases "find (\<lambda>e. ent_id e = entity_id_of owner kind name) es")
  case None
  then have "entity_id_of owner kind name \<notin> ent_id ` set es" by (auto simp: find_None_iff)
  with None that(2) show thesis by (simp add: add_entity_def)
next
  case (Some e)
  then have "e \<in> set es" "ent_id e = entity_id_of owner kind name" by (auto simp: find_Some_iff)
  with Some that(1) show thesis by (simp add: add_entity_def)
qed

lemma add_entity_known:
  assumes "entity_id_of owner kind name \<in> ent_id ` set es"
  obtains e where "add_entity owner rec source kind name es = (es, e)" "e \<in> set es"
    "ent_id e = entity_id_of owner kind name"
  by (rule add_entity_cases [of owner kind name es rec source]) (use assms that in auto)

definition mentioned :: "string \<Rightarrow> entity list \<Rightarrow> entity_kind \<times> string \<Rightarrow> bool" where
  "mentioned owner es kn \<longleftrightarrow> entity_id_of owner (fst kn) (snd kn) \<in> ent_id ` set es"

lemma fold_add_entity:
  fixes owner rec source kns es
  defines "es' \<equiv> fold (\<lambda>(kind, name) es. fst (add_entity owner rec source kind name es)) kns es"
  assumes "distinct (map ent_id es)" "\<forall>e \<in> set es. entity_ok owner rec e"
  shows "distinct (map ent_id es')" "\<forall>e \<in> set es'. entity_ok owner rec e" "set es \<subseteq> set es'"
    "kn \<in> set kns \<Longrightarrow> mentioned owner es' kn"
proof -
  let ?add = "\<lambda>(kind, name) es. fst (add_entity owner rec source kind name es)"
  have step: "distinct (map ent_id (?add kn es)) \<and> (\<forall>e \<in> set (?add kn es). entity_ok owner rec e)
      \<and> set es \<subseteq> set (?add kn es) \<and> mentioned owner (?add kn es) kn"
    if "distinct (map ent_id es)" "\<forall>e \<in> set es. entity_ok owner rec e" for kn es
  proof (cases kn)
    case (Pair kind name)
    show ?thesis
      by (rule add_entity_cases [of owner kind name es rec source])
        (use that Pair in \<open>auto simp: mentioned_def mock_entity_def entity_ok_def intro: rev_image_eqI\<close>)
  qed
  have "distinct (map ent_id (fold ?add kns es)) \<and> (\<forall>e \<in> set (fold ?add kns es). entity_ok owner rec e)
      \<and> set es \<subseteq> set (fold ?add kns es) \<and> (\<forall>kn \<in> set kns. mentioned owner (fold ?add kns es) kn)"
    using assms(2,3)
  proof (induction kns arbitrary: es)
    case (Cons kn kns)
    note s = step [OF Cons.prems, of kn]
    from Cons.IH [of "?add kn es"] s
    have "distinct (map ent_id (fold ?add kns (?add kn es)))" "\<forall>e \<in> set (fold ?add kns (?add kn es)). entity_ok owner rec e"
      "set (?add kn es) \<subseteq> set (fold ?add kns (?add kn es))" "\<forall>k \<in> set kns. mentioned owner (fold ?add kns (?add kn es)) k"
      by blast+
    with s show ?case by (auto simp: mentioned_def)
  qed simp
  then show "distinct (map ent_id es')" "\<forall>e \<in> set es'. entity_ok owner rec e" "set es \<subseteq> set es'"
    "kn \<in> set kns \<Longrightarrow> mentioned owner es' kn" by (auto simp: es'_def)
qed

lemma mentions_parties:
  "h \<in> set (re_finditer commitment_re (record_text rec)) \<Longrightarrow> set (parties_of h) \<subseteq> set (mentions rec)"
  by (auto simp: mentions_def Let_def)

lemma plain_claim_ok: "claim_ok owner rec es (plain_claim owner rec source es h)"
  by (auto simp: claim_ok_def plain_claim_def mock_claim_def unresolved_def refs_of_def provenance_of_def quoting_def
      intro!: exI [of _ "filter is_subject es"])

lemma commitment_claim_ok:
  assumes "by \<in> set es" "set to \<subseteq> set es" "length to \<le> 1"
  shows "claim_ok owner rec es (mock_claim owner rec source st q (filter is_subject es)
     (Some \<lparr>owed_by_entity_id = ent_id by, owed_to_entity_id = (case to of [] \<Rightarrow> None | e # _ \<Rightarrow> Some (ent_id e)),
       due_at_ms = due, fulfillment = Open, settled_at_ms = None\<rparr>) (by # to))"
  using assms
  by (cases to) (auto simp: claim_ok_def mock_claim_def unresolved_def refs_of_def provenance_of_def quoting_def
      intro!: exI [of _ "filter is_subject es @ by # to"])

text \<open>The loop over commitments adds no entity: the parties were added before.\<close>

lemma commitment_step_ok:
  assumes "\<And>kn. kn \<in> set (parties_of h) \<Longrightarrow> mentioned owner es kn"
    and "commitment_step owner rec source h (es, cs) = Inr s"
  shows "\<exists>c. s = (es, cs @ [c]) \<and> claim_ok owner rec es c"
proof -
  have p1: "entity_id_of owner Person (group_text h 1) \<in> ent_id ` set es"
    using assms(1) [of "(Person, group_text h 1)"] by (simp add: parties_of_def mentioned_def)
  obtain e1 where e1: "add_entity owner rec source Person (group_text h 1) es = (es, e1)" "e1 \<in> set es"
    by (rule add_entity_known [OF p1])
  let ?to = "case group_of h 2 of None \<Rightarrow> (es, []) | Some s \<Rightarrow> if s \<noteq> []
     then map_prod id (\<lambda>e. [e]) (add_entity owner rec source Person s es) else (es, [])"
  obtain to where to: "?to = (es, to)" "set to \<subseteq> set es" "length to \<le> 1"
  proof (cases "group_of h 2")
    case (Some t)
    show thesis
    proof (cases "t = []")
      case False
      then have p2: "entity_id_of owner Person t \<in> ent_id ` set es"
        using assms(1) [of "(Person, t)"] Some by (simp add: parties_of_def mentioned_def)
      obtain e2 where "add_entity owner rec source Person t es = (es, e2)" "e2 \<in> set es"
        by (rule add_entity_known [OF p2])
      then show thesis using that [of "[e2]"] Some False by simp
    qed (use that [of "[]"] Some in simp)
  qed (use that [of "[]"] in simp)
  from assms(2) obtain due where "s = (es, cs @ [mock_claim owner rec source (obligation_text h) (hit_text h)
     (filter is_subject es) (Some \<lparr>owed_by_entity_id = ent_id e1,
       owed_to_entity_id = (case to of [] \<Rightarrow> None | e # _ \<Rightarrow> Some (ent_id e)),
       due_at_ms = due, fulfillment = Open, settled_at_ms = None\<rparr>) (e1 # to)])"
    unfolding commitment_step_def prod.case Let_def e1(1) to(1) by (elim bind_e_InrE) auto
  with commitment_claim_ok [OF e1(2) to(2,3)] show ?thesis by blast
qed

lemma commitment_loop_ok:
  assumes "\<And>h kn. h \<in> set hs \<Longrightarrow> kn \<in> set (parties_of h) \<Longrightarrow> mentioned owner es kn"
    and "fold_e (commitment_step owner rec source) hs (es, cs) = Inr (es', cs')"
    and "\<And>c. c \<in> set cs \<Longrightarrow> claim_ok owner rec es c"
  shows "es' = es \<and> (\<forall>c \<in> set cs'. claim_ok owner rec es c)"
  using assms
proof (induction hs arbitrary: cs)
  case (Cons h hs)
  from Cons.prems(2) obtain s where s: "commitment_step owner rec source h (es, cs) = Inr s"
    "fold_e (commitment_step owner rec source) hs s = Inr (es', cs')" by (auto elim: bind_e_InrE)
  obtain c where c: "s = (es, cs @ [c])" "claim_ok owner rec es c"
    using commitment_step_ok [OF _ s(1)] Cons.prems(1) by auto
  show ?case
    by (rule Cons.IH [OF _ s(2) [unfolded c(1)]]) (use Cons.prems(1,3) c(2) in auto)
qed simp

lemma mock_extract_parts:
  assumes "mock_extract show now owner rec = Inr cand"
  obtains source cits es claims where
    "new_source_ref (rec_connector rec) (rec_external_id rec) (rec_url rec) (rec_occurred_at_ms rec) now = Inr source"
    "es = mock_entities owner rec source" "distinct (map ent_id es)"
    "\<forall>kn \<in> set (mentions rec). mentioned owner es kn"
    "\<forall>e \<in> set es. entity_ok owner rec e" "\<forall>c \<in> set claims. claim_ok owner rec es c"
    "cand = \<lparr>cand_entities = es, cand_events = [mock_event owner rec source es cits], cand_claims = claims\<rparr>"
proof -
  obtain source cits es' claims where p:
    "new_source_ref (rec_connector rec) (rec_external_id rec) (rec_url rec) (rec_occurred_at_ms rec) now = Inr source"
    "fold_e (commitment_step owner rec source) (re_finditer commitment_re (record_text rec))
      (mock_entities owner rec source, map (plain_claim owner rec source (mock_entities owner rec source))
        (re_finditer claim_re (record_text rec))) = Inr (es', claims)"
    "cand = \<lparr>cand_entities = es', cand_events = [mock_event owner rec source (mock_entities owner rec source) cits],
      cand_claims = claims\<rparr>"
    using assms unfolding mock_extract_def Let_def by (elim bind_e_InrE) (auto split: prod.splits)
  note f = fold_add_entity [where es = "[]" and owner = owner and rec = rec and source = source and kns = "mentions rec",
      folded mock_entities_def]
  have ment: "kn \<in> set (mentions rec) \<Longrightarrow> mentioned owner (mock_entities owner rec source) kn" for kn
    by (rule f(4)) simp_all
  have loop: "es' = mock_entities owner rec source \<and> (\<forall>c \<in> set claims. claim_ok owner rec (mock_entities owner rec source) c)"
  proof (rule commitment_loop_ok [OF _ p(2)])
    fix h kn assume "h \<in> set (re_finditer commitment_re (record_text rec))" "kn \<in> set (parties_of h)"
    then show "mentioned owner (mock_entities owner rec source) kn" using mentions_parties ment by blast
  qed (auto simp: plain_claim_ok)
  moreover have "distinct (map ent_id (mock_entities owner rec source))" "\<forall>e \<in> set (mock_entities owner rec source). entity_ok owner rec e"
    by (rule f(1,2); simp)+
  ultimately show thesis using that [OF p(1) refl] ment p(3) by blast
qed

lemma mock_source: "new_source_ref c x u t now = Inr source \<Longrightarrow>
  sr_connector source = c \<and> sr_external_id source = x \<and> sr_ingested_at_ms source = now"
  by (auto simp: new_source_ref_def check_source_id_def split: sum.splits if_splits)

lemma mock_candidate_ok:
  assumes "mock_extract show now owner rec = Inr cand"
  shows "candidate_ok owner rec cand"
proof -
  obtain source cits es claims where
    "new_source_ref (rec_connector rec) (rec_external_id rec) (rec_url rec) (rec_occurred_at_ms rec) now = Inr source"
    and f: "\<forall>e \<in> set es. entity_ok owner rec e" "\<forall>c \<in> set claims. claim_ok owner rec es c"
    and c: "cand = \<lparr>cand_entities = es, cand_events = [mock_event owner rec source es cits], cand_claims = claims\<rparr>"
    by (rule mock_extract_parts [OF assms])
  then have "event_ok owner rec es (mock_event owner rec source es cits)"
    using mock_source by (auto simp: event_ok_def mock_event_def)
  with f c show ?thesis by (simp add: candidate_ok_def)
qed

interpretation mock: extractor "mock_extract fmt now" for fmt now
  by unfold_locales (rule mock_candidate_ok)

section \<open>Extracting the same record later\<close>

text \<open>The candidate with another time of ingestion.\<close>

definition retime_source :: "int \<Rightarrow> source_ref \<Rightarrow> source_ref" where
  "retime_source t s = s\<lparr>sr_ingested_at_ms := t\<rparr>"

definition retime_citation :: "int \<Rightarrow> citation \<Rightarrow> citation" where
  "retime_citation t c = c\<lparr>cit_source := retime_source t (cit_source c)\<rparr>"

definition retime_provenance :: "int \<Rightarrow> provenance \<Rightarrow> provenance" where
  "retime_provenance t p =
     p\<lparr>prov_citations := map (retime_citation t) (prov_citations p), created_at_ms := t\<rparr>"

definition retime_entity :: "int \<Rightarrow> entity \<Rightarrow> entity" where
  "retime_entity t e = e\<lparr>ent_provenance := retime_provenance t (ent_provenance e)\<rparr>"

definition retime_event :: "int \<Rightarrow> event \<Rightarrow> event" where
  "retime_event t e = e\<lparr>evt_source := retime_source t (evt_source e),
     evt_provenance := retime_provenance t (evt_provenance e)\<rparr>"

definition retime_claim :: "int \<Rightarrow> claim \<Rightarrow> claim" where
  "retime_claim t c = c\<lparr>clm_provenance := retime_provenance t (clm_provenance c)\<rparr>"

definition retime :: "int \<Rightarrow> candidate \<Rightarrow> candidate" where
  "retime t cand = \<lparr>cand_entities = map (retime_entity t) (cand_entities cand),
     cand_events = map (retime_event t) (cand_events cand), cand_claims = map (retime_claim t) (cand_claims cand)\<rparr>"

lemmas retime_defs = retime_source_def retime_citation_def retime_provenance_def retime_entity_def
  retime_event_def retime_claim_def quoting_def provenance_of_def

lemma retime_entity_simps [simp]:
  "ent_id (retime_entity t e) = ent_id e" "ent_kind (retime_entity t e) = ent_kind e"
  "ent_id \<circ> retime_entity t = ent_id" "is_subject (retime_entity t e) = is_subject e"
  "is_subject \<circ> retime_entity t = is_subject"
  by (auto simp: retime_entity_def is_subject_def)

lemma kinds_of_retime [simp]: "kinds_of (map (retime_entity t) es) = kinds_of es"
  by (simp add: kinds_of_def sorted_kinds_def o_def)

lemma map_sum_bind_e: "map_sum id g (bind_e m h) = bind_e m (\<lambda>x. map_sum id g (h x))"
  by (cases m) auto

lemma bind_e_map_sum: "bind_e (map_sum id g m) h = bind_e m (\<lambda>x. h (g x))"
  by (cases m) auto

lemma map_e_map_sum:
  assumes "f' = (\<lambda>x. map_sum id g (f x))"
  shows "map_e f' xs = map_sum id (map g) (map_e f xs)"
proof (induction xs)
  case (Cons x xs)
  then show ?case by (cases "f x"; cases "map_e f xs") (auto simp: assms)
qed simp

lemma fold_e_map_sum:
  "(\<And>x s. f' x (g s) = map_sum id g (f x s)) \<Longrightarrow> fold_e f' xs (g s) = map_sum id g (fold_e f xs s)"
proof (induction xs arbitrary: s)
  case (Cons x xs)
  then show ?case by (cases "f x s") simp_all
qed simp

lemma find_map: "find P (map f xs) = map_option f (find (P \<circ> f) xs)"
  by (induction xs) simp_all

lemma mock_entity_retime: "mock_entity owner rec (retime_source t src) kind name = retime_entity t (mock_entity owner rec src kind name)"
  by (simp add: mock_entity_def retime_defs)

lemma add_entity_retime:
  "add_entity owner rec (retime_source t src) kind name (map (retime_entity t) es)
     = map_prod (map (retime_entity t)) (retime_entity t) (add_entity owner rec src kind name es)"
  by (simp add: add_entity_def find_map o_def mock_entity_retime split: option.split)

lemma mock_entities_retime: "mock_entities owner rec (retime_source t src) = map (retime_entity t) (mock_entities owner rec src)"
proof -
  have "fold (\<lambda>(kind, name) es. fst (add_entity owner rec (retime_source t src) kind name es)) kns (map (retime_entity t) es)
      = map (retime_entity t) (fold (\<lambda>(kind, name) es. fst (add_entity owner rec src kind name es)) kns es)" for kns es
    by (induction kns arbitrary: es) (simp_all add: add_entity_retime split: prod.splits)
  from this [of _ "[]"] show ?thesis by (simp add: mock_entities_def)
qed

lemma new_source_ref_retime:
  "new_source_ref c x u t0 now' = map_sum id (retime_source now') (new_source_ref c x u t0 now)"
  by (simp add: new_source_ref_def retime_source_def split: sum.split)

lemma cited_in_retime:
  "cited_in fmt owner rec now' = map_sum id (map (retime_citation now')) (cited_in fmt owner rec now)"
proof -
  have "cite_of fmt owner rec now' = (\<lambda>j. map_sum id (retime_citation now') (cite_of fmt owner rec now j))"
    unfolding cite_of_def Let_def new_source_ref_retime [of _ _ _ _ now' now] bind_e_map_sum map_sum_bind_e
    by (simp add: retime_citation_def)
  from map_e_map_sum [OF this]
  have "map_e (cite_of fmt owner rec now') = (\<lambda>xs. map_sum id (map (retime_citation now')) (map_e (cite_of fmt owner rec now) xs))"
    by (rule ext)
  then show ?thesis by (simp only: cited_in_def map_sum_bind_e)
qed

lemma mock_claim_retime:
  "mock_claim owner rec (retime_source t src) st q (map (retime_entity t) subjects) facet (map (retime_entity t) parties)
     = retime_claim t (mock_claim owner rec src st q subjects facet parties)"
  by (simp add: mock_claim_def retime_defs kinds_of_def sorted_kinds_def o_def)

lemma commitment_step_retime:
  "commitment_step owner rec (retime_source t src) h (map_prod (map (retime_entity t)) (map (retime_claim t)) s)
     = map_sum id (map_prod (map (retime_entity t)) (map (retime_claim t))) (commitment_step owner rec src h s)"
proof -
  obtain es cs where s: "s = (es, cs)" by fastforce
  obtain es1 p1 where b: "add_entity owner rec src Person (group_text h 1) es = (es1, p1)" by fastforce
  let ?to = "\<lambda>src es1. case group_of h 2 of None \<Rightarrow> (es1, []) | Some s \<Rightarrow> if s \<noteq> []
     then map_prod id (\<lambda>e. [e]) (add_entity owner rec src Person s es1) else (es1, [])"
  obtain es2 to where t: "?to src es1 = (es2, to)" by fastforce
  have b': "add_entity owner rec (retime_source t src) Person (group_text h 1) (map (retime_entity t) es)
      = (map (retime_entity t) es1, retime_entity t p1)"
    unfolding add_entity_retime b by simp
  have t': "?to (retime_source t src) (map (retime_entity t) es1) = (map (retime_entity t) es2, map (retime_entity t) to)"
    using t by (cases "add_entity owner rec src Person (group_text h 2) es1")
      (auto simp: add_entity_retime group_text_def split: option.splits if_splits)
  have sub: "filter is_subject (map (retime_entity t) es) = map (retime_entity t) (filter is_subject es)"
    by (simp add: filter_map)
  have to: "(case map (retime_entity t) to of [] \<Rightarrow> None | e # _ \<Rightarrow> Some (ent_id e))
      = (case to of [] \<Rightarrow> None | e # _ \<Rightarrow> Some (ent_id e))" by (cases to) simp_all
  have parties: "retime_entity t p1 # map (retime_entity t) to = map (retime_entity t) (p1 # to)" by simp
  show ?thesis
    unfolding s commitment_step_def map_prod_simp prod.case Let_def b t b' t' sub to parties mock_claim_retime map_sum_bind_e
    by simp
qed

lemma mock_event_retime:
  "mock_event owner rec (retime_source t src) (map (retime_entity t) es) (map (retime_citation t) cits)
     = retime_event t (mock_event owner rec src es cits)"
  by (simp add: mock_event_def retime_defs kinds_of_def sorted_kinds_def o_def)

text \<open>Extraction is a function of the record's content: extracting the same record again at another
  time fails in the same way or gives the same candidate, ids, statements and permissions
  included, with the new time of ingestion.\<close>

theorem mock_extract_retimed:
  "mock_extract fmt now' owner rec = map_sum id (retime now') (mock_extract fmt now owner rec)"
proof -
  let ?R = "map_prod (map (retime_entity now')) (map (retime_claim now'))"
  have claims: "map (plain_claim owner rec (retime_source now' src) (map (retime_entity now') es)) hs
      = map (retime_claim now') (map (plain_claim owner rec src es) hs)" for src es hs
    using mock_claim_retime [where parties = "[]"]
    by (simp add: plain_claim_def filter_map)
  have loop: "fold_e (commitment_step owner rec (retime_source now' src)) hs (map (retime_entity now') es, map (retime_claim now') cs)
      = map_sum id ?R (fold_e (commitment_step owner rec src) hs (es, cs))" for src hs es cs
  proof -
    have "fold_e (commitment_step owner rec (retime_source now' src)) hs (?R (es, cs))
        = map_sum id ?R (fold_e (commitment_step owner rec src) hs (es, cs))"
      by (rule fold_e_map_sum) (rule commitment_step_retime)
    then show ?thesis by (simp only: map_prod_simp)
  qed
  show ?thesis
    unfolding mock_extract_def new_source_ref_retime [of _ _ _ _ now' now] cited_in_retime [of _ _ _ now' now]
      bind_e_map_sum map_sum_bind_e mock_entities_retime Let_def claims loop
    by (simp add: retime_def mock_event_retime case_prod_beta)
qed

section \<open>When extraction fails\<close>

definition returns :: "'a result \<Rightarrow> bool" where
  "returns r = (case r of Inl e \<Rightarrow> False | Inr x \<Rightarrow> True)"

lemma returns_simps [simp]: "returns (Inr x)" "\<not> returns (Inl e)" "returns (bind_e m f) \<longleftrightarrow> (\<exists>x. m = Inr x \<and> returns (f x))"
  by (simp_all add: returns_def bind_e_def split: sum.split)

lemma returns_iff: "returns r \<longleftrightarrow> (\<exists>x. r = Inr x)"
  by (cases r) auto

text \<open>The connector a declared reference names.\<close>

definition cited_connector :: "(json \<Rightarrow> string) \<Rightarrow> json \<Rightarrow> string" where
  "cited_connector fmt j = takeWhile (\<lambda>c. c \<noteq> CHR '':'') (py_str fmt j)"

definition references_ok :: "(json \<Rightarrow> string) \<Rightarrow> raw_record \<Rightarrow> bool" where
  "references_ok fmt rec = (case map_of (rec_metadata rec) ''cites'' of
      None \<Rightarrow> True
    | Some j \<Rightarrow> (case py_iter j of
        Inl e \<Rightarrow> False
      | Inr refs \<Rightarrow> list_all (\<lambda>r. returns (check_source_id (cited_connector fmt r))) refs))"

definition deadline_ok :: "re_hit \<Rightarrow> bool" where
  "deadline_ok h = (case group_of h 4 of None \<Rightarrow> True | Some s \<Rightarrow> s = [] \<or> returns (date_ms s))"

lemma returns_map_e: "returns (map_e f xs) \<longleftrightarrow> list_all (\<lambda>x. returns (f x)) xs"
proof (induction xs)
  case (Cons x xs)
  then show ?case by (auto simp: returns_iff bind_e_Inr_iff)
qed simp

lemma returns_cite_of: "returns (cite_of fmt owner rec now r) = returns (check_source_id (cited_connector fmt r))"
  by (auto simp: cite_of_def Let_def new_source_ref_def cited_connector_def returns_iff bind_e_Inr_iff split: sum.splits)

lemma returns_cited_in: "returns (cited_in fmt owner rec now) = references_ok fmt rec"
  by (auto simp: cited_in_def references_ok_def returns_map_e returns_cite_of split: option.splits sum.splits)

lemma returns_due: "returns (due_ms d) \<longleftrightarrow> (case d of None \<Rightarrow> True | Some s \<Rightarrow> s = [] \<or> returns (date_ms s))"
  by (auto simp: due_ms_def returns_iff bind_e_Inr_iff split: option.split)

lemma returns_bind_total: "(\<And>x. returns (f x)) \<Longrightarrow> returns (bind_e m f) = returns m"
  by (cases m) simp_all

lemma returns_commitments:
  "returns (fold_e (commitment_step owner rec source) hs s) \<longleftrightarrow> list_all deadline_ok hs"
proof (induction hs arbitrary: s)
  case (Cons h hs)
  have "returns (commitment_step owner rec source h s) \<longleftrightarrow> deadline_ok h"
    unfolding commitment_step_def deadline_ok_def returns_due [symmetric]
    by (cases s) (auto simp: Let_def returns_iff bind_e_Inr_iff split: prod.split)
  then show ?case
    using Cons.IH by (auto simp: returns_iff [of "commitment_step owner rec source h s"])
qed simp

lemma mock_returns_iff:
  "returns (mock_extract fmt now owner rec) \<longleftrightarrow> returns (check_source_id (rec_connector rec))
     \<and> references_ok fmt rec \<and> list_all deadline_ok (re_finditer commitment_re (record_text rec))"
proof -
  let ?src = "new_source_ref (rec_connector rec) (rec_external_id rec) (rec_url rec) (rec_occurred_at_ms rec) now"
  let ?hits = "re_finditer commitment_re (record_text rec)"
  have loop: "returns (bind_e (fold_e (commitment_step owner rec source) ?hits s) (\<lambda>(es, cs). Inr (f es cs)))
      = list_all deadline_ok ?hits" for source s and f :: "entity list \<Rightarrow> claim list \<Rightarrow> candidate"
    by (subst returns_bind_total) (simp_all add: returns_commitments split: prod.split)
  have "returns (mock_extract fmt now owner rec) \<longleftrightarrow> returns ?src \<and> returns (cited_in fmt owner rec now) \<and> list_all deadline_ok ?hits"
    by (cases ?src; cases "cited_in fmt owner rec now")
      (simp_all add: mock_extract_def Let_def loop del: returns_simps(3))
  moreover have "returns ?src = returns (check_source_id (rec_connector rec))"
    by (simp add: new_source_ref_def returns_def split: sum.split)
  ultimately show ?thesis by (simp add: returns_cited_in)
qed

text \<open>C32: the mock extractor fails exactly on a connector that is not a source id, on references that are not a
  sequence of strings starting with a source id, and on a deadline that is no calendar date.\<close>

theorem mock_extract_fails:
  "(\<exists>e. mock_extract fmt now owner rec = Inl e) \<longleftrightarrow> \<not> (returns (check_source_id (rec_connector rec))
     \<and> references_ok fmt rec \<and> list_all deadline_ok (re_finditer commitment_re (record_text rec)))"
  unfolding mock_returns_iff [symmetric, where fmt = fmt and now = now and owner = owner] by (cases "mock_extract fmt now owner rec") simp_all

section \<open>What is extracted\<close>

text \<open>C28: a candidate of the mock extractor is closed and unresolved. Entities have distinct ids, the one event
  mentions all of them in order and carries the body only when the record is not sensitive, every
  claim refers to entities of the candidate, and no claim supersedes, contradicts or settles
  anything. The loop over commitments, which may add entities after the event was built, never
  adds one.\<close>

theorem mock_extract_closed:
  assumes "mock_extract fmt now owner rec = Inr cand"
  shows "distinct (map ent_id (cand_entities cand)) \<and>
    (\<exists>e. cand_events cand = [e] \<and> entity_ids e = map ent_id (cand_entities cand)
       \<and> body e = (if rec_sensitive rec then None else Some (rec_body rec))) \<and>
    (\<forall>c \<in> set (cand_claims cand). unresolved c \<and> set (refs_of c) \<subseteq> ent_id ` set (cand_entities cand))"
proof -
  obtain source cits es claims where p: "distinct (map ent_id es)" "\<forall>c \<in> set claims. claim_ok owner rec es c"
    "cand = \<lparr>cand_entities = es, cand_events = [mock_event owner rec source es cits], cand_claims = claims\<rparr>"
    by (rule mock_extract_parts [OF assms])
  have "unresolved c \<and> set (refs_of c) \<subseteq> ent_id ` set es" if "c \<in> set claims" for c
    using p(2) that unfolding claim_ok_def by fastforce
  with p(1,3) show ?thesis by (auto simp: mock_event_def)
qed

text \<open>C20: what a grant must cover to see anything the mock extractor makes of a record: the owner, the source
  of the record, its sensitivity, and for a claim the kind of every entity the claim names, the
  parties of a commitment included.\<close>

theorem mock_extract_gated:
  assumes "mock_extract fmt now owner rec = Inr cand" "n \<in> set (nodes_in cand)"
    and "permits clock sc (node_acl n) now_opt"
  shows "scope_owner_id sc = owner \<and> rec_connector rec \<in> set (scope_sources sc)
    \<and> (rec_sensitive rec \<longrightarrow> Confidential \<le> max_sensitivity sc)
    \<and> (\<forall>c i. n = ClaimN c \<and> i \<in> set (refs_of c) \<longrightarrow>
         (\<exists>e. e \<in> set (cand_entities cand) \<and> ent_id e = i \<and> ent_kind e \<in> set (scope_entity_kinds sc)))"
proof (intro conjI allI impI)
  fix c i assume c: "n = ClaimN c \<and> i \<in> set (refs_of c)"
  then have "c \<in> set (cand_claims cand)" using assms(2) by (auto simp: nodes_in_def)
  with mock.named_kind [OF assms(1)] assms(3) c
  show "\<exists>e. e \<in> set (cand_entities cand) \<and> ent_id e = i \<and> ent_kind e \<in> set (scope_entity_kinds sc)"
    by fastforce
qed (use mock.gated [OF assms] in auto)

section \<open>Samples\<close>

definition note_record :: raw_record where
  "note_record = \<lparr>rec_external_id = ''n1'', rec_connector = ''mock'', rec_occurred_at_ms = 7, rec_title = ''Note'',
     rec_body = ''Alice committed that project atlas will ship it.'', rec_url = None, rec_sensitive = True,
     rec_participants = [''Alice''], rec_metadata = []\<rparr>"

definition full_scope :: "string \<Rightarrow> string \<Rightarrow> scope" where
  "full_scope owner source = \<lparr>agent_id = ''a'', scope_owner_id = owner, scope_sources = [source],
     scope_entity_kinds = [Person, Project, Artifact, Organization, Topic], not_before_ms = None, not_after_ms = None,
     max_sensitivity = Restricted, expires_at_ms = None\<rparr>"

lemma full_scope_permits:
  assumes "kinds \<noteq> []" "rec_connector rec = source"
  shows "permits clock (full_scope owner source) (extract_acl owner rec kinds) (Some t)"
proof -
  have "\<not> violates r (full_scope owner source) (extract_acl owner rec kinds) t" for r
  proof (cases r)
    case EntityKindNotInScope
    have "set kinds \<subseteq> set [Person, Project, Artifact, Organization, Topic]"
      by (auto intro: entity_kind.exhaust)
    with EntityKindNotInScope assms(1) show ?thesis by (simp add: full_scope_def extract_acl_def)
  next
    case TooSensitive
    then show ?thesis by (simp add: full_scope_def extract_acl_def less_sensitivity_def)
  qed (use assms(2) in \<open>simp_all add: full_scope_def extract_acl_def\<close>)
  then show ?thesis by (simp add: permits_def evaluate_spec spec_allowed_iff)
qed

lemma note_returns: "returns (mock_extract fmt now ''o'' note_record)"
  unfolding mock_returns_iff references_ok_def by code_simp

lemma note_extracted:
  obtains cand e where "mock_extract fmt now ''o'' note_record = Inr cand" "EventN e \<in> set (nodes_in cand)"
    "evt_acl e = extract_acl ''o'' note_record (kinds_of (cand_entities cand))" "cand_entities cand \<noteq> []"
proof -
  obtain cand where cand: "mock_extract fmt now ''o'' note_record = Inr cand"
    using note_returns [of fmt now] by (auto simp: returns_iff)
  obtain source cits es claims where p: "\<forall>kn \<in> set (mentions note_record). mentioned ''o'' es kn"
    "cand = \<lparr>cand_entities = es, cand_events = [mock_event ''o'' note_record source es cits], cand_claims = claims\<rparr>"
    by (rule mock_extract_parts [OF cand])
  have "(Person, ''Alice'') \<in> set (mentions note_record)" by (simp add: mentions_def note_record_def Let_def)
  with p(1) have "es \<noteq> []" by (auto simp: mentioned_def)
  with p(2) show thesis
    by (intro that [of cand "mock_event ''o'' note_record source es cits", OF cand])
      (simp_all add: nodes_in_def mock_event_def)
qed

theorem mock_extract_gated_witness:
  "\<exists>cand n. mock_extract (\<lambda>_. []) 5 ''o'' note_record = Inr cand \<and> n \<in> set (nodes_in cand)
     \<and> permits 9 (full_scope ''o'' ''mock'') (node_acl n) (Some 9) \<and> Confidential \<le> max_sensitivity (full_scope ''o'' ''mock'')"
proof -
  obtain cand e where c: "mock_extract (\<lambda>_. []) 5 ''o'' note_record = Inr cand" "EventN e \<in> set (nodes_in cand)"
    "evt_acl e = extract_acl ''o'' note_record (kinds_of (cand_entities cand))" "cand_entities cand \<noteq> []"
    by (rule note_extracted)
  have "set (kinds_of (cand_entities cand)) \<noteq> {}" using c(4) by simp
  then have "kinds_of (cand_entities cand) \<noteq> []" by (metis list.set(1))
  then have "permits 9 (full_scope ''o'' ''mock'') (node_acl (EventN e)) (Some 9)"
    unfolding node_acl.simps c(3) by (intro full_scope_permits) (simp_all add: note_record_def)
  moreover from mock_extract_gated [OF c(1,2) this]
  have "Confidential \<le> max_sensitivity (full_scope ''o'' ''mock'')" by (simp add: note_record_def)
  ultimately show ?thesis using c(1,2) by blast
qed

theorem mock_extract_closed_witness:
  "\<exists>cand. mock_extract (\<lambda>_. []) 5 ''o'' note_record = Inr cand \<and> distinct (map ent_id (cand_entities cand))
     \<and> cand_entities cand \<noteq> [] \<and> map body (cand_events cand) = [None]"
proof -
  obtain cand e where c: "mock_extract (\<lambda>_. []) 5 ''o'' note_record = Inr cand" "cand_entities cand \<noteq> []"
    by (rule note_extracted)
  note m = mock_extract_closed [OF c(1)]
  obtain e where "cand_events cand = [e]" "body e = (if rec_sensitive note_record then None else Some (rec_body note_record))"
    using m [THEN conjunct2, THEN conjunct1] by (elim exE conjE)
  with conjunct1 [OF m] have "map body (cand_events cand) = [None] \<and> distinct (map ent_id (cand_entities cand))"
    by (simp add: note_record_def)
  with c show ?thesis by (intro exI [of _ cand]) simp
qed

theorem stable_id_parts_witness:
  "[''o'', ''a''] = [''o'', ''a''] \<or> (\<exists>m m'. m \<noteq> m' \<and> take 20 (hexdigest m) = take 20 (hexdigest m'))"
  by (rule stable_id_parts [of "[''o'', ''a'']" "[''o'', ''a'']" "''ent''"]) simp_all

text \<open>A deadline that is no date ends the extraction, and with it the run: the language-model
  extractor drops such a deadline instead.\<close>

definition late_note :: raw_record where
  "late_note = note_record\<lparr>rec_body := ''Alice committed that project atlas will ship it by 2025-02-30.''\<rparr>"

lemma bad_deadline_fails: "\<exists>e. mock_extract fmt now owner late_note = Inl e"
proof -
  have "record_text late_note = ''Note. Alice committed that project atlas will ship it by 2025-02-30.''"
    by (simp add: record_text_def late_note_def note_record_def)
  moreover have "\<not> list_all deadline_ok (re_finditer commitment_re
      ''Note. Alice committed that project atlas will ship it by 2025-02-30.'')"
    by code_simp
  ultimately have "\<not> returns (mock_extract fmt now owner late_note)" unfolding mock_returns_iff by simp
  then show ?thesis by (cases "mock_extract fmt now owner late_note") simp_all
qed

text \<open>The class of an artifact's name holds the full stop, so a name that ends a sentence keeps it
  and is another entity than the same name elsewhere.\<close>

lemma artifact_keeps_full_stop:
  "map (\<lambda>h. group_text h 1) (re_finditer artifact_re ''We will use Neo4j. They use Neo4j too.'') = [''Neo4j.'', ''Neo4j'']"
  by code_simp

end
