(* ===== verification/LLM.thy ===== *)
theory LLM
  imports Extractor Formatting
begin

text \<open>
  \<open>extraction/llm.py\<close> and \<open>extraction/__init__.py\<close>: the extractor backed by a language model.
  What is outside the repository is the record \<open>llm_env\<close>: the model (its response content as
  a JSON value), the JSON codec, \<open>float\<close> of a string, and \<open>str\<close> of the values whose text is
  their \<open>repr\<close>. The answer of the model is an arbitrary JSON value, and every way it can
  fail to have the shape the prompt asks for is a branch below.
\<close>

section \<open>The model\<close>

record llm_env =
  llm_invoke :: "(string \<times> string) list \<Rightarrow> json result"
  llm_dumps :: "json \<Rightarrow> string"
  llm_loads :: "string \<Rightarrow> json result"
  llm_float :: "string \<Rightarrow> pyfloat result"
  llm_str :: "json \<Rightarrow> string"

definition llm_name :: string where
  "llm_name = ''claude-extractor@v1''"

definition system_prompt :: string where
  \<open>system_prompt = py_join [newline]
    [''You extract structured memory from one raw activity record.'',
     [],
     ''Return JSON only: {"entities": [{"kind": "person|project|artifact|organization|topic", "name": s''
      @ ''tr}], "claims": [{"statement": str, "subjects": [str], "confidence": float, "commitment": null |''
      @ '' {"owed_by": str, "owed_to": str | null, "due_at": "YYYY-MM-DD" | null}}]}.'',
     [],
     ''A claim is a durable decision or assertion, not a restatement of the record. Subjects are entity''
      @ '' names you also returned. Never assert that a claim supersedes or contradicts anything: you cann''
      @ ''ot see previously stored memory.'',
     [],
     ''Set "commitment" when the claim is someone undertaking to do something. "owed_by" and "owed_to" ''
      @ ''are person entity names you also returned; use null for "owed_to" when the commitment is to no o''
      @ ''ne in particular, and null for "due_at" when no deadline is stated. Resolve relative deadlines (''
      @ ''"by Friday", "next week") against the record's occurred_at date. Keep the person out of "stateme''
      @ ''nt": write the obligation itself ("project Atlas will ship the storage migration by 2025-02-14")''
      @ '', because who owes it is carried by the commitment fields and can change while the obligation st''
      @ ''ays the same. Never report a commitment as done -- whether it was kept is not visible in the rec''
      @ ''ord that made it.'',
     []]\<close>

text \<open>The text of a response: the text parts of a list, or the content as it is.\<close>

definition text_part :: "json \<Rightarrow> string result" where
  "text_part part = (case json_get ''text'' part of
      None \<Rightarrow> Inr []
    | Some v \<Rightarrow> json_string (TypeError ''sequence item: expected str'') v)"

definition is_object :: "json \<Rightarrow> bool" where
  "is_object j = (case j of JObj kvs \<Rightarrow> True | _ \<Rightarrow> False)"

definition text_of_response :: "(json \<Rightarrow> string) \<Rightarrow> json \<Rightarrow> string result" where
  "text_of_response fmt content = (case content of
      JArr parts \<Rightarrow> bind_e (map_e text_part (filter is_object parts)) (\<lambda>ts. Inr (concat ts))
    | _ \<Rightarrow> Inr (py_str fmt content))"

section \<open>Commitments\<close>

text \<open>A deadline that cannot be read is dropped; one that is not a string raises.\<close>

definition llm_due_ms :: "json option \<Rightarrow> int option result" where
  "llm_due_ms date = (case date of
      None \<Rightarrow> Inr None
    | Some j \<Rightarrow> if \<not> truthy j then Inr None
        else (case j of
            JStr s \<Rightarrow> (case date_ms s of Inl e \<Rightarrow> Inr None | Inr ms \<Rightarrow> Inr (Some ms))
          | _ \<Rightarrow> Inl (TypeError ''strptime() argument 1 must be str'')))"

definition owed_by_name :: "(json \<Rightarrow> string) \<Rightarrow> (string \<times> json) list \<Rightarrow> string" where
  "owed_by_name fmt kvs = py_lower (case map_of kvs ''owed_by'' of None \<Rightarrow> [] | Some v \<Rightarrow> py_str fmt v)"

definition owed_to_name :: "(json \<Rightarrow> string) \<Rightarrow> (string \<times> json) list \<Rightarrow> string" where
  "owed_to_name fmt kvs = py_lower (case map_of kvs ''owed_to'' of
      None \<Rightarrow> [] | Some v \<Rightarrow> if truthy v then py_str fmt v else [])"

definition commitment_of ::
  "(json \<Rightarrow> string) \<Rightarrow> json option \<Rightarrow> (string \<times> entity) list \<Rightarrow> (commitment option \<times> entity list) result" where
  "commitment_of fmt raw by_name = (case raw of
      None \<Rightarrow> Inr (None, [])
    | Some j \<Rightarrow> if \<not> truthy j then Inr (None, [])
        else (case j of
            JObj kvs \<Rightarrow>
              (case map_of by_name (owed_by_name fmt kvs) of
                 None \<Rightarrow> Inr (None, [])
               | Some owed_by \<Rightarrow>
                  (let owed_to = map_of by_name (owed_to_name fmt kvs)
                   in bind_e (llm_due_ms (map_of kvs ''due_at'')) (\<lambda>due.
                        Inr (Some \<lparr>owed_by_entity_id = ent_id owed_by, owed_to_entity_id = map_option ent_id owed_to,
                                   due_at_ms = due, fulfillment = Open, settled_at_ms = None\<rparr>,
                             owed_by # (case owed_to of None \<Rightarrow> [] | Some e \<Rightarrow> [e])))))
          | _ \<Rightarrow> Inl (AttributeError ''get'')))"

section \<open>The candidate\<close>

definition lower_of :: "json \<Rightarrow> string result" where
  "lower_of j = (case j of JStr s \<Rightarrow> Inr (py_lower s) | _ \<Rightarrow> Inl (AttributeError ''lower''))"

definition kind_of_json :: "json \<Rightarrow> entity_kind result" where
  "kind_of_json j = (case j of JStr s \<Rightarrow> kind_of_value s | _ \<Rightarrow> Inl (ValueError ''not a valid EntityKind''))"

text \<open>\<open>d.get(k, [])\<close> of a value that must be a dict, iterated over.\<close>

definition items_at :: "string \<Rightarrow> json \<Rightarrow> json list result" where
  "items_at k j = (case j of
      JObj kvs \<Rightarrow> (case map_of kvs k of None \<Rightarrow> Inr [] | Some v \<Rightarrow> py_iter v)
    | _ \<Rightarrow> Inl (AttributeError ''get''))"

definition aliases_of :: "json \<Rightarrow> string list result" where
  "aliases_of raw = (case json_get ''aliases'' raw of
      None \<Rightarrow> Inr []
    | Some (JArr xs) \<Rightarrow> map_e (json_string (ValidationError ''aliases'')) xs
    | _ \<Rightarrow> Inl (ValidationError ''aliases''))"

definition conf_default :: pyfloat where
  "conf_default = Fin 3152519739159347 (- 52)"

definition confidence_of :: "(string \<Rightarrow> pyfloat result) \<Rightarrow> json option \<Rightarrow> pyfloat result" where
  "confidence_of of_string v = (case v of
      None \<Rightarrow> Inr conf_default
    | Some (JInt i) \<Rightarrow> (case round_double i 0 of Infinity pos \<Rightarrow> Inl OverflowError | x \<Rightarrow> Inr x)
    | Some (JFloat x) \<Rightarrow> Inr x
    | Some (JBool b) \<Rightarrow> Inr (Fin (if b then 1 else 0) 0)
    | Some (JStr s) \<Rightarrow> of_string s
    | _ \<Rightarrow> Inl (TypeError ''float() argument must be a string or a real number''))"

definition llm_provenance :: "string \<Rightarrow> raw_record \<Rightarrow> source_ref \<Rightarrow> string \<Rightarrow> string \<Rightarrow> pyfloat \<Rightarrow> provenance" where
  "llm_provenance owner rec source derived q conf =
     provenance_of derived [quoting (event_id_of owner rec) source q] conf (sr_ingested_at_ms source)"

definition llm_entity :: "string \<Rightarrow> raw_record \<Rightarrow> source_ref \<Rightarrow> string \<Rightarrow> json \<Rightarrow> entity result" where
  "llm_entity owner rec source derived raw =
     bind_e (json_item ''kind'' raw) (\<lambda>k.
     bind_e (kind_of_json k) (\<lambda>kind.
     bind_e (json_item ''name'' raw) (\<lambda>n.
     bind_e (json_string (AttributeError ''lower'') n) (\<lambda>name.
     bind_e (aliases_of raw) (\<lambda>aliases.
       Inr \<lparr>ent_id = entity_id_of owner kind name, ent_owner_id = owner, ent_kind = kind, ent_name = name,
            ent_aliases = aliases, first_seen_at_ms = rec_occurred_at_ms rec,
            last_seen_at_ms = rec_occurred_at_ms rec,
            ent_provenance = llm_provenance owner rec source derived name conf_entity,
            ent_acl = extract_acl owner rec [kind]\<rparr>)))))"

text \<open>The loop over the entities: the list, and the last entity of each lower-case name.\<close>

definition llm_entity_step ::
  "string \<Rightarrow> raw_record \<Rightarrow> source_ref \<Rightarrow> string \<Rightarrow> json \<Rightarrow> entity list \<times> (string \<times> entity) list
    \<Rightarrow> (entity list \<times> (string \<times> entity) list) result" where
  "llm_entity_step owner rec source derived raw acc =
     bind_e (llm_entity owner rec source derived raw) (\<lambda>e.
       Inr (fst acc @ [e], AList.update (py_lower (ent_name e)) e (snd acc)))"

definition llm_event :: "string \<Rightarrow> raw_record \<Rightarrow> source_ref \<Rightarrow> string \<Rightarrow> entity list \<Rightarrow> event" where
  "llm_event owner rec source derived es =
     \<lparr>evt_id = event_id_of owner rec, evt_owner_id = owner, summary = rec_title rec,
      body = (if rec_sensitive rec then None else Some (rec_body rec)), entity_ids = map ent_id es,
      evt_source = source, encrypted_content = None,
      evt_provenance = llm_provenance owner rec source derived (rec_title rec) (Fin 1 0),
      evt_acl = extract_acl owner rec (kinds_of es)\<rparr>"

definition subject_of :: "(string \<times> entity) list \<Rightarrow> json \<Rightarrow> entity list result" where
  "subject_of by_name s =
     bind_e (lower_of s) (\<lambda>low. Inr (case map_of by_name low of None \<Rightarrow> [] | Some e \<Rightarrow> [e]))"

definition llm_claim ::
  "llm_env \<Rightarrow> string \<Rightarrow> raw_record \<Rightarrow> source_ref \<Rightarrow> string \<Rightarrow> (string \<times> entity) list \<Rightarrow> json \<Rightarrow> claim result" where
  "llm_claim env owner rec source derived by_name raw =
     bind_e (items_at ''subjects'' raw) (\<lambda>names.
     bind_e (map_e (subject_of by_name) names) (\<lambda>found.
     bind_e (commitment_of (llm_str env) (json_get ''commitment'' raw) by_name) (\<lambda>facet.
     bind_e (json_item ''statement'' raw) (\<lambda>st.
     bind_e (json_string (TypeError ''sequence item: expected str'') st) (\<lambda>statement.
     bind_e (confidence_of (llm_float env) (json_get ''confidence'' raw)) (\<lambda>conf.
       Inr \<lparr>clm_id = stable_id ''clm'' [owner, event_id_of owner rec, statement], clm_owner_id = owner,
            clm_statement = statement, subject_entity_ids = map ent_id (concat found), status = Active,
            supersedes = [], contradicts = [], reconciled_into = None, clm_commitment = fst facet,
            asserted_at_ms = rec_occurred_at_ms rec,
            clm_provenance = llm_provenance owner rec source derived statement conf,
            clm_acl = extract_acl owner rec (kinds_of (concat found @ snd facet))\<rparr>))))))"

definition to_candidate :: "llm_env \<Rightarrow> int \<Rightarrow> string \<Rightarrow> raw_record \<Rightarrow> json \<Rightarrow> string \<Rightarrow> candidate result" where
  "to_candidate env now owner rec parsed derived =
     bind_e (new_source_ref (rec_connector rec) (rec_external_id rec) (rec_url rec) (rec_occurred_at_ms rec) now) (\<lambda>source.
     bind_e (items_at ''entities'' parsed) (\<lambda>raws.
     bind_e (fold_e (llm_entity_step owner rec source derived) raws ([], [])) (\<lambda>acc.
     bind_e (items_at ''claims'' parsed) (\<lambda>raw_claims.
     bind_e (map_e (llm_claim env owner rec source derived (snd acc)) raw_claims) (\<lambda>claims.
       Inr \<lparr>cand_entities = fst acc, cand_events = [llm_event owner rec source derived (fst acc)],
            cand_claims = claims\<rparr>)))))"

section \<open>The extractor\<close>

definition llm_request :: "llm_env \<Rightarrow> raw_record \<Rightarrow> (string \<times> string) list result" where
  "llm_request env rec =
     bind_e (day_of_ms (rec_occurred_at_ms rec)) (\<lambda>day.
       Inr [(''system'', system_prompt),
            (''human'', llm_dumps env (JObj [(''title'', JStr (rec_title rec)), (''body'', JStr (rec_body rec)),
                                             (''occurred_at'', JStr day)]))])"

definition llm_extract :: "llm_env \<Rightarrow> int \<Rightarrow> string \<Rightarrow> raw_record \<Rightarrow> candidate result" where
  "llm_extract env now owner rec =
     bind_e (llm_request env rec) (\<lambda>request.
     bind_e (llm_invoke env request) (\<lambda>content.
     bind_e (text_of_response (llm_str env) content) (\<lambda>text.
     bind_e (llm_loads env text) (\<lambda>parsed. to_candidate env now owner rec parsed llm_name))))"

text \<open>\<open>get_extractor\<close>; building the language-model extractor needs a key. \<open>clock\<close> gives the time at
  which a record is extracted.\<close>

definition get_extractor ::
  "llm_env \<Rightarrow> (raw_record \<Rightarrow> int) \<Rightarrow> settings \<Rightarrow> (string \<Rightarrow> raw_record \<Rightarrow> candidate result) result" where
  "get_extractor env clock s =
     (if use_llm_extractor s
      then (case anthropic_api_key s of
          None \<Rightarrow> Inl (ValueError ''ANTHROPIC_API_KEY is required when ORCHESTRATOR_MODE=live'')
        | Some k \<Rightarrow> if k = [] then Inl (ValueError ''ANTHROPIC_API_KEY is required when ORCHESTRATOR_MODE=live'')
                    else Inr (\<lambda>owner rec. llm_extract env (clock rec) owner rec))
      else Inr (\<lambda>owner rec. mock_extract (llm_str env) (clock rec) owner rec))"

end
