(* ===== verification/LLM_Props.thy ===== *)
theory LLM_Props
  imports LLM Extractor_Props
begin

text \<open>
  What the extractor backed by a language model guarantees whatever the model answers: an
  answer either raises or gives a candidate that meets the contract \<open>extractor\<close>, so the same
  grants are needed to see it as for the mock extractor. A deadline survives the round trip
  through the date the prompt carries.
\<close>

section \<open>The entities and their names\<close>

definition names_ok :: "entity list \<Rightarrow> (string \<times> entity) list \<Rightarrow> bool" where
  "names_ok es by_name \<longleftrightarrow> (\<forall>k e. map_of by_name k = Some e \<longrightarrow> e \<in> set es \<and> k = py_lower (ent_name e))"

lemma names_okD: "names_ok es by_name \<Longrightarrow> map_of by_name k = Some e \<Longrightarrow> e \<in> set es"
  by (auto simp: names_ok_def)

lemma llm_entity_ok: "llm_entity owner rec source derived raw = Inr e \<Longrightarrow> entity_ok owner rec e"
  unfolding llm_entity_def by (elim bind_e_InrE) (auto simp: entity_ok_def)

lemma llm_entities_ok:
  assumes "fold_e (llm_entity_step owner rec source derived) raws ([], []) = Inr acc"
  shows "\<forall>e \<in> set (fst acc). entity_ok owner rec e" "names_ok (fst acc) (snd acc)"
proof -
  let ?P = "\<lambda>acc. (\<forall>e \<in> set (fst acc). entity_ok owner rec e) \<and> names_ok (fst acc) (snd acc)"
  have "?P acc"
  proof (rule fold_e_invariant [OF assms, of ?P])
    fix raw t t' assume "?P t" "llm_entity_step owner rec source derived raw t = Inr t'"
    then obtain e where e: "entity_ok owner rec e" "t' = (fst t @ [e], AList.update (py_lower (ent_name e)) e (snd t))"
      by (auto simp: llm_entity_step_def bind_e_Inr_iff dest: llm_entity_ok)
    with \<open>?P t\<close> show "?P t'" by (auto simp: names_ok_def update_conv' split: if_splits)
  qed (simp add: names_ok_def)
  then show "\<forall>e \<in> set (fst acc). entity_ok owner rec e" "names_ok (fst acc) (snd acc)" by simp_all
qed

section \<open>Claims\<close>

lemma subjects_found:
  assumes "map_e (subject_of by_name) names = Inr found" "names_ok es by_name"
  shows "set (concat found) \<subseteq> set es"
  using assms(1)
proof (induction names arbitrary: found)
  case (Cons n names)
  from Cons.prems obtain x xs where "subject_of by_name n = Inr x" "map_e (subject_of by_name) names = Inr xs" "found = x # xs"
    by (auto elim!: bind_e_InrE)
  moreover from this(1) have "set x \<subseteq> set es"
    using names_okD [OF assms(2)] by (auto simp: subject_of_def bind_e_Inr_iff split: option.splits)
  ultimately show ?case using Cons.IH by simp
qed simp

text \<open>A commitment needs an owner among the entities; without one the claim stays, as a plain claim.\<close>

lemma commitment_of_cases:
  assumes "commitment_of fmt raw by_name = Inr facet"
  shows "facet = (None, []) \<or> (\<exists>kvs e due. map_of by_name (owed_by_name fmt kvs) = Some e \<and>
    (let t = map_of by_name (owed_to_name fmt kvs) in
     facet = (Some \<lparr>owed_by_entity_id = ent_id e, owed_to_entity_id = map_option ent_id t, due_at_ms = due,
                    fulfillment = Open, settled_at_ms = None\<rparr>, e # (case t of None \<Rightarrow> [] | Some d \<Rightarrow> [d]))))"
  using assms unfolding commitment_of_def Let_def
  by (simp split: option.splits if_splits json.splits) (fastforce simp: bind_e_Inr_iff)+

lemma commitment_of_parties:
  assumes "commitment_of fmt raw by_name = Inr facet" "names_ok es by_name"
  obtains "facet = (None, [])"
    | m ps where "facet = (Some m, ps)" "set ps \<subseteq> set es" "fulfillment m = Open" "settled_at_ms m = None"
        "map ent_id ps = owed_by_entity_id m # (case owed_to_entity_id m of None \<Rightarrow> [] | Some i \<Rightarrow> [i])"
  using commitment_of_cases [OF assms(1)]
proof (elim disjE exE conjE)
  fix kvs e due
  let ?t = "map_of by_name (owed_to_name fmt kvs)"
  assume e: "map_of by_name (owed_by_name fmt kvs) = Some e" and f: "let t = ?t in
     facet = (Some \<lparr>owed_by_entity_id = ent_id e, owed_to_entity_id = map_option ent_id t, due_at_ms = due,
                    fulfillment = Open, settled_at_ms = None\<rparr>, e # (case t of None \<Rightarrow> [] | Some d \<Rightarrow> [d]))"
  show thesis
    by (rule that(2) [OF f [unfolded Let_def]])
      (use names_okD [OF assms(2)] e in \<open>auto split: option.split\<close>)
qed (rule that(1))

lemma llm_claim_ok:
  assumes "llm_claim env owner rec source derived by_name raw = Inr c" "names_ok es by_name"
  shows "claim_ok owner rec es c"
proof -
  obtain names found facet statement conf where p:
    "map_e (subject_of by_name) names = Inr found"
    "commitment_of (llm_str env) (json_get ''commitment'' raw) by_name = Inr facet"
    "c = \<lparr>clm_id = stable_id ''clm'' [owner, event_id_of owner rec, statement], clm_owner_id = owner,
            clm_statement = statement, subject_entity_ids = map ent_id (concat found), status = Active,
            supersedes = [], contradicts = [], reconciled_into = None, clm_commitment = fst facet,
            asserted_at_ms = rec_occurred_at_ms rec,
            clm_provenance = llm_provenance owner rec source derived statement conf,
            clm_acl = extract_acl owner rec (kinds_of (concat found @ snd facet))\<rparr>"
    using assms(1) unfolding llm_claim_def by (elim bind_e_InrE) blast
  note found = subjects_found [OF p(1) assms(2)]
  from p(2) assms(2) show ?thesis
  proof (cases rule: commitment_of_parties)
    case 1
    with found p(3) show ?thesis unfolding claim_ok_def
      by (intro conjI exI [of _ "concat found"]) (simp_all add: unresolved_def refs_of_def llm_provenance_def provenance_of_def quoting_def del: set_concat)
  next
    case (2 m ps)
    have refs: "set (refs_of c) = ent_id ` set (concat found @ ps)"
      using 2(1) arg_cong [OF 2(5), of set] p(3) by (auto simp: refs_of_def image_Un simp del: set_concat split: option.splits)
    with found p(3) 2 show ?thesis
      unfolding claim_ok_def by (intro conjI exI [of _ "concat found @ ps"]) 
        (simp_all add: unresolved_def llm_provenance_def provenance_of_def quoting_def del: set_concat)
  qed
qed

lemma map_e_all:
  assumes "map_e f xs = Inr ys" "\<And>x y. f x = Inr y \<Longrightarrow> P y"
  shows "\<forall>y \<in> set ys. P y"
  using assms(1) by (induction xs arbitrary: ys) (auto elim!: bind_e_InrE intro: assms(2))

lemma to_candidate_ok:
  assumes "to_candidate env now owner rec parsed derived = Inr cand"
  shows "candidate_ok owner rec cand"
proof -
  obtain source raws acc raw_claims claims where p:
    "new_source_ref (rec_connector rec) (rec_external_id rec) (rec_url rec) (rec_occurred_at_ms rec) now = Inr source"
    "fold_e (llm_entity_step owner rec source derived) raws ([], []) = Inr acc"
    "map_e (llm_claim env owner rec source derived (snd acc)) raw_claims = Inr claims"
    "cand = \<lparr>cand_entities = fst acc, cand_events = [llm_event owner rec source derived (fst acc)], cand_claims = claims\<rparr>"
    using assms unfolding to_candidate_def
    by (elim bind_e_InrE) (rule that, assumption+, simp)
  note es = llm_entities_ok [OF p(2)]
  have "event_ok owner rec (fst acc) (llm_event owner rec source derived (fst acc))"
    using mock_source [OF p(1)] by (simp add: event_ok_def llm_event_def)
  moreover have "\<forall>c \<in> set claims. claim_ok owner rec (fst acc) c"
    by (rule map_e_all [OF p(3)]) (rule llm_claim_ok [OF _ es(2)])
  ultimately show ?thesis using es(1) by (simp add: candidate_ok_def p(4))
qed

interpretation llm: extractor "llm_extract env now" for env now
proof
  fix owner rec cand assume "llm_extract env now owner rec = Inr cand"
  then show "candidate_ok owner rec cand"
    unfolding llm_extract_def by (elim bind_e_InrE) (rule to_candidate_ok)
qed

section \<open>What is extracted\<close>

text \<open>C26: whatever JSON the model answers, a candidate built from it is closed and unresolved: one event that
  mentions every entity and carries the body only when the record is not sensitive, claims that
  refer to entities of the candidate alone and supersede, contradict and settle nothing.\<close>

theorem llm_extract_closed:
  assumes "llm_extract env now owner rec = Inr cand"
  shows "(\<exists>e. cand_events cand = [e] \<and> entity_ids e = map ent_id (cand_entities cand)
       \<and> body e = (if rec_sensitive rec then None else Some (rec_body rec))) \<and>
    (\<forall>c \<in> set (cand_claims cand). unresolved c \<and> set (refs_of c) \<subseteq> ent_id ` set (cand_entities cand))"
proof -
  note ok = candidate_okD [OF llm.extr_ok [OF assms]]
  have "unresolved c \<and> set (refs_of c) \<subseteq> ent_id ` set (cand_entities cand)" if "c \<in> set (cand_claims cand)" for c
    using ok(3) [OF that] unfolding claim_ok_def by fastforce
  with ok(2) show ?thesis by (auto simp: event_ok_def)
qed

text \<open>C21: what a grant must cover to see anything extracted by the language model, whatever it answers: the
  owner, the source and the sensitivity of the record, and for a claim the kind of every entity
  it names, the parties of a commitment included.\<close>

theorem llm_extract_gated:
  assumes "llm_extract env now owner rec = Inr cand" "n \<in> set (nodes_in cand)"
    and "permits clock sc (node_acl n) now_opt"
  shows "scope_owner_id sc = owner \<and> rec_connector rec \<in> set (scope_sources sc)
    \<and> (rec_sensitive rec \<longrightarrow> Confidential \<le> max_sensitivity sc)
    \<and> (\<forall>c i. n = ClaimN c \<and> i \<in> set (refs_of c) \<longrightarrow>
         (\<exists>e. e \<in> set (cand_entities cand) \<and> ent_id e = i \<and> ent_kind e \<in> set (scope_entity_kinds sc)))"
proof (intro conjI allI impI)
  fix c i assume c: "n = ClaimN c \<and> i \<in> set (refs_of c)"
  then have "c \<in> set (cand_claims cand)" using assms(2) by (auto simp: nodes_in_def)
  with llm.named_kind [OF assms(1)] assms(3) c
  show "\<exists>e. e \<in> set (cand_entities cand) \<and> ent_id e = i \<and> ent_kind e \<in> set (scope_entity_kinds sc)"
    by fastforce
qed (use llm.gated [OF assms] in auto)

text \<open>A deadline on the day the prompt dates the record is read back as the start of that day, in UTC.\<close>

theorem deadline_roundtrip:
  assumes "day_of_ms ms = Inr s"
  shows "llm_due_ms (Some (JStr s)) = Inr (Some (ms - ms mod 86400000))
    \<and> due_ms (Some s) = Inr (Some (ms - ms mod 86400000))"
proof -
  note d = date_ms_day_of_ms [OF assms]
  have "s \<noteq> []"
  proof
    assume "s = []"
    moreover have "\<not> returns (date_ms [])" by code_simp
    ultimately show False using d by simp
  qed
  with d show ?thesis by (simp add: llm_due_ms_def due_ms_def)
qed

section \<open>Samples\<close>

definition sample_answer :: json where
  "sample_answer = JObj [(''entities'', JArr [JObj [(''kind'', JStr ''person''), (''name'', JStr ''Alice'')]]),
     (''claims'', JArr [JObj [(''statement'', JStr ''ship it''), (''subjects'', JArr [JStr ''alice'', JStr ''Atlas'']),
        (''commitment'', JObj [(''owed_by'', JStr ''ALICE''), (''due_at'', JStr ''soon'')])]])]"

definition sample_env :: llm_env where
  "sample_env = \<lparr>llm_invoke = (\<lambda>r. Inr (JStr [])), llm_dumps = (\<lambda>j. []), llm_loads = (\<lambda>s. Inr sample_answer),
     llm_float = (\<lambda>s. Inl (ValueError s)), llm_str = (\<lambda>j. [])\<rparr>"

lemma day_of_ms_small: "0 \<le> ms \<Longrightarrow> ms < 86400000 \<Longrightarrow> day_of_ms ms = Inr (format_date epoch_ordinal)"
  by (simp add: day_of_ms_def epoch_ordinal_def Let_def)

lemma sample_lower: "py_lower [] = []" "py_lower ''Alice'' = ''alice''" "py_lower ''alice'' = ''alice''" "py_lower ''ALICE'' = ''alice''"
  "py_lower ''Atlas'' = ''atlas''" "\<not> returns (date_ms ''soon'')"
  by code_simp+

lemma sample_source: "check_source_id ''mock'' = Inr ''mock''"
  by code_simp

lemma sample_extracted:
  obtains cand e c where "llm_extract sample_env now ''o'' note_record = Inr cand" "cand_entities cand = [e]"
    "ent_kind e = Person" "cand_claims cand = [c]" "refs_of c = [ent_id e, ent_id e]"
    "clm_acl c = extract_acl ''o'' note_record [Person]" "map_option due_at_ms (clm_commitment c) = Some None"
proof -
  obtain err where due: "date_ms ''soon'' = Inl err" using sample_lower(6) by (cases "date_ms ''soon''") auto
  obtain source where src: "new_source_ref (rec_connector note_record) (rec_external_id note_record) (rec_url note_record)
      (rec_occurred_at_ms note_record) now = Inr source"
    by (simp add: new_source_ref_def note_record_def sample_source)
  have req: "returns (llm_request sample_env note_record)"
    by (simp add: llm_request_def day_of_ms_small note_record_def)
  then obtain r where r: "llm_request sample_env note_record = Inr r" by (auto simp: returns_iff)
  have answer: "llm_extract sample_env now ''o'' note_record = to_candidate sample_env now ''o'' note_record sample_answer llm_name"
    by (simp add: llm_extract_def r) (simp add: sample_env_def text_of_response_def)
  let ?e = "\<lparr>ent_id = entity_id_of ''o'' Person ''Alice'', ent_owner_id = ''o'', ent_kind = Person, ent_name = ''Alice'',
     ent_aliases = [], first_seen_at_ms = rec_occurred_at_ms note_record, last_seen_at_ms = rec_occurred_at_ms note_record,
     ent_provenance = llm_provenance ''o'' note_record source llm_name ''Alice'' conf_entity,
     ent_acl = extract_acl ''o'' note_record [Person]\<rparr>"
  let ?c = "\<lparr>clm_id = stable_id ''clm'' [''o'', event_id_of ''o'' note_record, ''ship it''], clm_owner_id = ''o'',
     clm_statement = ''ship it'', subject_entity_ids = [ent_id ?e], status = Active,
     supersedes = [], contradicts = [], reconciled_into = None,
     clm_commitment = Some \<lparr>owed_by_entity_id = ent_id ?e, owed_to_entity_id = None, due_at_ms = None,
       fulfillment = Open, settled_at_ms = None\<rparr>, asserted_at_ms = rec_occurred_at_ms note_record,
     clm_provenance = llm_provenance ''o'' note_record source llm_name ''ship it'' conf_default,
     clm_acl = extract_acl ''o'' note_record [Person]\<rparr>"
  have ents: "fold_e (llm_entity_step ''o'' note_record source llm_name)
      [JObj [(''kind'', JStr ''person''), (''name'', JStr ''Alice'')]] ([], []) = Inr ([?e], [(''alice'', ?e)])"
    by (simp add: llm_entity_step_def llm_entity_def json_item_def kind_of_json_def kind_of_value_def
        json_string_def aliases_of_def json_get_def sample_lower)
  have claim: "llm_claim sample_env ''o'' note_record source llm_name [(''alice'', ?e)]
      (JObj [(''statement'', JStr ''ship it''), (''subjects'', JArr [JStr ''alice'', JStr ''Atlas'']),
        (''commitment'', JObj [(''owed_by'', JStr ''ALICE''), (''due_at'', JStr ''soon'')])]) = Inr ?c"
    by (simp add: llm_claim_def items_at_def py_iter_def subject_of_def lower_of_def sample_lower json_get_def json_item_def
        json_string_def commitment_of_def owed_by_name_def owed_to_name_def py_str_def llm_due_ms_def due
        confidence_of_def Let_def kinds_of_def sorted_kinds_def)
  have items: "items_at ''entities'' sample_answer = Inr [JObj [(''kind'', JStr ''person''), (''name'', JStr ''Alice'')]]"
    "items_at ''claims'' sample_answer = Inr [JObj [(''statement'', JStr ''ship it''),
        (''subjects'', JArr [JStr ''alice'', JStr ''Atlas'']),
        (''commitment'', JObj [(''owed_by'', JStr ''ALICE''), (''due_at'', JStr ''soon'')])]]"
    by (simp_all add: sample_answer_def items_at_def py_iter_def)
  have "llm_extract sample_env now ''o'' note_record = Inr \<lparr>cand_entities = [?e],
      cand_events = [llm_event ''o'' note_record source llm_name [?e]], cand_claims = [?c]\<rparr>"
    unfolding answer to_candidate_def src items bind_e_simps ents fst_conv snd_conv map_e.simps claim by (rule refl)
  from that [OF this, of ?e ?c] show thesis by (simp add: refs_of_def)
qed

theorem llm_extract_closed_witness:
  "\<exists>cand. llm_extract sample_env 5 ''o'' note_record = Inr cand \<and> map body (cand_events cand) = [None]
     \<and> map unresolved (cand_claims cand) = [True] \<and> map ent_kind (cand_entities cand) = [Person]"
proof -
  obtain cand e c where x: "llm_extract sample_env 5 ''o'' note_record = Inr cand" "cand_entities cand = [e]"
    "ent_kind e = Person" "cand_claims cand = [c]" by (rule sample_extracted)
  note m = llm_extract_closed [OF x(1)]
  obtain v where "cand_events cand = [v]" "body v = (if rec_sensitive note_record then None else Some (rec_body note_record))"
    using conjunct1 [OF m] by (elim exE conjE)
  moreover have "unresolved c" using conjunct2 [OF m] x(4) by simp
  ultimately show ?thesis using x by (simp add: note_record_def)
qed

theorem llm_extract_gated_witness:
  "\<exists>cand c. llm_extract sample_env 5 ''o'' note_record = Inr cand \<and> ClaimN c \<in> set (nodes_in cand)
     \<and> permits 9 (full_scope ''o'' ''mock'') (clm_acl c) (Some 9) \<and> refs_of c \<noteq> []
     \<and> (\<exists>e. e \<in> set (cand_entities cand) \<and> ent_kind e \<in> set (scope_entity_kinds (full_scope ''o'' ''mock'')))"
proof -
  obtain cand e c where x: "llm_extract sample_env 5 ''o'' note_record = Inr cand" "cand_entities cand = [e]"
    "cand_claims cand = [c]" "refs_of c = [ent_id e, ent_id e]" "clm_acl c = extract_acl ''o'' note_record [Person]"
    by (rule sample_extracted)
  have p: "permits 9 (full_scope ''o'' ''mock'') (node_acl (ClaimN c)) (Some 9)"
    by (simp add: x(5) full_scope_permits note_record_def)
  have n: "ClaimN c \<in> set (nodes_in cand)" by (simp add: nodes_in_def x(3))
  have "\<exists>d. d \<in> set (cand_entities cand) \<and> ent_id d = ent_id e \<and> ent_kind d \<in> set (scope_entity_kinds (full_scope ''o'' ''mock''))"
    using llm_extract_gated [OF x(1) n p] x(4) by simp
  then show ?thesis using x(1,4) n p by auto
qed

theorem deadline_roundtrip_witness:
  "llm_due_ms (Some (JStr (format_date epoch_ordinal))) = Inr (Some 0)"
  using deadline_roundtrip [OF day_of_ms_small [of 7]] by simp

text \<open>The party of a commitment is whatever entity has the name last: with a project of that name the
  claim asks for a scope that covers projects, and none that covers persons.\<close>

lemma owed_by_any_kind:
  assumes "ent_kind e = Project" "py_lower (ent_name e) = ''atlas''"
  shows "\<exists>m. commitment_of fmt (Some (JObj [(''owed_by'', JStr ''Atlas'')])) [(''atlas'', e)] = Inr (Some m, [e])
    \<and> kinds_of [e] = [Project]"
  using assms by (simp add: commitment_of_def owed_by_name_def owed_to_name_def py_str_def sample_lower llm_due_ms_def
      Let_def kinds_of_def sorted_kinds_def)

end
