(* ===== verification/Embeddings.thy ===== *)
theory Embeddings
  imports Sha256 PyRegex Config
begin

text \<open>
  \<open>retrieval/embeddings.py\<close>: the embedder of the mock mode, a bag of tokens hashed into a
  vector of length \<open>dim\<close> and scaled to length one. Components are real numbers; the sums
  before the scaling are integers, which doubles hold exactly.
\<close>

section \<open>The hashed embedder\<close>

definition bucket_of :: "nat \<Rightarrow> string \<Rightarrow> nat" where
  "bucket_of dm token = nat (be_int (take 4 (sha256 (utf8 token))) mod int dm)"

definition sign_of :: "string \<Rightarrow> int" where
  "sign_of token = (if odd (ord_of (sha256 (utf8 token) ! 4)) then 1 else - 1)"

definition embed_tokens :: "string \<Rightarrow> string list" where
  "embed_tokens txt = re_findall token_re (py_lower txt)"

definition embed_step :: "nat \<Rightarrow> string \<Rightarrow> int list \<Rightarrow> int list result" where
  "embed_step dm token vec =
     (if dm = 0 then Inl ZeroDivisionError
      else (let b = bucket_of dm token in Inr (vec[b := vec ! b + sign_of token])))"

definition unit_vector :: "int list \<Rightarrow> real list result" where
  "unit_vector vec =
     (let norm = sqrt (real_of_int (sum_list (map (\<lambda>v. v * v) vec))) in
      if norm = 0
      then (case vec of [] \<Rightarrow> Inl IndexError | v # vs \<Rightarrow> Inr (1 # map real_of_int vs))
      else Inr (map (\<lambda>v. real_of_int v / norm) vec))"

definition hashed_embed :: "nat \<Rightarrow> string \<Rightarrow> real list result" where
  "hashed_embed dm txt =
     bind_e (fold_e (embed_step dm) (embed_tokens txt) (replicate dm 0)) unit_vector"

section \<open>Choosing the embedder\<close>

definition voyage_embed :: "string \<Rightarrow> real list result" where
  "voyage_embed txt = Inl NotImplementedError"

definition get_embedder :: "settings \<Rightarrow> string \<Rightarrow> real list result" where
  "get_embedder s = (if \<not> use_real_embedder s then hashed_embed (embedding_dim s) else voyage_embed)"

section \<open>The vector has length one\<close>

definition sq_sum :: "real list \<Rightarrow> real" where
  "sq_sum v = sum_list (map (\<lambda>x. x * x) v)"

lemma sum_squares_nonneg: "0 \<le> sum_list (map (\<lambda>v :: int. v * v) vec)"
  by (induction vec) simp_all

lemma sum_squares_zero: "sum_list (map (\<lambda>v :: int. v * v) vec) = 0 \<longleftrightarrow> (\<forall>v \<in> set vec. v = 0)"
proof (induction vec)
  case (Cons v vec)
  have "v * v + sum_list (map (\<lambda>v. v * v) vec) = 0 \<longleftrightarrow> v * v = 0 \<and> sum_list (map (\<lambda>v. v * v) vec) = 0"
    by (rule add_nonneg_eq_0_iff) (simp_all add: sum_squares_nonneg)
  with Cons show ?case by simp
qed simp

lemma sq_sum_scaled: "sq_sum (map (\<lambda>v. real_of_int v / n) vec) = real_of_int (sum_list (map (\<lambda>v. v * v) vec)) / (n * n)"
  by (induction vec) (simp_all add: sq_sum_def add_divide_distrib)

lemma unit_vector_length: "vec \<noteq> [] \<Longrightarrow> \<exists>v. unit_vector vec = Inr v \<and> length v = length vec \<and> sq_sum v = 1"
proof -
  assume ne: "vec \<noteq> []"
  let ?s = "sum_list (map (\<lambda>v. v * v) vec)"
  show ?thesis
  proof (cases "?s = 0")
    case True
    then have z: "\<forall>v \<in> set vec. v = 0" by (simp add: sum_squares_zero)
    obtain w ws where v: "vec = w # ws" using ne by (cases vec) auto
    have "sq_sum (map real_of_int ws) = 0"
      using sq_sum_scaled [of 1 ws] sum_squares_zero [of ws] z v by simp
    then show ?thesis using True by (simp add: unit_vector_def v sq_sum_def)
  next
    case False
    then have "0 < real_of_int ?s" using sum_squares_nonneg [of vec] by linarith
    then have "sqrt (real_of_int ?s) * sqrt (real_of_int ?s) = real_of_int ?s" "sqrt (real_of_int ?s) \<noteq> 0" by simp_all
    with False show ?thesis by (simp add: unit_vector_def sq_sum_scaled Let_def)
  qed
qed

definition add_tokens :: "nat \<Rightarrow> string list \<Rightarrow> int list \<Rightarrow> int list" where
  "add_tokens dm = fold (\<lambda>t vec. vec[bucket_of dm t := vec ! bucket_of dm t + sign_of t])"

lemma embed_fold:
  assumes "0 < dm"
  shows "fold_e (embed_step dm) ts vec
    = Inr (add_tokens dm ts vec)"
  unfolding add_tokens_def by (rule fold_e_total) (use assms in \<open>simp add: embed_step_def Let_def\<close>)

lemma length_embed_fold: "length (add_tokens dm ts vec) = length vec"
  by (induction ts arbitrary: vec) (simp_all add: add_tokens_def)

text \<open>C35: with a positive dimension the embedder returns for every text, a vector of that length and of
  Euclidean norm one, which is what the cosine index needs; a text without tokens included.\<close>

theorem hashed_embed_unit:
  assumes "0 < dm"
  shows "\<exists>v. hashed_embed dm txt = Inr v \<and> length v = dm \<and> sq_sum v = 1"
proof -
  let ?v = "add_tokens dm (embed_tokens txt) (replicate dm 0)"
  have "length ?v = dm" by (simp add: length_embed_fold)
  moreover from this have "?v \<noteq> []" using assms by (metis length_greater_0_conv)
  then obtain v where "unit_vector ?v = Inr v" "length v = length ?v" "sq_sum v = 1"
    using unit_vector_length by blast
  ultimately show ?thesis using assms by (simp add: hashed_embed_def embed_fold)
qed

lemma embed_returns:
  assumes "0 < dm"
  shows "\<exists>v. hashed_embed dm txt = Inr v"
proof -
  have "add_tokens dm (embed_tokens txt) (replicate dm 0) \<noteq> []"
    using assms by (metis length_embed_fold length_greater_0_conv length_replicate)
  then show ?thesis using unit_vector_length assms by (auto simp: hashed_embed_def embed_fold)
qed

text \<open>A dimension of zero raises, by the modulus or by the index.\<close>

lemma hashed_embed_zero:
  "hashed_embed 0 txt = Inl (if embed_tokens txt = [] then IndexError else ZeroDivisionError)"
  by (cases "embed_tokens txt") (simp_all add: hashed_embed_def embed_step_def unit_vector_def)

section \<open>The order of the tokens\<close>

lemma bucket_less: "0 < dm \<Longrightarrow> bucket_of dm t < dm"
  by (simp add: bucket_of_def nat_less_iff)

lemma embed_add_nth:
  fixes vec :: "int list"
  assumes "b < length vec" "i < length vec"
  shows "vec[b := vec ! b + s] ! i = vec ! i + (if i = b then s else 0)"
  using assms by (simp add: nth_list_update)

lemma embed_fold_nth:
  assumes "0 < dm" "length vec = dm" "i < dm"
  shows "add_tokens dm ts vec ! i
    = vec ! i + sum_list (map (\<lambda>t. if bucket_of dm t = i then sign_of t else 0) ts)"
  using assms(2)
proof (induction ts arbitrary: vec)
  case (Cons t ts)
  have "add_tokens dm ts
        (vec[bucket_of dm t := vec ! bucket_of dm t + sign_of t]) ! i
      = vec[bucket_of dm t := vec ! bucket_of dm t + sign_of t] ! i
        + sum_list (map (\<lambda>t. if bucket_of dm t = i then sign_of t else 0) ts)"
    using Cons by (simp add: add_tokens_def)
  with Cons.prems bucket_less [OF assms(1)] assms(3) show ?case
    by (auto simp: embed_add_nth add_tokens_def)
qed (simp add: add_tokens_def)

text \<open>The embedding sees a text as a bag of tokens: two texts with the same tokens, in any order, have
  the same vector, or fail alike.\<close>

theorem hashed_embed_bag:
  assumes "mset (embed_tokens s) = mset (embed_tokens t)"
  shows "hashed_embed dm s = hashed_embed dm t"
proof (cases "dm = 0")
  case True
  from assms have "embed_tokens s = [] \<longleftrightarrow> embed_tokens t = []" by (metis mset_zero_iff)
  then show ?thesis by (simp add: True hashed_embed_zero)
next
  case False
  let ?f = "\<lambda>i t. if bucket_of dm t = i then sign_of t else 0"
  have "sum_list (map (?f i) (embed_tokens s)) = sum_list (map (?f i) (embed_tokens t))" for i
    using assms by (simp only: sum_mset_sum_list [symmetric] mset_map)
  then have "add_tokens dm (embed_tokens s) (replicate dm 0)
      = add_tokens dm (embed_tokens t) (replicate dm 0)"
    using False by (intro nth_equalityI) (simp_all add: length_embed_fold embed_fold_nth)
  with False show ?thesis by (simp add: hashed_embed_def embed_fold)
qed

theorem hashed_embed_unit_witness: "\<exists>v. hashed_embed 3 ''a b'' = Inr v \<and> length v = 3 \<and> sq_sum v = 1"
  by (rule hashed_embed_unit) simp

theorem hashed_embed_bag_witness: "hashed_embed 256 ''use Neo4j'' = hashed_embed 256 ''NEO4J, use!''"
proof (rule hashed_embed_bag)
  have "embed_tokens ''use Neo4j'' = [''use'', ''neo4j'']" "embed_tokens ''NEO4J, use!'' = [''neo4j'', ''use'']"
    by code_simp+
  then show "mset (embed_tokens ''use Neo4j'') = mset (embed_tokens ''NEO4J, use!'')" by simp
qed

end
