(* ===== verification/Retriever.thy ===== *)
theory Retriever
  imports Ranking ChatGPT
begin

text \<open>
  The rest of \<open>retrieval/index.py\<close>, and the process-wide registry of
  \<open>connectors/registry.py\<close>: chunking dispatched by source, and the LlamaIndex view of the
  ranking. Rounding to four places is exact on the reals, ties to even.
\<close>

section \<open>The built-in sources\<close>

definition builtin_registry :: "filesystem \<Rightarrow> registry result" where
  "builtin_registry fs = fold_e register [mock_spec, google_spec, github_spec, chatgpt_spec fs] []"

lemma builtin_registry_value:
  "builtin_registry fs = Inr [(''mock'', mock_spec), (''google'', google_spec), (''github'', github_spec),
     (''chatgpt'', chatgpt_spec fs)]"
proof -
  have ids: "source_id mock_spec = ''mock''" "source_id google_spec = ''google''" "source_id github_spec = ''github''"
    "source_id (chatgpt_spec fs) = ''chatgpt''"
    by (simp_all add: mock_spec_def google_spec_def github_spec_def chatgpt_spec_def)
  have ok: "check_source_id ''mock'' = Inr ''mock''" "check_source_id ''google'' = Inr ''google''"
    "check_source_id ''github'' = Inr ''github''" "check_source_id ''chatgpt'' = Inr ''chatgpt''"
    by code_simp+
  have oauth: "oauth_scopes mock_spec = []" "requires_oauth google_spec" "requires_oauth github_spec"
    "oauth_scopes (chatgpt_spec fs) = []"
    by (simp_all add: mock_spec_def google_spec_def github_spec_def chatgpt_spec_def)
  show ?thesis by (simp add: builtin_registry_def register_def ids ok oauth)
qed

section \<open>Chunks\<close>

definition chunk_for_source :: "filesystem \<Rightarrow> registry option \<Rightarrow> string \<Rightarrow> string \<Rightarrow> string list result" where
  "chunk_for_source fs registry txt connector =
     (case registry of
        Some reg \<Rightarrow> reg_chunker reg connector txt
      | None \<Rightarrow> bind_e (builtin_registry fs) (\<lambda>reg. reg_chunker reg connector txt))"

section \<open>The LlamaIndex view\<close>

record text_node =
  tn_id :: string
  tn_text :: string
  tn_label :: string
  tn_occurred_at_ms :: int
  tn_semantic :: real
  tn_recency :: real
  tn_proximity :: real
  tn_score :: real

definition round_4 :: "real \<Rightarrow> real" where
  "round_4 x =
     (let y = x * 10000; f = \<lfloor>y\<rfloor>; r = y - real_of_int f;
          n = (if r < 1 / 2 then f else if 1 / 2 < r then f + 1 else if even f then f else f + 1)
      in real_of_int n / 10000)"

definition text_node_of :: "ranked_node \<Rightarrow> text_node" where
  "text_node_of r = \<lparr>tn_id = st_id (rk_node r), tn_text = st_text (rk_node r), tn_label = st_label (rk_node r),
     tn_occurred_at_ms = st_occurred_at_ms (rk_node r), tn_semantic = round_4 (rk_semantic r),
     tn_recency = round_4 (rk_recency r), tn_proximity = round_4 (rk_proximity r), tn_score = rk_score r\<rparr>"

definition retrieve_nodes_with_score ::
  "(nat \<Rightarrow> real list \<Rightarrow> (key \<times> real) list) \<Rightarrow> (string \<Rightarrow> real list result) \<Rightarrow> graph \<Rightarrow> string \<Rightarrow> nat
    \<Rightarrow> int \<Rightarrow> string \<Rightarrow> text_node list result" where
  "retrieve_nodes_with_score ann embed_fn G owner top_k now_ms query =
     bind_e (embed_fn query) (\<lambda>emb.
       let candidates = vector_search ann G owner emb (top_k * 2) in
       if candidates = [] then Inr []
       else bind_e (rank candidates (neighbour_ids G owner (seed_ids_of candidates) 2) now_ms)
              (\<lambda>ranked. Inr (map text_node_of (take top_k ranked))))"

lemma retrieve_views_agree:
  "retrieve_nodes_with_score ann embed_fn G owner k now q
     = bind_e (retrieve_stored ann embed_fn G owner k now q) (\<lambda>rs. Inr (map text_node_of rs))"
  unfolding retrieve_nodes_with_score_def retrieve_stored_def bind_e_assoc Let_def
  by (simp add: bind_e_assoc if_distrib [of "\<lambda>m. bind_e m f" for f] cong: if_cong)

lemma round_4_error: "\<bar>round_4 x - x\<bar> \<le> 1 / 20000"
proof -
  define y f where "y = x * 10000" and "f = \<lfloor>y\<rfloor>"
  have f: "real_of_int f \<le> y" "y < real_of_int f + 1" by (simp_all add: f_def)
  have "round_4 x = real_of_int (if y - real_of_int f < 1 / 2 then f else if 1 / 2 < y - real_of_int f then f + 1
      else if even f then f else f + 1) / 10000"
    by (simp add: round_4_def Let_def y_def f_def)
  moreover have "x = y / 10000" by (simp add: y_def)
  ultimately show ?thesis using f by (auto simp: abs_le_iff field_simps split: if_splits)
qed


end
