(* ===== verification/Runtime.thy ===== *)
theory Runtime
  imports Ingestion LLM Embeddings Retriever
begin

text \<open>
  \<open>storage/migrations.py\<close>, the constructor \<open>Runtime.build\<close> of \<open>graphs/runtime.py\<close>, and the job
  side of \<open>jobs/\<close>: the settings of the queue and the task a worker runs. The outside world of
  a process is the record \<open>world\<close>; \<open>w_ddl\<close> is the driver running one schema statement with its
  parameters. A task builds its own runtime, so the session it adopts ends with it. Closing
  the driver and the HTTP client is not modelled.
\<close>

section \<open>Migrations\<close>

text \<open>The statements, with their parameters.\<close>

definition ddl_constraints :: "string list" where
  "ddl_constraints =
    [''CREATE CONSTRAINT memorai_entity_id IF NOT EXISTS FOR (n:Entity) REQUIRE n.id IS UNIQUE'',
     ''CREATE CONSTRAINT memorai_event_id IF NOT EXISTS FOR (n:Event) REQUIRE n.id IS UNIQUE'',
     ''CREATE CONSTRAINT memorai_claim_id IF NOT EXISTS FOR (n:Claim) REQUIRE n.id IS UNIQUE'']"

definition ddl_indexes :: "string list" where
  "ddl_indexes =
    [''CREATE INDEX memorai_memory_owner IF NOT EXISTS FOR (n:Memory) ON (n.owner_id)'',
     ''CREATE INDEX memorai_memory_occurred IF NOT EXISTS FOR (n:Memory) ON (n.occurred_at_ms)'',
     ''CREATE INDEX memorai_claim_commitment IF NOT EXISTS ''
       @ ''FOR (n:Claim) ON (n.commitment_fulfillment, n.commitment_due_at_ms)'',
     ''CREATE INDEX memorai_claim_commitment_owed_by IF NOT EXISTS ''
       @ ''FOR (n:Claim) ON (n.commitment_owed_by)'',
     ''CREATE INDEX memorai_claim_status IF NOT EXISTS FOR (n:Claim) ON (n.claim_status)'']"

definition ddl_vector_index :: string where
  "ddl_vector_index = py_join [newline]
    [[], ''CREATE VECTOR INDEX memorai_memory_embedding IF NOT EXISTS'',
     ''FOR (n:Memory) ON (n.embedding)'', ''OPTIONS {indexConfig: {'',
     ''  '' @ [CHR 0x60] @ ''vector.dimensions'' @ [CHR 0x60] @ '': $dim,'',
     ''  '' @ [CHR 0x60] @ ''vector.similarity_function'' @ [CHR 0x60] @ '': ''
       @ [CHR 0x27] @ ''cosine'' @ [CHR 0x27], ''}}'', []]"

definition ddl_fulltext_index :: string where
  "ddl_fulltext_index = py_join [newline]
    [[], ''CREATE FULLTEXT INDEX memorai_memory_text IF NOT EXISTS'',
     ''FOR (n:Memory) ON EACH [n.text]'', []]"

definition ddl_statements :: "nat \<Rightarrow> (string \<times> (string \<times> nat) list) list" where
  "ddl_statements dm =
     map (\<lambda>st. (st, [])) (ddl_constraints @ ddl_indexes)
     @ [(ddl_vector_index, [(''dim'', dm)]), (ddl_fulltext_index, [])]"

type_synonym ddl_runner = "string \<Rightarrow> (string \<times> nat) list \<Rightarrow> unit result"

definition apply_migrations :: "ddl_runner \<Rightarrow> nat \<Rightarrow> unit result" where
  "apply_migrations run dm =
     fold_e (\<lambda>(st, params) _. run st params) (ddl_statements dm) ()"

text \<open>Every statement may be run again.\<close>

lemma ddl_idempotent: "list_all (\<lambda>(st, params). contains '' IF NOT EXISTS'' st) (ddl_statements dm)"
  by code_simp

section \<open>Building a runtime\<close>

record world =
  w_ddl :: ddl_runner
  w_llm :: llm_env
  w_clock :: "raw_record \<Rightarrow> int"
  w_http :: http
  w_fmt :: "json \<Rightarrow> string"
  w_show :: "py_error \<Rightarrow> string"
  w_validate_scope :: "json \<Rightarrow> scope result"
  w_fs :: filesystem

definition build_runtime :: "world \<Rightarrow> settings \<Rightarrow> bool \<Rightarrow> registry option \<Rightarrow> runtime result" where
  "build_runtime w s migrate registry =
     bind_e (if migrate then apply_migrations (w_ddl w) (embedding_dim s) else Inr ()) (\<lambda>_.
     bind_e (get_extractor (w_llm w) (w_clock w) s) (\<lambda>ex.
     bind_e (case registry of Some reg \<Rightarrow> Inr reg
               | None \<Rightarrow> bind_e (builtin_registry (w_fs w)) (\<lambda>reg. Inr (reg_copy reg))) (\<lambda>reg.
       Inr \<lparr>rt_settings = s, rt_embed = get_embedder s, rt_extract = ex,
            rt_gateway = new_client (gateway_url s), rt_registry = reg, rt_http = w_http w,
            rt_fmt = w_fmt w, rt_show = w_show w, rt_validate_scope = w_validate_scope w\<rparr>)))"

section \<open>Jobs\<close>

record job_queue =
  q_name :: string
  q_redis_url :: string
  q_default_timeout :: int

definition get_queue :: "settings \<Rightarrow> job_queue" where
  "get_queue s = \<lparr>q_name = ingestion_queue s, q_redis_url = redis_url s, q_default_timeout = 900\<rparr>"

record job =
  job_owner_id :: string
  job_source :: string
  job_since_ms :: int
  job_session_token :: "string option"

definition pairs_json :: "(string \<times> string) list \<Rightarrow> json" where
  "pairs_json ps = JArr (map (\<lambda>(a, b). JArr [JStr a, JStr b]) ps)"

definition result_dict :: "ingestion_result \<Rightarrow> json" where
  "result_dict r = JObj
     [(''owner_id'', JStr (ir_owner_id r)), (''records'', JInt (int (ir_records r))),
      (''entities'', JInt (int (ir_entities r))), (''events'', JInt (int (ir_events r))),
      (''claims'', JInt (int (ir_claims r))), (''sealed'', JInt (int (ir_sealed r))),
      (''supersessions'', pairs_json (ir_supersessions r)),
      (''contradictions'', pairs_json (ir_contradictions r)),
      (''errors'', JArr (map JStr (ir_errors r)))]"

definition ingest_source :: "world \<Rightarrow> settings \<Rightarrow> job \<Rightarrow> graph \<Rightarrow> json result \<times> graph" where
  "ingest_source w s j G =
     (case build_runtime w s True None of
        Inl e \<Rightarrow> (Inl e, G)
      | Inr rt \<Rightarrow>
          map_prod (map_sum id result_dict) id
            (run_ingestion rt (job_owner_id j) (job_source j) (job_since_ms j) (job_session_token j) G))"

section \<open>What a runtime is built from\<close>

lemma build_runtime_cases:
  assumes "build_runtime w s migrate reg = Inr rt"
  obtains ex where "get_extractor (w_llm w) (w_clock w) s = Inr ex" "rt_extract rt = ex"
    "rt_settings rt = s" "rt_embed rt = get_embedder s" "rt_http rt = w_http w" "rt_fmt rt = w_fmt w"
    "rt_validate_scope rt = w_validate_scope w" "rt_gateway rt = new_client (gateway_url s)"
    "rt_show rt = w_show w"
  using assms that by (auto simp: build_runtime_def elim!: bind_e_InrE)

lemma build_runtime_registry:
  assumes "build_runtime w s migrate None = Inr rt"
  shows "rt_registry rt = projr (builtin_registry (w_fs w))"
  using assms unfolding build_runtime_def builtin_registry_value
  by (auto simp: reg_copy_def dict_of_def elim!: bind_e_InrE)

text \<open>The two extractors a runtime may hold.\<close>

lemma get_extractor_cases:
  assumes "get_extractor env clock s = Inr ex"
  obtains "ex = (\<lambda>owner rec. mock_extract (llm_str env) (clock rec) owner rec)"
  | "ex = (\<lambda>owner rec. llm_extract env (clock rec) owner rec)"
  using assms that by (auto simp: get_extractor_def split: if_splits option.splits)

lemma ingest_source_cases:
  assumes "ingest_source w s j G = (r, G')"
  obtains e where "build_runtime w s True None = Inl e" "r = Inl e" "G' = G"
  | rt res where "build_runtime w s True None = Inr rt" "r = map_sum id result_dict res"
      "run_ingestion rt (job_owner_id j) (job_source j) (job_since_ms j) (job_session_token j) G = (res, G')"
proof (cases "build_runtime w s True None")
  case (Inl e)
  with assms show ?thesis by (intro that(1)) (auto simp: ingest_source_def)
next
  case (Inr rt)
  obtain res G1 where run: "run_ingestion rt (job_owner_id j) (job_source j) (job_since_ms j) (job_session_token j) G = (res, G1)"
    by fastforce
  with assms Inr have "r = map_sum id result_dict res" "G' = G1" by (simp_all add: ingest_source_def)
  with run show ?thesis by (intro that(2) [OF Inr]) simp_all
qed

lemma ingest_source_returned:
  assumes "ingest_source w s j G = (Inr d, G')"
  obtains rt r where "build_runtime w s True None = Inr rt" "d = result_dict r"
    "run_ingestion rt (job_owner_id j) (job_source j) (job_since_ms j) (job_session_token j) G = (Inr r, G')"
  using ingest_source_cases [OF assms]
proof cases
  case (2 rt res)
  then show ?thesis using that by (cases res) simp_all
qed simp

end
