(* ===== verification/Service.thy ===== *)
theory Service
  imports Runtime Query Shift Context Neighbourhood
begin

text \<open>
  \<open>api.py\<close> and \<open>mcp_server.py\<close>. The global \<open>_runtime\<close> of a process is an argument: \<open>None\<close>
  before the application has started and after it has stopped. A request body that breaks a
  bound declared on its model is refused by FastAPI before the handler runs, with status 422.
  Reading a result as a dict changes its type only, so the handlers return the result record.
  The queue of RQ is its \<open>enqueue\<close> and \<open>fetch_job\<close>; \<open>ann\<close> is the vector index; the two times
  of a query are those at which it retrieves and checks. The tools of the MCP server declare no
  bounds; their \<open>top_k\<close> and \<open>hops\<close> are natural numbers here.
\<close>

section \<open>The runtime of the application\<close>

definition lifespan_start :: "world \<Rightarrow> settings \<Rightarrow> runtime option result" where
  "lifespan_start w s = bind_e (build_runtime w s True None) (\<lambda>rt. Inr (Some rt))"

definition api_runtime :: "runtime option \<Rightarrow> runtime result" where
  "api_runtime rt = (case rt of
      None \<Rightarrow> Inl (HTTPException 503 ''orchestrator runtime is not ready'')
    | Some r \<Rightarrow> Inr r)"

text \<open>\<open>Field(ge=lo, le=hi)\<close> and its kin on lengths.\<close>

definition field_between :: "string \<Rightarrow> int \<Rightarrow> int \<Rightarrow> int \<Rightarrow> unit result" where
  "field_between name lo hi n = (if lo \<le> n \<and> n \<le> hi then Inr () else Inl (HTTPException 422 name))"

section \<open>Health and sources\<close>

record health_status =
  hs_status :: string
  hs_mode :: string
  hs_neo4j :: string
  hs_redis :: string
  hs_gateway :: json

definition probe_text :: "(py_error \<Rightarrow> string) \<Rightarrow> unit result \<Rightarrow> string" where
  "probe_text str_of r = (case r of Inr u \<Rightarrow> ''ok'' | Inl e \<Rightarrow> ''unreachable: '' @ str_of e)"

text \<open>\<open>verify\<close> and \<open>ping\<close> are what the driver of the store and the connection of the queue answer.\<close>

definition api_health ::
  "(py_error \<Rightarrow> string) \<Rightarrow> settings \<Rightarrow> runtime option \<Rightarrow> unit result \<Rightarrow> unit result \<Rightarrow> health_status" where
  "api_health str_of s rt verify ping =
     (let store = bind_e (api_runtime rt) (\<lambda>_. verify);
          gateway = bind_e (api_runtime rt) (\<lambda>r. health (rt_http r));
          fine = (\<not> isl store \<and> \<not> isl ping \<and> \<not> isl gateway)
      in \<lparr>hs_status = (if fine then ''ok'' else ''degraded''), hs_mode = mode s,
          hs_neo4j = probe_text str_of store, hs_redis = probe_text str_of ping,
          hs_gateway = (case gateway of Inr j \<Rightarrow> j | Inl e \<Rightarrow> JStr (''unreachable: '' @ str_of e))\<rparr>)"

record source_view_of_spec =
  sv_id :: string
  sv_display_name :: string
  sv_requires_oauth :: bool
  sv_oauth_scopes :: "string list"
  sv_enabled :: bool
  sv_mock_fixtures :: bool

definition api_sources :: "registry \<Rightarrow> settings \<Rightarrow> source_view_of_spec list" where
  "api_sources reg s = map (\<lambda>sp.
     \<lparr>sv_id = source_id sp, sv_display_name = display_name sp, sv_requires_oauth = requires_oauth sp,
      sv_oauth_scopes = oauth_scopes sp, sv_enabled = source_enabled s (source_id sp),
      sv_mock_fixtures = (mock_factory sp \<noteq> None)\<rparr>) (reg_specs reg)"

section \<open>Ingestion\<close>

record ingest_request =
  iq_owner_id :: string
  iq_source :: string
  iq_since_ms :: int
  iq_session_token :: "string option"

record ingest_response =
  ip_job_id :: string
  ip_queue :: string

definition job_of :: "ingest_request \<Rightarrow> job" where
  "job_of req = \<lparr>job_owner_id = iq_owner_id req, job_source = iq_source req,
     job_since_ms = iq_since_ms req, job_session_token = iq_session_token req\<rparr>"

definition enqueue_ingest ::
  "registry \<Rightarrow> settings \<Rightarrow> (job_queue \<Rightarrow> job \<Rightarrow> string result) \<Rightarrow> ingest_request \<Rightarrow> ingest_response result" where
  "enqueue_ingest reg s enqueue req =
     (if \<not> reg_contains reg (iq_source req)
      then Inl (HTTPException 400 (''unknown source '' @ py_repr (iq_source req) @ ''; known sources: ''
             @ py_join '', '' (reg_ids reg)))
      else if \<not> source_enabled s (iq_source req)
      then Inl (HTTPException 400 (''source '' @ py_repr (iq_source req) @ '' is not enabled in this deployment''))
      else bind_e (enqueue (get_queue s) (job_of req)) (\<lambda>i.
             Inr \<lparr>ip_job_id = i, ip_queue = ingestion_queue s\<rparr>))"

record job_state =
  js_id :: string
  js_status :: string
  js_result :: json
  js_error :: "string option"

definition ingest_status ::
  "(job_queue \<Rightarrow> string \<Rightarrow> job_state option result) \<Rightarrow> settings \<Rightarrow> string \<Rightarrow> job_state result" where
  "ingest_status fetch_job s job_id =
     bind_e (fetch_job (get_queue s) job_id) (\<lambda>found. case found of
        None \<Rightarrow> Inl (HTTPException 404 (''no such job '' @ job_id))
      | Some j \<Rightarrow> Inr j)"

section \<open>Reads\<close>

type_synonym vector_index = "nat \<Rightarrow> real list \<Rightarrow> (key \<times> real) list"

definition api_query ::
  "runtime option \<Rightarrow> vector_index \<Rightarrow> graph \<Rightarrow> int \<Rightarrow> int \<Rightarrow> string \<Rightarrow> string \<Rightarrow> int \<Rightarrow> query_answer result" where
  "api_query rt ann G retrieve_ms check_ms question token top_k =
     bind_e (field_between ''top_k'' 1 50 top_k) (\<lambda>_.
     bind_e (api_runtime rt) (\<lambda>r. run_query r ann G retrieve_ms check_ms question token (nat top_k)))"

definition api_shift :: "runtime option \<Rightarrow> graph \<Rightarrow> int \<Rightarrow> string \<Rightarrow> string \<Rightarrow> shift_history result" where
  "api_shift rt G now_ms claim_id token =
     bind_e (api_runtime rt) (\<lambda>r. why_did_this_shift r G now_ms claim_id token)"

definition api_context ::
  "runtime option \<Rightarrow> graph \<Rightarrow> int \<Rightarrow> string \<Rightarrow> string \<Rightarrow> int \<Rightarrow> context_result result" where
  "api_context rt G now_ms object_id token hops =
     bind_e (field_between ''hops'' 1 6 hops) (\<lambda>_.
     bind_e (api_runtime rt) (\<lambda>r. context_chain r G now_ms object_id token (nat hops)))"

definition api_neighbourhood ::
  "runtime option \<Rightarrow> graph \<Rightarrow> int \<Rightarrow> string list \<Rightarrow> string \<Rightarrow> int \<Rightarrow> near_result result" where
  "api_neighbourhood rt G now_ms seed_ids token hops =
     bind_e (field_between ''seed_ids'' 1 25 (int (length seed_ids))) (\<lambda>_.
     bind_e (field_between ''hops'' 1 4 hops) (\<lambda>_.
     bind_e (api_runtime rt) (\<lambda>r. neighbourhood r G now_ms seed_ids token (nat hops))))"

section \<open>The tools of the MCP server\<close>

text \<open>The runtime is built by the first call and kept; a call that cannot build it raises and
  leaves the server without one.\<close>

definition mcp_runtime :: "world \<Rightarrow> settings \<Rightarrow> runtime option \<Rightarrow> runtime result" where
  "mcp_runtime w s cached = (case cached of None \<Rightarrow> build_runtime w s True None | Some rt \<Rightarrow> Inr rt)"

definition mcp_cached :: "world \<Rightarrow> settings \<Rightarrow> runtime option \<Rightarrow> runtime option" where
  "mcp_cached w s cached = (case mcp_runtime w s cached of Inr rt \<Rightarrow> Some rt | Inl e \<Rightarrow> cached)"

definition query_memory ::
  "world \<Rightarrow> settings \<Rightarrow> vector_index \<Rightarrow> graph \<Rightarrow> int \<Rightarrow> int \<Rightarrow> string \<Rightarrow> string \<Rightarrow> nat \<Rightarrow> runtime option
    \<Rightarrow> query_answer result \<times> runtime option" where
  "query_memory w s ann G retrieve_ms check_ms question token top_k cached =
     (bind_e (mcp_runtime w s cached) (\<lambda>r. run_query r ann G retrieve_ms check_ms question token top_k),
      mcp_cached w s cached)"

definition why_this_shifted ::
  "world \<Rightarrow> settings \<Rightarrow> graph \<Rightarrow> int \<Rightarrow> string \<Rightarrow> string \<Rightarrow> runtime option \<Rightarrow> shift_history result \<times> runtime option" where
  "why_this_shifted w s G now_ms claim_id token cached =
     (bind_e (mcp_runtime w s cached) (\<lambda>r. why_did_this_shift r G now_ms claim_id token), mcp_cached w s cached)"

definition memory_context_chain ::
  "world \<Rightarrow> settings \<Rightarrow> graph \<Rightarrow> int \<Rightarrow> string \<Rightarrow> string \<Rightarrow> nat \<Rightarrow> runtime option
    \<Rightarrow> context_result result \<times> runtime option" where
  "memory_context_chain w s G now_ms object_id token hops cached =
     (bind_e (mcp_runtime w s cached) (\<lambda>r. context_chain r G now_ms object_id token hops), mcp_cached w s cached)"

end
