(* ===== verification/Deployment.thy ===== *)
theory Deployment
  imports Service Ingestion_Props Extractor_Props LLM_Props
begin

text \<open>
  The running service as a step relation: the API accepts jobs, workers run accepted jobs, each
  step in an outside world of its own. A worker may take any accepted job, in any order and
  more than once, so nothing is assumed of the queue beyond running only what was enqueued.
  The invariant is what every stored row guarantees about its permissions and its secrets.
\<close>

section \<open>The steps\<close>

record deployment =
  dp_graph :: graph
  dp_jobs :: "job list"

definition new_deployment :: deployment where
  "new_deployment = \<lparr>dp_graph = empty_graph, dp_jobs = []\<rparr>"

inductive service_step :: "settings \<Rightarrow> deployment \<Rightarrow> deployment \<Rightarrow> bool" for s where
  step_accept: "builtin_registry fs = Inr reg \<Longrightarrow> enqueue_ingest reg s enqueue req = Inr resp \<Longrightarrow>
    service_step s d (d\<lparr>dp_jobs := dp_jobs d @ [job_of req]\<rparr>)"
| step_work: "j \<in> set (dp_jobs d) \<Longrightarrow> ingest_source w s j (dp_graph d) = (r, G') \<Longrightarrow>
    service_step s d (d\<lparr>dp_graph := G'\<rparr>)"

inductive_cases service_stepE: "service_step s d d'"

inductive reachable_service :: "settings \<Rightarrow> deployment \<Rightarrow> bool" for s where
  service_new: "reachable_service s new_deployment"
| service_more: "reachable_service s d \<Longrightarrow> service_step s d d' \<Longrightarrow> reachable_service s d'"

section \<open>What every row satisfies\<close>

text \<open>A fact of single rows that holds of what a node is stored as and that a status change keeps; the
  write node then keeps it of every row.\<close>

definition all_rows :: "(gnode \<Rightarrow> bool) \<Rightarrow> graph \<Rightarrow> bool" where
  "all_rows R G \<longleftrightarrow> store_ok G \<and> list_all R (gnodes G)"

locale row_invariant =
  fixes ok_put :: "memory_node \<Rightarrow> bool"
    and R :: "gnode \<Rightarrow> bool"
  assumes row_put: "ok_put node \<Longrightarrow> R (row_of node emb)"
    and row_status: "R n \<Longrightarrow> g_payload n = ClaimN c \<Longrightarrow> R (set_payload (ClaimN (c\<lparr>status := st\<rparr>)) n)"
begin

lemma status_rows:
  assumes "all_rows R G" "set_claim_status i (status_value Superseded) G = Inr G'"
  shows "all_rows R G'"
proof -
  have ok: "store_ok G" and rows: "\<And>n. n \<in> set (gnodes G) \<Longrightarrow> R n"
    using assms(1) by (auto simp: all_rows_def list_all_iff)
  from assms(2) have "list_all R (gnodes G')"
  proof (elim set_claim_status_cases mutate_claim_cases)
    fix c c' n
    assume c': "bind_e (claim_status_of (status_value Superseded)) (\<lambda>s. Inr (c\<lparr>status := s\<rparr>)) = Inr c'"
      and n: "n \<in> set (gnodes G)" "is_claim_row i n" "g_payload n = ClaimN c"
      and G': "G' = G\<lparr>gnodes := map (\<lambda>n. if is_claim_row i n then set_payload (ClaimN c') n else n) (gnodes G)\<rparr>"
    have "R (set_payload (ClaimN c') m)" if m: "m \<in> set (gnodes G)" "is_claim_row i m" for m
    proof -
      have "m = n" by (rule unique_claim_row [OF ok m(1) n(1)]) (use m(2) n(2) in \<open>simp only: is_claim_row_key\<close>)
      moreover have "c' = c\<lparr>status := Superseded\<rparr>" using c' unfolding status_roundtrip by simp
      ultimately show ?thesis using row_status [OF rows [OF n(1)] n(3)] by simp
    qed
    with rows show ?thesis by (auto simp: G' list_all_iff)
  qed (use assms(1) in \<open>simp add: all_rows_def\<close>)
  with set_claim_status_ok [OF ok assms(2)] show ?thesis by (simp add: all_rows_def)
qed

end

sublocale row_invariant \<subseteq> rows: write_invariant ok_put "all_rows R"
proof
  fix node emb and G :: graph assume "ok_put node" "all_rows R G"
  then show "all_rows R (upsert node emb G)"
    using row_put [of node emb] by (auto simp: all_rows_def upsert_ok list_all_iff set_gnodes_upsert)
next
  fix G G' i rel j assume "all_rows R G" "link i rel j G = Inr G'"
  then show "all_rows R G'" by (auto simp: all_rows_def link_facts(1) intro: link_ok)
qed (rule status_rows)

section \<open>Sound rows\<close>

text \<open>The owner of an object is the one its permissions name, the object has exactly one source, and
  a confidential event has no body and is sealed.\<close>

definition sound_node :: "memory_node \<Rightarrow> bool" where
  "sound_node node \<longleftrightarrow> acl_owner_id (node_acl node) = node_owner node \<and> length (acl_sources (node_acl node)) = 1
     \<and> (case node of
          EventN e \<Rightarrow> acl_sensitivity (evt_acl e) = Confidential \<longrightarrow> body e = None \<and> encrypted_content e \<noteq> None
        | _ \<Rightarrow> True)"

text \<open>A row holds such an object, its columns agree with it, and the search text of a confidential
  event is its summary.\<close>

definition sound_row :: "gnode \<Rightarrow> bool" where
  "sound_row n \<longleftrightarrow> sound_node (g_payload n) \<and> g_owner_id n = node_owner (g_payload n)
     \<and> g_acl_sources n = acl_sources (node_acl (g_payload n))
     \<and> g_acl_sensitivity n = sensitivity_value (acl_sensitivity (node_acl (g_payload n)))
     \<and> (case g_payload n of
          EventN e \<Rightarrow> acl_sensitivity (evt_acl e) = Confidential \<longrightarrow> g_text n = py_strip (summary e @ '' '')
        | _ \<Rightarrow> True)"

definition sound_store :: "graph \<Rightarrow> bool" where
  "sound_store G \<longleftrightarrow> store_ok G \<and> list_all sound_row (gnodes G)"

lemma sound_row_of: "sound_node node \<Longrightarrow> sound_row (row_of node emb)"
  by (auto simp: sound_row_def sound_node_def row_of_def or_empty_def split: memory_node.splits)

lemma sound_set_status:
  assumes "sound_row n" "g_payload n = ClaimN c"
  shows "sound_row (set_payload (ClaimN (c\<lparr>status := st\<rparr>)) n)"
  using assms by (simp add: sound_row_def sound_node_def set_payload_def)

interpretation sound_rows: row_invariant sound_node sound_row
  by unfold_locales (simp_all add: sound_row_of sound_set_status)

lemma sound_store_rows: "sound_store = all_rows sound_row"
  by (simp add: fun_eq_iff sound_store_def all_rows_def)

interpretation sound: write_invariant sound_node sound_store
  unfolding sound_store_rows by (rule sound_rows.rows.write_invariant_axioms)

section \<open>What an extractor gives the write node\<close>

lemma strip_acl:
  assumes "strip c = strip c'"
  shows "clm_acl c = clm_acl c'" "clm_owner_id c = clm_owner_id c'"
  using arg_cong [OF assms, of clm_acl] arg_cong [OF assms, of clm_owner_id] by (simp_all add: strip_def)

lemma acl_sound [simp]: "acl_owner_id (extract_acl owner rec kinds) = owner" "length (acl_sources (extract_acl owner rec kinds)) = 1"
  "acl_sensitivity (extract_acl owner rec kinds) = Confidential \<longleftrightarrow> rec_sensitive rec"
  by (simp_all add: extract_acl_def)

lemma stored_event_sound:
  assumes "event_ok owner rec es e" "rec \<in> set records" "event_to_store records sealed e = Some e'"
  shows "sound_node (EventN e')"
proof -
  have e: "evt_owner_id e = owner" "evt_acl e = extract_acl owner rec (kinds_of es)"
    "sr_external_id (evt_source e) = rec_external_id rec"
    using assms(1) by (simp_all add: event_ok_def)
  have "rec_sensitive rec \<Longrightarrow> needs_seal records (sr_external_id (evt_source e))"
    using assms(2) e(3) by (auto simp: needs_seal_def list_ex_iff)
  with assms(3) e show ?thesis
    by (auto simp: sound_node_def event_to_store_def split: option.splits if_split_asm)
qed

definition comes_from :: "ingestion_state \<Rightarrow> candidate \<Rightarrow> memory_node \<Rightarrow> bool" where
  "comes_from st cand node \<longleftrightarrow> (case node of
       EntityN e \<Rightarrow> e \<in> set (cand_entities cand)
     | EventN e' \<Rightarrow> \<exists>e \<in> set (cand_events cand). event_to_store (is_records st) (is_sealed st) e = Some e'
     | ClaimN c' \<Rightarrow> \<exists>c \<in> set (cand_claims cand). strip c' = strip c)"

lemma comes_from_cases:
  assumes "comes_from st cand node"
  obtains e where "node = EntityN e" "e \<in> set (cand_entities cand)"
    | e e' where "node = EventN e'" "e \<in> set (cand_events cand)" "event_to_store (is_records st) (is_sealed st) e = Some e'"
    | c c' where "node = ClaimN c'" "c \<in> set (cand_claims cand)" "strip c' = strip c"
  using assms by (cases node) (auto simp: comes_from_def)

text \<open>Where a node of a batch comes from: a candidate the extractor made of a fetched record, with its
  events sealed and its claims resolved.\<close>

lemma prepared_origin:
  assumes "prepare rt st0 G = Inr st" "node \<in> batch_nodes st"
  obtains st1 rec cand where "fetch rt st0 = Inr st1" "is_records st = is_records st1" "rec \<in> set (is_records st1)"
    "rt_extract rt (is_owner_id st1) rec = Inr cand"
    "comes_from st cand node"
proof -
  obtain st1 cands where pr: "fetch rt st0 = Inr st1" "is_records st = is_records st1"
    "map_e (rt_extract rt (is_owner_id st1)) (is_records st1) = Inr cands"
    "is_candidates st = is_candidates (resolve_node G (st1\<lparr>is_candidates := cands\<rparr>))"
    by (rule prepare_cases [OF assms(1)])
  obtain P rs where batch: "resolve_batch (store_get G) (claims_about G) (is_owner_id st1) cands = (P, rs)"
    by fastforce
  have "is_candidates st = map2 (\<lambda>cand r. cand\<lparr>cand_claims := claims_at P r\<rparr>) cands rs"
    using pr(4) batch by (simp add: resolve_node_def)
  moreover obtain cand where cand: "cand \<in> set (is_candidates st)"
    "node \<in> nodes_of (is_records st) (is_sealed st) cand"
    using assms(2) by (auto simp: batch_nodes_def)
  ultimately obtain k where k: "k < length cands" "k < length rs"
    "cand = (cands ! k)\<lparr>cand_claims := claims_at P (rs ! k)\<rparr>"
    by (auto simp: set_zip)
  have "list_all2 (\<lambda>r c. rt_extract rt (is_owner_id st1) r = Inr c) (is_records st1) cands"
    using map_e_nth [OF pr(3)] .
  with k(1) obtain rec where rec: "rec \<in> set (is_records st1)" "rt_extract rt (is_owner_id st1) rec = Inr (cands ! k)"
    unfolding list_all2_conv_all_nth by (metis nth_mem)
  have claim: "\<exists>c0 \<in> set (cand_claims (cands ! k)). strip c = strip c0" if c: "c \<in> set (claims_at P (rs ! k))" for c
  proof -
    have "classified (store_get G) P (cands ! k) (rs ! k)"
      using resolve_batch_ok(2) [OF batch] k(1) by (auto simp: list_all2_conv_all_nth)
    then have "strip c \<in> strip ` set (filter (is_new (store_get G)) (cand_claims (cands ! k)))"
      using c unfolding classified_def set_map [symmetric] by (metis image_eqI set_map)
    then show ?thesis by auto
  qed
  show thesis
    by (rule that [OF pr(1,2) rec]) (use cand(2) claim in \<open>auto simp: nodes_of_def k(3) comes_from_def\<close>)
qed

lemma prepared_sound:
  assumes "\<And>owner rec cand. rt_extract rt owner rec = Inr cand \<Longrightarrow> candidate_ok owner rec cand"
    and "prepare rt st0 G = Inr st" "node \<in> batch_nodes st"
  shows "sound_node node"
proof -
  obtain st1 rec cand where "fetch rt st0 = Inr st1" and o: "is_records st = is_records st1" "rec \<in> set (is_records st1)"
    "rt_extract rt (is_owner_id st1) rec = Inr cand"
    and origin: "comes_from st cand node"
    by (rule prepared_origin [OF assms(2,3)])
  note ok = candidate_okD [OF assms(1) [OF o(3)]]
  from origin show ?thesis
  proof (cases rule: comes_from_cases)
    case (1 e)
    with ok(1) show ?thesis by (auto simp: sound_node_def entity_ok_def)
  next
    case (2 e e')
    with ok(2) have "event_ok (is_owner_id st1) rec (cand_entities cand) e" by auto
    from stored_event_sound [OF this _ 2(3)] o(1,2) 2(1) show ?thesis by simp
  next
    case (3 c c')
    from ok(3) [OF 3(2)] strip_acl [OF 3(3)] 3(1) show ?thesis by (auto simp: sound_node_def claim_ok_def)
  qed
qed

lemma runtime_extractor_ok:
  assumes "build_runtime w s migrate reg = Inr rt" "rt_extract rt owner rec = Inr cand"
  shows "candidate_ok owner rec cand"
proof -
  obtain ex where ex: "get_extractor (w_llm w) (w_clock w) s = Inr ex" "rt_extract rt = ex"
    by (rule build_runtime_cases [OF assms(1)])
  from get_extractor_cases [OF ex(1)] show ?thesis
  proof cases
    case 1
    with assms(2) ex(2) show ?thesis by (auto intro: mock.extr_ok)
  next
    case 2
    with assms(2) ex(2) show ?thesis by (auto intro: llm.extr_ok)
  qed
qed

lemma job_keeps_sound:
  assumes "sound_store G" "ingest_source w s j G = (r, G')"
  shows "sound_store G'"
  using ingest_source_cases [OF assms(2)]
proof cases
  case (2 rt res)
  show ?thesis
  proof (rule pipeline_cases [OF 2(3)])
    fix st assume pr: "prepare rt (start_state (job_owner_id j) (job_source j) (job_since_ms j) (job_session_token j)) G = Inr st"
      and G': "G' = snd (write_node rt st G)"
    show ?thesis unfolding G'
      by (rule sound.inv_write [OF _ assms(1)])
        (rule prepared_sound [OF runtime_extractor_ok [OF 2(1)] pr])
  qed (use assms(1) in simp)
qed (use assms(1) in simp)

section \<open>Properties\<close>

definition known_job :: "settings \<Rightarrow> job \<Rightarrow> bool" where
  "known_job s j \<longleftrightarrow> source_enabled s (job_source j) \<and> job_source j \<in> {''mock'', ''google'', ''github'', ''chatgpt''}"

lemma accepted_known:
  assumes "builtin_registry fs = Inr reg" "enqueue_ingest reg s enqueue req = Inr resp"
  shows "known_job s (job_of req)"
proof -
  have "map_of reg (iq_source req) \<noteq> None" "source_enabled s (iq_source req)"
    using assms(2) by (auto simp: enqueue_ingest_def reg_contains_def split: if_splits)
  with assms(1) show ?thesis
    by (auto simp: builtin_registry_value known_job_def job_of_def split: if_splits)
qed

lemma empty_sound: "sound_store empty_graph"
  by (simp add: sound_store_def empty_store_ok) (simp add: empty_graph_def)

lemma service_step_sound:
  assumes "service_step s d d'" "sound_store (dp_graph d) \<and> list_all (known_job s) (dp_jobs d)"
  shows "sound_store (dp_graph d') \<and> list_all (known_job s) (dp_jobs d')"
  using assms
proof (cases rule: service_step.cases)
  case (step_accept fs reg enqueue req resp)
  with accepted_known [OF step_accept(2,3)] assms(2) show ?thesis by simp
next
  case (step_work j w r G')
  with job_keeps_sound [OF _ step_work(3)] assms(2) show ?thesis by simp
qed

lemma reachable_sound:
  assumes "reachable_service s d"
  shows "sound_store (dp_graph d) \<and> list_all (known_job s) (dp_jobs d)"
  using assms
proof induction
  case service_new
  show ?case by (simp add: new_deployment_def empty_sound)
next
  case (service_more d d')
  show ?case by (rule service_step_sound [OF service_more(2,3)])
qed

text \<open>C3: in every state the service can reach from an empty database, with either extractor and whatever
  the gateway, the model and the embedder answer, the store is well formed, every row names its
  owner in its permissions and has exactly one source, the permission columns agree with the
  stored object, every confidential event is sealed and has neither a body nor a search text
  beyond its summary, and every job in the queue is of a known, enabled source.\<close>

theorem service_sound:
  assumes "reachable_service s d"
  shows "store_ok (dp_graph d) \<and> list_all sound_row (gnodes (dp_graph d)) \<and> list_all (known_job s) (dp_jobs d)"
  using reachable_sound [OF assms] by (simp add: sound_store_def)

text \<open>A deployment that has accepted a job.\<close>

definition sample_request :: ingest_request where
  "sample_request = \<lparr>iq_owner_id = ''o'', iq_source = ''mock'', iq_since_ms = 0, iq_session_token = None\<rparr>"

definition sample_world :: world where
  "sample_world = \<lparr>w_ddl = (\<lambda>st params. Inr ()),
     w_llm = \<lparr>llm_invoke = (\<lambda>ms. Inl NotImplementedError), llm_dumps = (\<lambda>j. []),
              llm_loads = (\<lambda>x. Inl (ValueError [])), llm_float = (\<lambda>x. Inl (ValueError [])), llm_str = (\<lambda>j. [])\<rparr>,
     w_clock = (\<lambda>r. 1736000000000), w_http = down_server, w_fmt = (\<lambda>j. []), w_show = (\<lambda>e. ''down''),
     w_validate_scope = (\<lambda>j. Inl (ValidationError [])),
     w_fs = \<lparr>fs_is_file = (\<lambda>p. False), fs_is_dir = (\<lambda>p. False), fs_names = (\<lambda>p. []), fs_is_zip = (\<lambda>p. False),
             fs_zip_names = (\<lambda>p. []), fs_zip_json = (\<lambda>p m. Inr JNull), fs_json = (\<lambda>p. Inr JNull),
             fs_expand = (\<lambda>x. [x])\<rparr>\<rparr>"

definition sample_deployment :: deployment where
  "sample_deployment = \<lparr>
     dp_graph = snd (ingest_source sample_world default_settings (job_of sample_request) empty_graph),
     dp_jobs = [job_of sample_request]\<rparr>"

text \<open>The state in which one accepted job has run.\<close>

definition one_job_done :: "world \<Rightarrow> settings \<Rightarrow> ingest_request \<Rightarrow> deployment" where
  "one_job_done w s req = \<lparr>dp_graph = snd (ingest_source w s (job_of req) empty_graph), dp_jobs = [job_of req]\<rparr>"

lemma one_job_reachable:
  assumes "iq_source req = ''mock''" "source_enabled s ''mock''"
  shows "reachable_service s (one_job_done w s req)"
proof -
  let ?d = "new_deployment\<lparr>dp_jobs := [job_of req]\<rparr>"
  obtain reg where reg: "builtin_registry (w_fs w) = Inr reg" "map_of reg ''mock'' \<noteq> None"
    unfolding builtin_registry_value by simp
  have "enqueue_ingest reg s (\<lambda>q j. Inr ''job-1'') req = Inr \<lparr>ip_job_id = ''job-1'', ip_queue = ingestion_queue s\<rparr>"
    using reg(2) assms by (simp add: enqueue_ingest_def reg_contains_def)
  from service_more [OF service_new step_accept [OF reg(1) this, of new_deployment]]
  have start: "reachable_service s ?d" by (simp add: new_deployment_def)
  obtain r G' where run: "ingest_source w s (job_of req) (dp_graph ?d) = (r, G')" by fastforce
  then have "one_job_done w s req = ?d\<lparr>dp_graph := G'\<rparr>" by (simp add: one_job_done_def new_deployment_def)
  with service_more [OF start step_work [OF _ run]] show ?thesis by simp
qed

lemma sample_deployment_reachable: "reachable_service default_settings sample_deployment"
proof -
  have "sample_deployment = one_job_done sample_world default_settings sample_request"
    by (simp add: sample_deployment_def one_job_done_def)
  then show ?thesis
    using one_job_reachable [of sample_request default_settings sample_world]
    by (simp add: sample_request_def source_enabled_def default_settings_def)
qed

theorem service_sound_witness:
  "store_ok (dp_graph sample_deployment) \<and> list_all sound_row (gnodes (dp_graph sample_deployment))"
  using service_sound [OF sample_deployment_reachable] by simp

end
