(* ===== verification/Service_Props.thy ===== *)
theory Service_Props
  imports Deployment
begin

text \<open>
  The entry points of the service end to end: what the reads ask of the gateway, what accepting
  a job promises, and how an ingestion job ends.
\<close>

section \<open>Reads\<close>

text \<open>The gateway's answer to the introspection of a token, read as the client reads it.\<close>

definition grant_accepted :: "http \<Rightarrow> string \<Rightarrow> bool" where
  "grant_accepted http token =
     (case http ''/memory/scope/introspect'' (Some (JObj [(''grant_token'', JStr token)])) [] of
        Inl e \<Rightarrow> False
      | Inr r \<Rightarrow> http_status r < 400 \<and>
          (case http_json r of
             Inr (JObj kvs) \<Rightarrow> (case map_of kvs ''active'' of None \<Rightarrow> False | Some a \<Rightarrow> truthy a)
           | _ \<Rightarrow> False))"

lemma authorize_accepted:
  assumes "\<not> grant_accepted (rt_http rt) token"
  obtains e where "authorize rt None (Some token) = Inl e"
proof (cases "authorize rt None (Some token)")
  case (Inr sc)
  then have "introspect_scope (rt_fmt rt) (rt_validate_scope rt) (rt_http rt) (rt_gateway rt) token = Inr sc"
    by (simp add: authorize_def)
  from introspect_active_only [OF this] assms show ?thesis by (auto simp: grant_accepted_def)
qed (rule that)

text \<open>C16: no read without a live grant. When the gateway does not answer the token with an active grant,
  every entry point that reads memory, over HTTP and over MCP, raises, and the exception is the
  same whatever is stored: the bounds of the request and the gateway alone decide it.\<close>

theorem reads_need_grant:
  assumes "\<not> grant_accepted (rt_http rt) token" "mcp_runtime w s cached = Inr rt"
  shows "\<exists>e. \<forall>ann G.
      api_query (Some rt) ann G t1 t2 q token k = (if 1 \<le> k \<and> k \<le> 50 then Inl e else Inl (HTTPException 422 ''top_k''))
    \<and> api_shift (Some rt) G t1 x token = Inl e
    \<and> api_context (Some rt) G t1 x token h = (if 1 \<le> h \<and> h \<le> 6 then Inl e else Inl (HTTPException 422 ''hops''))
    \<and> isl (api_neighbourhood (Some rt) G t1 xs token h)
    \<and> api_neighbourhood (Some rt) G t1 xs token h = api_neighbourhood (Some rt) empty_graph t1 xs token h
    \<and> fst (query_memory w s ann G t1 t2 q token n cached) = Inl e
    \<and> fst (why_this_shifted w s G t1 x token cached) = Inl e
    \<and> fst (memory_context_chain w s G t1 x token n cached) = Inl e"
proof -
  obtain e where e: "authorize rt None (Some token) = Inl e"
    by (rule authorize_accepted [OF assms(1)])
  show ?thesis
    by (intro exI [of _ e] allI)
      (simp add: api_query_def api_shift_def api_context_def api_neighbourhood_def query_memory_def
        why_this_shifted_def memory_context_chain_def assms(2) field_between_def api_runtime_def
        run_query_def why_did_this_shift_def context_chain_def neighbourhood_def e)
qed

text \<open>A gateway that says the grant has been revoked.\<close>

definition revoked_server :: http where
  "revoked_server path body_opt headers = Inr \<lparr>http_status = 200, http_text = [],
     http_json = Inr (JObj [(''active'', JBool False)])\<rparr>"

definition revoked_runtime :: runtime where
  "revoked_runtime = query_runtime\<lparr>rt_http := revoked_server\<rparr>"

theorem reads_need_grant_witness:
  "\<exists>e. api_shift (Some revoked_runtime) run_graph 3 ''clm_1'' ''tok'' = Inl e
     \<and> fst (query_memory sample_world default_settings (\<lambda>n emb. []) run_graph 3 3 ''q'' ''tok'' 8 (Some revoked_runtime)) = Inl e"
proof -
  have "\<not> grant_accepted (rt_http revoked_runtime) ''tok''"
    by (simp add: grant_accepted_def revoked_runtime_def revoked_server_def)
  moreover have "mcp_runtime sample_world default_settings (Some revoked_runtime) = Inr revoked_runtime"
    by (simp add: mcp_runtime_def)
  ultimately show ?thesis using reads_need_grant by blast
qed

section \<open>A query of the running service\<close>

lemma run_query_parts:
  assumes "run_query rt ann G t1 t2 q token k = Inr ans"
  obtains sc emb where "authorize rt None (Some token) = Inr sc" "rt_embed rt q = Inr emb"
    "introspect_scope (rt_fmt rt) (rt_validate_scope rt) (rt_http rt) (rt_gateway rt) token = Inr sc"
  using assms that
  by (auto simp: run_query_def retrieve_def retrieve_stored_def authorize_def elim!: bind_e_InrE)

text \<open>C2: from connector to answer. Whatever the service has ingested, an answer of the query endpoint comes
  under an active grant, cites at most fifty objects, and each is a stored object of the owner
  the grant names, from sources and at a sensitivity the grant covers; a confidential event
  among them is one whose body was sealed and is not in the store.\<close>

theorem service_query_scoped:
  assumes "reachable_service s d" "api_query (Some rt) ann (dp_graph d) t1 t2 q token k = Inr ans"
  shows "\<exists>sc. introspect_scope (rt_fmt rt) (rt_validate_scope rt) (rt_http rt) (rt_gateway rt) token = Inr sc
    \<and> grant_accepted (rt_http rt) token \<and> qa_considered ans \<le> 50
    \<and> list_all (\<lambda>c. list_ex (\<lambda>n. g_id n = ac_object_id c \<and> g_owner_id n = scope_owner_id sc
          \<and> set (g_acl_sources n) \<subseteq> set (scope_sources sc)
          \<and> acl_sensitivity (node_acl (g_payload n)) \<le> max_sensitivity sc \<and> sound_row n)
        (gnodes (dp_graph d))) (qa_citations ans)"
proof -
  have run: "run_query rt ann (dp_graph d) t1 t2 q token (nat k) = Inr ans" "nat k \<le> 50"
    using assms(2) by (auto simp: api_query_def api_runtime_def field_between_def split: if_splits)
  obtain sc emb where sc: "authorize rt None (Some token) = Inr sc" "rt_embed rt q = Inr emb"
    "introspect_scope (rt_fmt rt) (rt_validate_scope rt) (rt_http rt) (rt_gateway rt) token = Inr sc"
    by (rule run_query_parts [OF run(1)])
  have sound: "sound_store (dp_graph d)" using reachable_sound [OF assms(1)] by simp
  then have "store_ok (dp_graph d)" by (simp add: sound_store_def)
  from run_query_returns [OF this sc(2,3), of ann t1 t2 "nat k"] run
  have cited: "qa_considered ans \<le> 50"
    "list_all (\<lambda>c. list_ex (\<lambda>n. g_id n = ac_object_id c \<and> g_owner_id n = scope_owner_id sc
       \<and> permits t2 sc (node_acl (g_payload n)) (Some t2)) (gnodes (dp_graph d))) (qa_citations ans)"
    by auto
  have covered: "set (g_acl_sources n) \<subseteq> set (scope_sources sc)
      \<and> acl_sensitivity (node_acl (g_payload n)) \<le> max_sensitivity sc \<and> sound_row n"
    if "n \<in> set (gnodes (dp_graph d))" "permits t2 sc (node_acl (g_payload n)) (Some t2)" for n
  proof -
    have "sound_row n" using sound that(1) by (simp add: sound_store_def list_all_iff)
    with permitsD [OF that(2)] show ?thesis by (simp add: sound_row_def)
  qed
  have "list_all (\<lambda>c. list_ex (\<lambda>n. g_id n = ac_object_id c \<and> g_owner_id n = scope_owner_id sc
          \<and> set (g_acl_sources n) \<subseteq> set (scope_sources sc)
          \<and> acl_sensitivity (node_acl (g_payload n)) \<le> max_sensitivity sc \<and> sound_row n)
        (gnodes (dp_graph d))) (qa_citations ans)"
    using cited(2) covered unfolding list_all_iff list_ex_iff by meson
  moreover have "grant_accepted (rt_http rt) token"
    using authorize_accepted [of rt token] sc(1) by (metis sum.distinct(1))
  ultimately show ?thesis using cited(1) sc(3) by blast
qed

text \<open>The sample deployment, asked under a grant of its owner.\<close>

theorem service_query_scoped_witness:
  "\<exists>ans. api_query (Some query_runtime) (\<lambda>n emb. []) (dp_graph sample_deployment) 3 3 ''q'' ''tok'' 8 = Inr ans
     \<and> qa_considered ans \<le> 50 \<and> grant_accepted (rt_http query_runtime) ''tok''"
proof -
  have "rt_embed query_runtime ''q'' = Inr []" by (simp add: query_runtime_def)
  moreover have "introspect_scope (rt_fmt query_runtime) (rt_validate_scope query_runtime) (rt_http query_runtime)
      (rt_gateway query_runtime) ''tok'' = Inr sample_scope"
    by (simp add: query_runtime_def introspect_scope_def http_post_def sample_grant_server_def unwrap_def json_item_def)
  moreover have "store_ok (dp_graph sample_deployment)"
    using reachable_sound [OF sample_deployment_reachable] by (simp add: sound_store_def)
  ultimately obtain ans where "run_query query_runtime (\<lambda>n emb. []) (dp_graph sample_deployment) 3 3 ''q'' ''tok'' 8 = Inr ans"
    using run_query_returns by blast
  then have ans: "api_query (Some query_runtime) (\<lambda>n emb. []) (dp_graph sample_deployment) 3 3 ''q'' ''tok'' 8 = Inr ans"
    by (simp add: api_query_def api_runtime_def field_between_def)
  from service_query_scoped [OF sample_deployment_reachable ans] ans show ?thesis by blast
qed

section \<open>Accepting a job\<close>

text \<open>What the API accepts, the worker can fetch. An accepted request is enqueued once, with its
  fields and on the queue it names, and in the runtime the worker builds the fetch node
  neither refuses the source nor misses it: it runs the connector that source declares.\<close>

theorem accepted_job_fetches:
  assumes "builtin_registry (w_fs w) = Inr reg" "enqueue_ingest reg s enqueue req = Inr resp"
    and "build_runtime w s True None = Inr rt"
  shows "enqueue (get_queue s) (job_of req) = Inr (ip_job_id resp) \<and> ip_queue resp = q_name (get_queue s)
    \<and> (\<exists>sp. map_of reg (iq_source req) = Some sp \<and> source_id sp = iq_source req
        \<and> fetch rt (start_state (iq_owner_id req) (iq_source req) (iq_since_ms req) session) =
          bind_e (case mock_factory sp of
              Some mk \<Rightarrow> if use_fixture_connectors s then mk s else factory sp s
            | None \<Rightarrow> factory sp s) (\<lambda>conn.
          bind_e (conn_fetch conn (iq_owner_id req) (iq_since_ms req)) (\<lambda>records.
            Inr ((start_state (iq_owner_id req) (iq_source req) (iq_since_ms req) session)\<lparr>is_records := records\<rparr>))))"
proof -
  have q: "map_of reg (iq_source req) \<noteq> None" "source_enabled s (iq_source req)"
    "enqueue (get_queue s) (job_of req) = Inr (ip_job_id resp)" "ip_queue resp = q_name (get_queue s)"
    using assms(2) by (auto simp: enqueue_ingest_def reg_contains_def get_queue_def split: if_splits elim!: bind_e_InrE)
  then obtain sp where sp: "map_of reg (iq_source req) = Some sp" by auto
  have "source_id sp = iq_source req"
    using assms(1) sp unfolding builtin_registry_value
    by (auto simp: mock_spec_def google_spec_def github_spec_def chatgpt_spec_def split: if_splits)
  moreover have "rt_registry rt = reg" "rt_settings rt = s"
    using build_runtime_registry [OF assms(3)] assms(1) build_runtime_cases [OF assms(3)] by auto
  ultimately show ?thesis
    using q sp by (simp add: fetch_def reg_connector_def reg_spec_def start_state_def)
qed

theorem accepted_job_fetches_witness:
  "\<exists>rt. build_runtime sample_world default_settings True None = Inr rt
     \<and> fetch rt (start_state ''o'' ''mock'' 0 None)
       = Inr ((start_state ''o'' ''mock'' 0 None)\<lparr>is_records := filter (\<lambda>r. 0 \<le> rec_occurred_at_ms r) fixtures\<rparr>)"
proof -
  obtain reg where reg: "builtin_registry (w_fs sample_world) = Inr reg" "map_of reg ''mock'' = Some mock_spec"
    unfolding builtin_registry_value by simp
  have acc: "enqueue_ingest reg default_settings (\<lambda>q j. Inr ''job-1'') sample_request =
      Inr \<lparr>ip_job_id = ''job-1'', ip_queue = ingestion_queue default_settings\<rparr>"
    using reg(2) by (simp add: enqueue_ingest_def reg_contains_def sample_request_def source_enabled_def
        default_settings_def)
  have "apply_migrations (w_ddl sample_world) (embedding_dim default_settings) = Inr ()"
    unfolding apply_migrations_def by (subst fold_e_total [where g = "\<lambda>_ u. u"]) (auto simp: sample_world_def)
  then obtain rt where rt: "build_runtime sample_world default_settings True None = Inr rt"
    by (simp add: build_runtime_def get_extractor_def builtin_registry_value)
  from accepted_job_fetches [OF reg(1) acc rt, of None] reg(2) rt show ?thesis
    by (simp add: sample_request_def mock_spec_def mock_build_def mock_fetch_def)
qed

section \<open>How a job ends\<close>

definition fixtures_since :: "int \<Rightarrow> raw_record list" where
  "fixtures_since since = filter (\<lambda>r. since \<le> rec_occurred_at_ms r) fixtures"

lemma fixtures_returns: "list_all (\<lambda>r. returns (check_source_id (rec_connector r))
    \<and> list_all deadline_ok (re_finditer commitment_re (record_text r)) \<and> rec_metadata r = []) fixtures"
  by code_simp

lemma fixtures_extracted: "\<exists>cands. map_e (\<lambda>r. mock_extract fmt (clock r) owner r) (fixtures_since since) = Inr cands"
proof -
  have "list_all (\<lambda>r. returns (mock_extract fmt (clock r) owner r)) (fixtures_since since)"
    using fixtures_returns unfolding mock_returns_iff
    by (auto simp: list_all_iff fixtures_since_def references_ok_def)
  then have "returns (map_e (\<lambda>r. mock_extract fmt (clock r) owner r) (fixtures_since since))"
    by (simp only: returns_map_e)
  then show ?thesis by (simp only: returns_iff)
qed

lemma mock_mode_runtime:
  assumes "\<not> use_llm_extractor s" "apply_migrations (w_ddl w) (embedding_dim s) = Inr ()"
  obtains rt where "build_runtime w s True None = Inr rt" "rt_settings rt = s" "rt_embed rt = get_embedder s"
    "rt_extract rt = (\<lambda>owner rec. mock_extract (llm_str (w_llm w)) (w_clock w rec) owner rec)"
    "map_of (rt_registry rt) ''mock'' = Some mock_spec"
proof -
  obtain rt where rt: "build_runtime w s True None = Inr rt"
    by (simp add: build_runtime_def assms get_extractor_def builtin_registry_value)
  moreover have "rt_extract rt = (\<lambda>owner rec. mock_extract (llm_str (w_llm w)) (w_clock w rec) owner rec)"
    using build_runtime_cases [OF rt] assms(1) by (auto simp: get_extractor_def)
  moreover have "map_of (rt_registry rt) ''mock'' = Some mock_spec"
    using build_runtime_registry [OF rt] by (simp add: builtin_registry_value)
  ultimately show ?thesis using that build_runtime_cases [OF rt] by metis
qed

lemma mock_fetches:
  assumes "rt_settings rt = s" "map_of (rt_registry rt) ''mock'' = Some mock_spec" "source_enabled s ''mock''"
  shows "fetch rt (start_state owner ''mock'' since session)
     = Inr ((start_state owner ''mock'' since session)\<lparr>is_records := fixtures_since since\<rparr>)"
  using assms
  by (simp add: fetch_def reg_connector_def reg_spec_def start_state_def mock_spec_def mock_build_def
      mock_fetch_def fixtures_since_def)

lemma mock_job_returns:
  assumes "store_ok G" "\<not> use_llm_extractor s" "\<not> use_real_embedder s" "0 < embedding_dim s"
    and "source_enabled s ''mock''" "apply_migrations (w_ddl w) (embedding_dim s) = Inr ()" "job_source j = ''mock''"
  shows "\<exists>res G' cands. ingest_source w s j G = (Inr (result_dict res), G')
    \<and> ir_records res = length (fixtures_since (job_since_ms j))
    \<and> map_e (\<lambda>r. mock_extract (llm_str (w_llm w)) (w_clock w r) (job_owner_id j) r)
        (fixtures_since (job_since_ms j)) = Inr cands
    \<and> (\<forall>cand \<in> set cands. \<forall>c \<in> set (cand_claims cand). store_get G' (clm_id c) \<noteq> None)"
proof -
  obtain rt where rt: "build_runtime w s True None = Inr rt" "rt_settings rt = s" "rt_embed rt = get_embedder s"
    "rt_extract rt = (\<lambda>owner rec. mock_extract (llm_str (w_llm w)) (w_clock w rec) owner rec)"
    "map_of (rt_registry rt) ''mock'' = Some mock_spec"
    by (rule mock_mode_runtime [OF assms(2,6)])
  have emb: "\<exists>v. rt_embed rt t = Inr v" for t
    using embed_returns [OF assms(4)] assms(3) by (simp add: rt(3) get_embedder_def)
  obtain cands where cands: "map_e (\<lambda>r. mock_extract (llm_str (w_llm w)) (w_clock w r) (job_owner_id j) r)
      (fixtures_since (job_since_ms j)) = Inr cands"
    using fixtures_extracted by blast
  note fetched = mock_fetches [OF rt(2,5) assms(5), of "job_owner_id j" "job_since_ms j" "job_session_token j"]
  have "map_e (rt_extract rt (job_owner_id j)) (fixtures_since (job_since_ms j)) = Inr cands"
    using cands by (simp add: rt(4))
  with run_returns [OF emb assms(1) fetched]
  obtain res G' where "run_ingestion rt (job_owner_id j) ''mock'' (job_since_ms j) (job_session_token j) G = (Inr res, G')"
    "ir_records res = length (fixtures_since (job_since_ms j))"
    "\<forall>cand \<in> set cands. \<forall>c \<in> set (cand_claims cand). store_get G' (clm_id c) \<noteq> None"
    by auto
  moreover from this have "ingest_source w s j G = (Inr (result_dict res), G')"
    by (simp add: ingest_source_def rt(1) assms(7))
  ultimately show ?thesis using cands by blast
qed

text \<open>C12: an ingestion job of the fixture source completes. In mock mode, with a positive dimension and a
  database that takes the schema statements, the task returns on every well-formed store,
  whatever the gateway does and for every owner, starting time and session token; and then
  every claim the extractor finds in the records is in the store.\<close>

theorem job_completes:
  assumes "store_ok G" "\<not> use_llm_extractor s" "\<not> use_real_embedder s" "0 < embedding_dim s"
    and "source_enabled s ''mock''" "apply_migrations (w_ddl w) (embedding_dim s) = Inr ()" "job_source j = ''mock''"
  shows "\<exists>res G' cands. ingest_source w s j G = (Inr (result_dict res), G')
    \<and> ir_records res = length (fixtures_since (job_since_ms j))
    \<and> map_e (\<lambda>r. mock_extract (llm_str (w_llm w)) (w_clock w r) (job_owner_id j) r)
        (fixtures_since (job_since_ms j)) = Inr cands
    \<and> (\<forall>cand \<in> set cands. \<forall>c \<in> set (cand_claims cand). store_get G' (clm_id c) \<noteq> None)"
  by (rule mock_job_returns [OF assms])

lemma sample_job:
  shows "store_ok empty_graph" "\<not> use_llm_extractor default_settings" "\<not> use_real_embedder default_settings"
    "0 < embedding_dim default_settings" "source_enabled default_settings ''mock''"
    "apply_migrations (w_ddl sample_world) (embedding_dim default_settings) = Inr ()"
    "job_source (job_of sample_request) = ''mock''"
proof -
  show "apply_migrations (w_ddl sample_world) (embedding_dim default_settings) = Inr ()"
    unfolding apply_migrations_def by (subst fold_e_total [where g = "\<lambda>_ u. u"]) (auto simp: sample_world_def)
qed (simp_all add: empty_store_ok source_enabled_def job_of_def sample_request_def, simp_all add: default_settings_def)

theorem job_completes_witness:
  "\<exists>res G'. ingest_source sample_world default_settings (job_of sample_request) empty_graph = (Inr (result_dict res), G')
     \<and> ir_records res = 7"
proof -
  have "length (fixtures_since (job_since_ms (job_of sample_request))) = 7"
    by (simp add: fixtures_since_def fixtures_def fixture_def base_ms_def day_ms_def job_of_def sample_request_def)
  with job_completes [OF sample_job] show ?thesis by metis
qed

section \<open>A second job\<close>

lemma retimed_ids:
  assumes "map_e (\<lambda>r. mock_extract fmt (clock r) owner r) rs = Inr cands"
  shows "\<exists>cands'. map_e (\<lambda>r. mock_extract fmt (clock' r) owner r) rs = Inr cands' \<and> claim_ids cands' = claim_ids cands"
  using assms
proof (induction rs arbitrary: cands)
  case (Cons r rs)
  obtain cand rest where c: "mock_extract fmt (clock r) owner r = Inr cand" "cands = cand # rest"
    "map_e (\<lambda>r. mock_extract fmt (clock r) owner r) rs = Inr rest"
    using Cons.prems by (auto elim!: bind_e_InrE)
  obtain rest' where r': "map_e (\<lambda>r. mock_extract fmt (clock' r) owner r) rs = Inr rest'" "claim_ids rest' = claim_ids rest"
    using Cons.IH [OF c(3)] by blast
  have "mock_extract fmt (clock' r) owner r = Inr (retime (clock' r) cand)"
    using mock_extract_retimed [of fmt "clock' r" owner r "clock r"] c(1) by simp
  moreover have "clm_id ` set (cand_claims (retime t cand)) = clm_id ` set (cand_claims cand)" for t
    by (auto simp: retime_def retime_claim_def image_image)
  ultimately show ?case using r' c(2) by (simp add: claim_ids_def)
qed simp

text \<open>C15: a second job adds no claim. With the rule-based extractor, a job that completed, run again at
  another time, with another session and another gateway, model and database driver, leaves
  the claims of the store exactly as they were, even when it fails half-way; when it completes
  it reports no new claim, no supersession and no contradiction.\<close>

theorem second_job_adds_no_claim:
  assumes "store_ok G" "\<not> use_llm_extractor s"
    and "ingest_source w s j G = (Inr res1, G1)"
    and "ingest_source w' s (j\<lparr>job_session_token := session'\<rparr>) G1 = (res2, G2)"
    and "w_fs w' = w_fs w" "llm_str (w_llm w') = llm_str (w_llm w)"
  shows "stored_claim G2 = stored_claim G1
    \<and> (case res2 of Inl e \<Rightarrow> True
       | Inr d \<Rightarrow> json_get ''claims'' d = Some (JInt 0) \<and> json_get ''supersessions'' d = Some (JArr [])
           \<and> json_get ''contradictions'' d = Some (JArr []))"
  using ingest_source_cases [OF assms(4)]
proof cases
  case (1 e)
  then show ?thesis by simp
next
  case (2 rt' r2)
  obtain rt r1 where rt: "build_runtime w s True None = Inr rt"
    "run_ingestion rt (job_owner_id j) (job_source j) (job_since_ms j) (job_session_token j) G = (Inr r1, G1)"
    by (rule ingest_source_returned [OF assms(3)])
  have ex: "rt_extract rt = (\<lambda>owner rec. mock_extract (llm_str (w_llm w)) (w_clock w rec) owner rec)"
    "rt_extract rt' = (\<lambda>owner rec. mock_extract (llm_str (w_llm w)) (w_clock w' rec) owner rec)"
    using build_runtime_cases [OF rt(1)] build_runtime_cases [OF 2(1)] assms(2,6) by (auto simp: get_extractor_def)
  have same: "rt_registry rt' = rt_registry rt" "rt_settings rt' = rt_settings rt"
    using build_runtime_registry [OF rt(1)] build_runtime_registry [OF 2(1)]
      build_runtime_cases [OF rt(1)] build_runtime_cases [OF 2(1)] assms(5) by auto
  obtain st1 cands where f: "fetch rt (start_state (job_owner_id j) (job_source j) (job_since_ms j) (job_session_token j)) = Inr st1"
    "map_e (rt_extract rt (job_owner_id j)) (is_records st1) = Inr cands"
    by (rule run_extracted [OF rt(2)])
  have f': "fetch rt' (start_state (job_owner_id j) (job_source j) (job_since_ms j) session')
      = Inr (st1\<lparr>is_session := session'\<rparr>)"
    using f(1) unfolding fetch_def same start_state_def
    by (auto split: if_splits elim!: bind_e_InrE)
  obtain cands' where c': "map_e (rt_extract rt' (job_owner_id j)) (is_records st1) = Inr cands'"
    "claim_ids cands' = claim_ids cands"
    using retimed_ids [OF f(2) [unfolded ex]] unfolding ex by blast
  have run2: "run_ingestion rt' (job_owner_id j) (job_source j) (job_since_ms j) session' G1 = (r2, G2)"
    using 2(3) by simp
  have "stored_claim G2 = stored_claim G1 \<and>
      (\<forall>r. r2 = Inr r \<longrightarrow> ir_claims r = 0 \<and> ir_supersessions r = [] \<and> ir_contradictions r = [])"
    by (rule rerun_adds_no_claim [where cands' = cands', OF assms(1) rt(2) run2 f f']) (simp_all add: c')
  with 2(2) show ?thesis
    by (cases r2) (simp_all add: result_dict_def json_get_def pairs_json_def)
qed

theorem second_job_adds_no_claim_witness:
  "stored_claim (snd (ingest_source (sample_world\<lparr>w_clock := (\<lambda>r. 1737000000000), w_http := revoked_server\<rparr>)
       default_settings ((job_of sample_request)\<lparr>job_session_token := Some ''s''\<rparr>) (dp_graph sample_deployment)))
   = stored_claim (dp_graph sample_deployment)"
proof -
  let ?w = "sample_world\<lparr>w_clock := (\<lambda>r. 1737000000000), w_http := revoked_server\<rparr>"
  obtain d G1 where first: "ingest_source sample_world default_settings (job_of sample_request) empty_graph = (Inr d, G1)"
    using mock_job_returns [OF sample_job] by blast
  obtain res2 G2 where second: "ingest_source ?w default_settings ((job_of sample_request)\<lparr>job_session_token := Some ''s''\<rparr>) G1
      = (res2, G2)" by fastforce
  have "w_fs ?w = w_fs sample_world" "llm_str (w_llm ?w) = llm_str (w_llm sample_world)" by simp_all
  from second_job_adds_no_claim [OF sample_job(1,2) first second this] first second
  show ?thesis by (simp add: sample_deployment_def)
qed

end
