(* ===== verification/Interleaving.thy ===== *)
theory Interleaving
  imports Service_Props
begin

text \<open>
  Several workers on one database. A job writes one statement at a time, and statements of
  different jobs interleave: \<open>upsert\<close> and \<open>link\<close> of \<open>storage/neo4j_store.py\<close> are one statement
  each, \<open>_mutate_claim\<close> is two, a read of the payload and a write of the changed payload. The
  write node of \<open>graphs/ingestion.py\<close> is restated as such statements, shown to do the same
  when a worker is alone, and then run among others.
\<close>

section \<open>Statements\<close>

datatype store_op =
    Put memory_node string
  | Relate string string string
  | Read_Claim string
  | Write_Back

text \<open>The claim a job has read and changed, not yet written, with the id it was read under.\<close>

type_synonym pending = "(string \<times> claim) option"

fun exec_op :: "runtime \<Rightarrow> store_op \<Rightarrow> graph \<times> pending \<Rightarrow> (graph \<times> pending) result" where
  "exec_op rt (Put node txt) (G, r) = bind_e (rt_embed rt txt) (\<lambda>emb. Inr (upsert node emb G, r))"
| "exec_op rt (Relate i rel j) (G, r) = bind_e (link i rel j G) (\<lambda>G'. Inr (G', r))"
| "exec_op rt (Read_Claim i) (G, r) =
     (case filter (is_claim_row i) (gnodes G) of
        [] \<Rightarrow> Inr (G, None)
      | row # _ \<Rightarrow> (case g_payload row of
            ClaimN c \<Rightarrow> Inr (G, Some (i, c\<lparr>status := Superseded\<rparr>))
          | _ \<Rightarrow> Inl (ValidationError i)))"
| "exec_op rt Write_Back (G, r) =
     Inr (case r of
         None \<Rightarrow> G
       | Some (i, c) \<Rightarrow>
           G\<lparr>gnodes := map (\<lambda>n. if is_claim_row i n then set_payload (ClaimN c) n else n) (gnodes G)\<rparr>, None)"

fun exec_ops :: "runtime \<Rightarrow> store_op list \<Rightarrow> graph \<times> pending \<Rightarrow> py_error option \<times> graph \<times> pending" where
  "exec_ops rt [] s = (None, s)"
| "exec_ops rt (p # ps) s = (case exec_op rt p s of Inl e \<Rightarrow> (Some e, s) | Inr s' \<Rightarrow> exec_ops rt ps s')"

section \<open>The statements of the write node\<close>

definition entity_ops :: "entity \<Rightarrow> store_op list" where
  "entity_ops e = [Put (EntityN e) (ent_name e @ '' '' @ py_join '' '' (ent_aliases e))]"

definition stored_event_ops :: "event \<Rightarrow> store_op list" where
  "stored_event_ops e = Put (EventN e) (summary e @ '' '' @ or_empty (body e))
     # map (Relate (evt_id e) ''MENTIONS'') (entity_ids e)
     @ map (\<lambda>c. Relate (evt_id e) ''CITES'' (cit_event_id c))
         (filter (\<lambda>c. cit_event_id c \<noteq> evt_id e) (prov_citations (evt_provenance e)))"

definition event_ops :: "raw_record list \<Rightarrow> (string \<times> sealed_body) list \<Rightarrow> event \<Rightarrow> store_op list" where
  "event_ops records sealed e =
     (case map_of sealed (sr_external_id (evt_source e)) of
        Some blob \<Rightarrow> stored_event_ops (e\<lparr>encrypted_content := Some (sb_ref blob), body := None\<rparr>)
      | None \<Rightarrow> if needs_seal records (sr_external_id (evt_source e)) then [] else stored_event_ops e)"

definition supersede_ops :: "string \<Rightarrow> string \<Rightarrow> store_op list" where
  "supersede_ops newer older = [Relate newer ''SUPERSEDES'' older, Read_Claim older, Write_Back]"

definition claim_ops :: "claim \<Rightarrow> store_op list" where
  "claim_ops c = Put (ClaimN c) (clm_statement c)
     # map (Relate (clm_id c) ''ABOUT'') (subject_entity_ids c)
     @ (case clm_commitment c of None \<Rightarrow> [] | Some m \<Rightarrow>
          Relate (clm_id c) ''OWED_BY'' (owed_by_entity_id m)
          # (case owed_to_entity_id m of None \<Rightarrow> []
               | Some t \<Rightarrow> if t \<noteq> [] then [Relate (clm_id c) ''OWED_TO'' t] else []))
     @ map (\<lambda>cit. Relate (clm_id c) ''CITES'' (cit_event_id cit)) (prov_citations (clm_provenance c))
     @ concat (map (supersede_ops (clm_id c)) (supersedes c))
     @ map (Relate (clm_id c) ''CONTRADICTS'') (contradicts c)"

definition candidate_ops :: "raw_record list \<Rightarrow> (string \<times> sealed_body) list \<Rightarrow> candidate \<Rightarrow> store_op list" where
  "candidate_ops records sealed cand =
     concat (map entity_ops (cand_entities cand))
     @ concat (map (event_ops records sealed) (cand_events cand))
     @ concat (map claim_ops (cand_claims cand))"

definition batch_ops :: "ingestion_state \<Rightarrow> store_op list" where
  "batch_ops st = concat (map (candidate_ops (is_records st) (is_sealed st)) (is_candidates st))"

section \<open>A worker alone\<close>

text \<open>Steps of the write node and statements that end alike: same exception, same graph, and nothing
  pending after a normal end.\<close>

definition same_run :: "runtime \<Rightarrow> write_step list \<Rightarrow> store_op list \<Rightarrow> bool" where
  "same_run rt fs ps \<longleftrightarrow> (\<forall>s. case run_steps fs s of (e, s') \<Rightarrow>
     (\<exists>r. exec_ops rt ps (fst s, None) = (e, fst s', r) \<and> (e = None \<longrightarrow> r = None)))"

lemma exec_ops_append:
  "exec_ops rt (ps @ qs) s = (case exec_ops rt ps s of (None, t) \<Rightarrow> exec_ops rt qs t | (Some e, t) \<Rightarrow> (Some e, t))"
  by (induction ps arbitrary: s) (auto split: sum.splits prod.splits option.splits)

lemma same_runD:
  assumes "same_run rt fs ps" "run_steps fs s = (e, s')"
  obtains r where "exec_ops rt ps (fst s, None) = (e, fst s', r)" "e = None \<longrightarrow> r = None"
proof -
  from assms(1) have "case run_steps fs s of (e, s') \<Rightarrow>
     (\<exists>r. exec_ops rt ps (fst s, None) = (e, fst s', r) \<and> (e = None \<longrightarrow> r = None))"
    unfolding same_run_def by (rule spec)
  with that show thesis unfolding assms(2) by (simp only: prod.case) blast
qed

lemma same_run_Nil [intro]: "same_run rt [] []"
  by (simp add: same_run_def)

lemma same_run_append [intro]:
  assumes "same_run rt fs ps" "same_run rt gs qs"
  shows "same_run rt (fs @ gs) (ps @ qs)"
  unfolding same_run_def
proof
  fix s
  obtain e s' where s': "run_steps fs s = (e, s')" by (cases "run_steps fs s")
  obtain r where r: "exec_ops rt ps (fst s, None) = (e, fst s', r)" "e = None \<longrightarrow> r = None"
    by (rule same_runD [OF assms(1) s'])
  show "case run_steps (fs @ gs) s of (e, s') \<Rightarrow>
     (\<exists>r. exec_ops rt (ps @ qs) (fst s, None) = (e, fst s', r) \<and> (e = None \<longrightarrow> r = None))"
  proof (cases e)
    case None
    obtain e2 s2 where s2: "run_steps gs s' = (e2, s2)" by (cases "run_steps gs s'")
    obtain r2 where "exec_ops rt qs (fst s', None) = (e2, fst s2, r2)" "e2 = None \<longrightarrow> r2 = None"
      by (rule same_runD [OF assms(2) s2])
    with None s' r s2 show ?thesis by (simp add: run_steps_append exec_ops_append)
  next
    case (Some x)
    with s' r show ?thesis by (simp add: run_steps_append exec_ops_append)
  qed
qed

lemma same_run_Cons: "same_run rt [f] [p] \<Longrightarrow> same_run rt fs ps \<Longrightarrow> same_run rt (f # fs) (p # ps)"
  using same_run_append [of rt "[f]" "[p]" fs ps] by simp

lemma same_run_concat: "(\<And>x. same_run rt (f x) (g x)) \<Longrightarrow> same_run rt (concat (map f xs)) (concat (map g xs))"
  by (induction xs) (auto intro: same_run_append)

lemma same_run_map: "(\<And>x. same_run rt [f x] [g x]) \<Longrightarrow> same_run rt (map f xs) (map g xs)"
  by (induction xs) (auto intro: same_run_Cons)

lemma same_run_notes: "same_run rt [note_written i] []" "same_run rt [note_error m] []"
  by (auto simp: same_run_def note_written_def note_error_def split: prod.splits)

lemma same_run_put: "same_run rt [put rt node t] [Put node t]"
  by (cases "rt_embed rt t") (auto simp: same_run_def put_def on_graph_def split: prod.splits)

lemma same_run_relate: "same_run rt [relate i rel j] [Relate i rel j]"
  by (auto simp: same_run_def relate_def on_graph_def split: prod.splits sum.splits)

lemma same_run_status: "same_run rt [on_graph (set_claim_status i (status_value Superseded))] [Read_Claim i, Write_Back]"
  unfolding same_run_def set_claim_status_def status_roundtrip
  by (auto simp del: status_value.simps simp: on_graph_def mutate_claim_def
      split: prod.splits list.splits memory_node.splits sum.splits)

lemma same_run_entity: "same_run rt (write_entity rt e) (entity_ops e)"
  unfolding write_entity_def entity_ops_def
  using same_run_append [OF same_run_put same_run_notes(1)] by simp

lemma same_run_stored_event: "same_run rt (store_event rt e) (stored_event_ops e)"
proof -
  have "same_run rt ([put rt (EventN e) (summary e @ '' '' @ or_empty (body e))] @ [note_written (evt_id e)]
        @ map (\<lambda>i. relate (evt_id e) ''MENTIONS'' i) (entity_ids e)
        @ map (\<lambda>c. relate (evt_id e) ''CITES'' (cit_event_id c))
            (filter (\<lambda>c. cit_event_id c \<noteq> evt_id e) (prov_citations (evt_provenance e))))
      ([Put (EventN e) (summary e @ '' '' @ or_empty (body e))] @ [] @ map (Relate (evt_id e) ''MENTIONS'') (entity_ids e)
        @ map (\<lambda>c. Relate (evt_id e) ''CITES'' (cit_event_id c))
            (filter (\<lambda>c. cit_event_id c \<noteq> evt_id e) (prov_citations (evt_provenance e))))"
    by (intro same_run_append same_run_map same_run_put same_run_relate same_run_notes)
  then show ?thesis by (simp add: store_event_def stored_event_ops_def)
qed

lemma same_run_event: "same_run rt (write_event rt records sealed e) (event_ops records sealed e)"
  by (simp add: write_event_def event_ops_def same_run_stored_event same_run_notes split: option.split)

lemma same_run_supersede:
  "same_run rt [relate i ''SUPERSEDES'' j, on_graph (set_claim_status j (status_value Superseded))] (supersede_ops i j)"
  using same_run_append [OF same_run_relate [of rt i "''SUPERSEDES''" j] same_run_status [of rt j]]
  by (simp only: supersede_ops_def append_Cons append_Nil)

lemma same_run_claim: "same_run rt (write_claim rt c) (claim_ops c)"
proof -
  have owed: "same_run rt (case clm_commitment c of None \<Rightarrow> [] | Some m \<Rightarrow>
          relate (clm_id c) ''OWED_BY'' (owed_by_entity_id m)
          # (case owed_to_entity_id m of None \<Rightarrow> []
               | Some t \<Rightarrow> if t \<noteq> [] then [relate (clm_id c) ''OWED_TO'' t] else []))
        (case clm_commitment c of None \<Rightarrow> [] | Some m \<Rightarrow>
          Relate (clm_id c) ''OWED_BY'' (owed_by_entity_id m)
          # (case owed_to_entity_id m of None \<Rightarrow> []
               | Some t \<Rightarrow> if t \<noteq> [] then [Relate (clm_id c) ''OWED_TO'' t] else []))"
  proof (cases "clm_commitment c")
    case (Some m)
    have "same_run rt (case owed_to_entity_id m of None \<Rightarrow> []
               | Some t \<Rightarrow> if t \<noteq> [] then [relate (clm_id c) ''OWED_TO'' t] else [])
        (case owed_to_entity_id m of None \<Rightarrow> []
               | Some t \<Rightarrow> if t \<noteq> [] then [Relate (clm_id c) ''OWED_TO'' t] else [])"
      by (cases "owed_to_entity_id m") (simp_all add: same_run_Nil same_run_relate)
    with Some show ?thesis by (simp only: option.case) (rule same_run_Cons [OF same_run_relate])
  qed (simp add: same_run_Nil)
  have "same_run rt ([put rt (ClaimN c) (clm_statement c)] @ [note_written (clm_id c)] @ fs)
      ([Put (ClaimN c) (clm_statement c)] @ [] @ ps)" if "same_run rt fs ps" for fs ps
    by (intro same_run_append same_run_put same_run_notes that)
  note head = this
  show ?thesis
    unfolding write_claim_def claim_ops_def append_Cons append_Nil
    by (rule head [unfolded append_Cons append_Nil]) (intro same_run_append same_run_map same_run_concat owed same_run_relate same_run_supersede)
qed

lemma same_run_batch: "same_run rt (batch_steps rt st) (batch_ops st)"
  unfolding batch_steps_def batch_ops_def write_candidate_def [abs_def] candidate_ops_def [abs_def]
  by (intro same_run_concat same_run_append same_run_entity same_run_event same_run_claim)


section \<open>Workers among others\<close>

record worker =
  wk_runtime :: runtime
  wk_ops :: "store_op list"
  wk_pending :: pending

record cluster =
  cl_graph :: graph
  cl_workers :: "worker list"

text \<open>A job starts writing what it prepared on some earlier or other state of the database; a worker runs
  its next statement; a worker stops, by an exception or by being killed.\<close>

inductive cluster_step :: "settings \<Rightarrow> cluster \<Rightarrow> cluster \<Rightarrow> bool" for s where
  cluster_start: "build_runtime w s True None = Inr rt \<Longrightarrow>
    prepare rt (start_state owner source since session) earlier = Inr st \<Longrightarrow>
    cluster_step s c (c\<lparr>cl_workers := cl_workers c @ [\<lparr>wk_runtime = rt, wk_ops = batch_ops st, wk_pending = None\<rparr>]\<rparr>)"
| cluster_write: "k < length (cl_workers c) \<Longrightarrow> wk_ops (cl_workers c ! k) = p # ps \<Longrightarrow>
    exec_op (wk_runtime (cl_workers c ! k)) p (cl_graph c, wk_pending (cl_workers c ! k)) = Inr (G', r) \<Longrightarrow>
    cluster_step s c \<lparr>cl_graph = G',
      cl_workers = (cl_workers c)[k := (cl_workers c ! k)\<lparr>wk_ops := ps, wk_pending := r\<rparr>]\<rparr>"
| cluster_stop: "k < length (cl_workers c) \<Longrightarrow>
    cluster_step s c (c\<lparr>cl_workers := (cl_workers c)[k := (cl_workers c ! k)\<lparr>wk_ops := []\<rparr>]\<rparr>)"

inductive reachable_cluster :: "settings \<Rightarrow> graph \<Rightarrow> cluster \<Rightarrow> bool" for s G0 where
  cluster_new: "reachable_cluster s G0 \<lparr>cl_graph = G0, cl_workers = []\<rparr>"
| cluster_more: "reachable_cluster s G0 c \<Longrightarrow> cluster_step s c c' \<Longrightarrow> reachable_cluster s G0 c'"

section \<open>The invariant of every interleaving\<close>

text \<open>What a row guarantees whatever the interleaving: its payload is sound, and a confidential event
  shows no more than its summary.\<close>

definition safe_row :: "gnode \<Rightarrow> bool" where
  "safe_row n \<longleftrightarrow> sound_node (g_payload n) \<and> (case g_payload n of
      EventN e \<Rightarrow> acl_sensitivity (evt_acl e) = Confidential \<longrightarrow> g_text n = py_strip (summary e @ '' '')
    | _ \<Rightarrow> True)"

definition safe_store :: "graph \<Rightarrow> bool" where
  "safe_store G \<longleftrightarrow> store_ok G \<and> list_all safe_row (gnodes G)"

definition safe_op :: "store_op \<Rightarrow> bool" where
  "safe_op p \<longleftrightarrow> (case p of Put node txt \<Rightarrow> sound_node node | _ \<Rightarrow> True)"

definition safe_pending :: "pending \<Rightarrow> bool" where
  "safe_pending r \<longleftrightarrow> (case r of None \<Rightarrow> True | Some (i, c) \<Rightarrow> clm_id c = i \<and> status c = Superseded \<and> sound_node (ClaimN c))"

definition safe_worker :: "worker \<Rightarrow> bool" where
  "safe_worker wk \<longleftrightarrow> list_all safe_op (wk_ops wk) \<and> safe_pending (wk_pending wk)"

lemma safe_row_of: "sound_node node \<Longrightarrow> safe_row (row_of node emb)"
  using sound_row_of [of node emb] by (auto simp: sound_row_def safe_row_def split: memory_node.splits)

lemma write_back_ok:
  assumes "store_ok G" "clm_id c = i"
  shows "store_ok (G\<lparr>gnodes := map (\<lambda>n. if is_claim_row i n then set_payload (ClaimN c) n else n) (gnodes G)\<rparr>)"
proof -
  have "row_ok (set_payload (ClaimN c) n)" if "is_claim_row i n" for n
    using that assms(2) by (simp add: row_ok_def is_claim_row_def)
  with assms(1) show ?thesis
    by (auto simp: store_ok_def keys_def keys_set_payload simp del: map_map)
qed

lemma exec_op_safe:
  assumes "safe_store G" "safe_pending r" "safe_op p" "exec_op rt p (G, r) = Inr (G', r')"
  shows "safe_store G' \<and> safe_pending r'"
proof (cases p)
  case (Put node t)
  with assms safe_row_of [of node] show ?thesis
    by (auto simp: safe_op_def safe_store_def upsert_ok list_all_iff set_gnodes_upsert elim!: bind_e_InrE)
next
  case (Relate i rel j)
  with assms(4) have l: "link i rel j G = Inr G'" and "r' = r" by (auto elim!: bind_e_InrE)
  with assms(1,2) link_ok [of G i rel j G'] show ?thesis by (simp add: safe_store_def link_facts(1) [OF l])
next
  case (Read_Claim i)
  show ?thesis
  proof (cases "filter (is_claim_row i) (gnodes G)")
    case Nil
    with Read_Claim assms show ?thesis by (simp add: safe_pending_def)
  next
    case (Cons n ns)
    then have n: "n \<in> set (gnodes G)" "is_claim_row i n" using filter_eq_ConsD [OF Cons] by auto
    obtain c where c: "g_payload n = ClaimN c" "G' = G" "r' = Some (i, c\<lparr>status := Superseded\<rparr>)"
      using assms(4) Cons by (auto simp: Read_Claim split: memory_node.splits)
    have "row_ok n" "safe_row n" using assms(1) n(1) by (auto simp: safe_store_def list_all_iff store_ok_def)
    with n(2) c have "clm_id c = i" "sound_node (ClaimN (c\<lparr>status := Superseded\<rparr>))"
      by (auto simp: row_ok_def is_claim_row_def safe_row_def sound_node_def)
    with c assms(1) show ?thesis by (simp add: safe_pending_def)
  qed
next
  case Write_Back
  show ?thesis
  proof (cases r)
    case None
    with Write_Back assms show ?thesis by (simp add: safe_pending_def)
  next
    case (Some ic)
    obtain i c where ic: "ic = (i, c)" by (cases ic)
    with Some assms(2) have c: "clm_id c = i" "sound_node (ClaimN c)" by (simp_all add: safe_pending_def)
    have G': "G' = G\<lparr>gnodes := map (\<lambda>n. if is_claim_row i n then set_payload (ClaimN c) n else n) (gnodes G)\<rparr>" "r' = None"
      using assms(4) by (simp_all add: Write_Back Some ic)
    have "safe_row (set_payload (ClaimN c) n)" for n using c(2) by (simp add: safe_row_def)
    with assms(1) write_back_ok [OF _ c(1), of G] show ?thesis
      by (auto simp: G' safe_store_def safe_pending_def list_all_iff)
  qed
qed

text \<open>The objects a job writes are those of its prepared batch.\<close>

lemma event_ops_alt: "event_ops records sealed e = (case event_to_store records sealed e of
    None \<Rightarrow> [] | Some e' \<Rightarrow> stored_event_ops e')"
  by (simp add: event_ops_def event_to_store_def split: option.splits)

lemma batch_ops_nodes:
  assumes "Put node t \<in> set (batch_ops st)"
  shows "node \<in> batch_nodes st"
proof -
  obtain cand where cand: "cand \<in> set (is_candidates st)"
    "Put node t \<in> set (candidate_ops (is_records st) (is_sealed st) cand)"
    using assms by (auto simp: batch_ops_def)
  have claims: "Put node t \<in> set (claim_ops c) \<Longrightarrow> node = ClaimN c" for c
    by (auto simp: claim_ops_def supersede_ops_def split: option.splits if_splits)
  have events: "Put node t \<in> set (stored_event_ops e) \<Longrightarrow> node = EventN e" for e
    by (auto simp: stored_event_ops_def)
  have "node \<in> nodes_of (is_records st) (is_sealed st) cand"
    using cand(2) claims events
    by (fastforce simp: candidate_ops_def nodes_of_def entity_ops_def event_ops_alt split: option.splits)
  with cand(1) show ?thesis by (auto simp: batch_nodes_def)
qed

lemma started_worker_safe:
  assumes "build_runtime w s True None = Inr rt" "prepare rt st0 earlier = Inr st"
  shows "safe_worker \<lparr>wk_runtime = rt, wk_ops = batch_ops st, wk_pending = None\<rparr>"
proof -
  have "safe_op p" if p: "p \<in> set (batch_ops st)" for p
  proof (cases p)
    case (Put node t)
    from prepared_sound [OF runtime_extractor_ok [OF assms(1)] assms(2) batch_ops_nodes] p Put
    show ?thesis by (auto simp: safe_op_def)
  qed (simp_all add: safe_op_def)
  then show ?thesis by (simp add: safe_worker_def safe_pending_def list_all_iff)
qed

lemma cluster_step_safe:
  assumes "cluster_step s c c'" "safe_store (cl_graph c) \<and> list_all safe_worker (cl_workers c)"
  shows "safe_store (cl_graph c') \<and> list_all safe_worker (cl_workers c')"
  using assms(1)
proof cases
  case (cluster_start w rt owner source since session earlier st)
  with started_worker_safe [OF cluster_start(2,3)] assms(2) show ?thesis by simp
next
  case (cluster_write k p ps G' r)
  let ?wk = "cl_workers c ! k"
  have wk: "safe_worker ?wk" using assms(2) cluster_write(2) by (simp add: list_all_length)
  then have "safe_op p" "list_all safe_op ps" "safe_pending (wk_pending ?wk)"
    by (simp_all add: safe_worker_def cluster_write(3))
  with exec_op_safe [OF _ _ _ cluster_write(4)] assms(2)
  have "safe_store G'" "safe_worker (?wk\<lparr>wk_ops := ps, wk_pending := r\<rparr>)" by (simp_all add: safe_worker_def)
  with assms(2) show ?thesis
    by (auto simp: cluster_write(1) list_all_iff dest!: set_update_subset_insert [THEN subsetD])
next
  case (cluster_stop k)
  have "safe_worker ((cl_workers c ! k)\<lparr>wk_ops := []\<rparr>)"
    using assms(2) cluster_stop(2) by (simp add: list_all_length safe_worker_def)
  with assms(2) show ?thesis
    by (auto simp: cluster_stop(1) list_all_iff dest!: set_update_subset_insert [THEN subsetD])
qed

lemma reachable_cluster_safe:
  assumes "reachable_cluster s G0 c" "safe_store G0"
  shows "safe_store (cl_graph c) \<and> list_all safe_worker (cl_workers c)"
  using assms by induction (auto dest: cluster_step_safe)


section \<open>What no interleaving undoes\<close>

definition store_grows :: "graph \<Rightarrow> graph \<Rightarrow> bool" where
  "store_grows G G' \<longleftrightarrow> set (keys G) \<subseteq> set (keys G') \<and> set (gedges G) \<subseteq> set (gedges G')"

definition superseded_in :: "graph \<Rightarrow> string \<Rightarrow> bool" where
  "superseded_in G i \<longleftrightarrow> (case stored_claim G i of Some c \<Rightarrow> status c = Superseded | None \<Rightarrow> False)"

text \<open>The next statement of a worker puts the claim \<open>i\<close>.\<close>

definition puts_claim :: "string \<Rightarrow> store_op list \<Rightarrow> bool" where
  "puts_claim i ops \<longleftrightarrow> (case ops of Put (ClaimN c) txt # _ \<Rightarrow> clm_id c = i | _ \<Rightarrow> False)"

lemma store_grows_refl [simp]: "store_grows G G"
  by (simp add: store_grows_def)

lemma store_grows_trans: "store_grows G G' \<Longrightarrow> store_grows G' G'' \<Longrightarrow> store_grows G G''"
  by (auto simp: store_grows_def)

lemma exec_op_grows:
  assumes "exec_op rt p (G, r) = Inr (G', r')"
  shows "store_grows G G'"
proof (cases p)
  case (Put node t)
  with assms show ?thesis by (auto simp: store_grows_def keys_upsert elim!: bind_e_InrE)
next
  case (Relate i rel j)
  with assms have l: "link i rel j G = Inr G'" by (auto elim!: bind_e_InrE)
  show ?thesis by (auto simp: store_grows_def keys_def link_facts(1,2) [OF l])
next
  case (Read_Claim i)
  with assms show ?thesis by (auto split: list.splits memory_node.splits)
next
  case Write_Back
  with assms show ?thesis
    by (auto simp: store_grows_def keys_def keys_set_payload simp del: map_map set_map split: option.splits prod.splits)
qed

lemma write_back_stored:
  assumes "store_ok G" "clm_id c = i" "stored_claim G j = Some d"
  shows "stored_claim (G\<lparr>gnodes := map (\<lambda>n. if is_claim_row i n then set_payload (ClaimN c) n else n) (gnodes G)\<rparr>) j
    = Some (if j = i then c else d)"
proof -
  obtain n where n: "n \<in> set (gnodes G)" "g_label n = ''Claim''" "g_id n = j" "g_payload n = ClaimN d"
    using assms(3) by (auto simp: stored_claim_iff [OF assms(1)])
  let ?m = "if is_claim_row i n then set_payload (ClaimN c) n else n"
  have "?m \<in> set (map (\<lambda>n. if is_claim_row i n then set_payload (ClaimN c) n else n) (gnodes G))"
    using n(1) by simp
  moreover have "g_label ?m = ''Claim''" "g_id ?m = j" "g_payload ?m = ClaimN (if j = i then c else d)"
    using n(2-4) by (auto simp: is_claim_row_def)
  ultimately show ?thesis
    unfolding stored_claim_iff [OF write_back_ok [OF assms(1,2)]] by (auto simp del: set_map)
qed

lemma exec_op_superseded:
  assumes "safe_store G" "safe_pending r" "exec_op rt p (G, r) = Inr (G', r')"
    and "superseded_in G i" "\<not> puts_claim i (p # ps)"
  shows "superseded_in G' i"
proof -
  have ok: "store_ok G" using assms(1) by (simp add: safe_store_def)
  obtain d where d: "stored_claim G i = Some d" "status d = Superseded"
    using assms(4) by (auto simp: superseded_in_def split: option.splits)
  show ?thesis
  proof (cases p)
    case (Put node t)
    then obtain emb where "G' = upsert node emb G" using assms(3) by (auto elim!: bind_e_InrE)
    with Put assms(5) d show ?thesis
      by (auto simp: superseded_in_def puts_claim_def stored_claim_upsert [OF ok] split: memory_node.splits)
  next
    case (Relate j rel k)
    with assms(3) have l: "link j rel k G = Inr G'" by (auto elim!: bind_e_InrE)
    from d show ?thesis by (simp add: superseded_in_def stored_claim_link [OF l])
  next
    case (Read_Claim j)
    with assms(3,4) show ?thesis by (auto split: list.splits memory_node.splits)
  next
    case Write_Back
    show ?thesis
    proof (cases r)
      case None
      with Write_Back assms(3,4) show ?thesis by simp
    next
      case (Some jc)
      obtain j c where jc: "jc = (j, c)" by (cases jc)
      with Some assms(2) have c: "clm_id c = j" "status c = Superseded" by (simp_all add: safe_pending_def)
      with d Write_Back Some jc assms(3) write_back_stored [OF ok c(1) d(1)] show ?thesis
        by (auto simp: superseded_in_def)
    qed
  qed
qed

lemma cluster_step_grows: "cluster_step s c c' \<Longrightarrow> store_grows (cl_graph c) (cl_graph c')"
  by (induction rule: cluster_step.induct) (auto dest: exec_op_grows)

lemma reachable_cluster_grows: "reachable_cluster s G0 c \<Longrightarrow> store_grows G0 (cl_graph c)"
  by (induction rule: reachable_cluster.induct) (auto dest: cluster_step_grows store_grows_trans)

lemma cluster_step_superseded:
  assumes "safe_store (cl_graph c) \<and> list_all safe_worker (cl_workers c)" "cluster_step s c c'"
    and "superseded_in (cl_graph c) i" "list_all (\<lambda>wk. \<not> puts_claim i (wk_ops wk)) (cl_workers c)"
  shows "superseded_in (cl_graph c') i"
  using assms(2)
proof cases
  case (cluster_write k p ps G' r)
  have "safe_pending (wk_pending (cl_workers c ! k))" "\<not> puts_claim i (p # ps)"
    using assms(1,4) cluster_write(2,3) by (auto simp: list_all_length safe_worker_def)
  with exec_op_superseded [OF _ _ cluster_write(4) assms(3)] assms(1) cluster_write(1) show ?thesis by simp
qed (use assms(3) in simp_all)

section \<open>Properties\<close>

text \<open>C6: no interleaving of jobs harms the store. Whatever the number of workers, whatever each prepared and on
  which earlier state, and wherever one is cut off between two statements, the store that was well
  formed stays so, each payload stays sound and each confidential event searchable by its summary
  only, and no row and no relationship of the beginning is lost.\<close>

theorem interleaved_sound:
  assumes "reachable_cluster s G0 c" "store_ok G0" "list_all safe_row (gnodes G0)"
  shows "store_ok (cl_graph c) \<and> list_all safe_row (gnodes (cl_graph c))
    \<and> set (keys G0) \<subseteq> set (keys (cl_graph c)) \<and> set (gedges G0) \<subseteq> set (gedges (cl_graph c))"
  using reachable_cluster_safe [OF assms(1)] reachable_cluster_grows [OF assms(1)] assms(2,3)
  by (simp add: safe_store_def store_grows_def)


text \<open>A put of a claim prepared before another worker superseded it makes it active again, with the
  relationship that says it was superseded in place; in the other order it stays superseded.\<close>

definition stored_status :: "string \<Rightarrow> store_op list \<Rightarrow> (claim_status option \<times> bool) option" where
  "stored_status i ops = (case exec_ops (sample_runtime down_server) ops (sample_store, None) of
     (e, G, r) \<Rightarrow> if e = None
       then Some (map_option status (stored_claim G i),
                  ((''Claim'', ''clm_8''), ''SUPERSEDES'', (''Claim'', i)) \<in> set (gedges G))
       else None)"

abbreviation superseding_ops :: "store_op list" where
  "superseding_ops \<equiv> claim_ops (incoming_sample\<lparr>supersedes := [''clm_7'']\<rparr>)"

abbreviation late_ops :: "store_op list" where
  "late_ops \<equiv> claim_ops stored_sample"

lemma late_write_revives:
  "stored_status ''clm_7'' (late_ops @ superseding_ops) = Some (Some Superseded, True) \<and>
   stored_status ''clm_7'' (superseding_ops @ late_ops) = Some (Some Active, True)"
  by code_simp


text \<open>A job of the fixture source that has prepared its batch, beside a store it did not see.\<close>

lemma sample_worker:
  "\<exists>wk. \<forall>c. cluster_step default_settings c (c\<lparr>cl_workers := cl_workers c @ [wk]\<rparr>)"
proof -
  note job = sample_job
  obtain rt where rt: "build_runtime sample_world default_settings True None = Inr rt" "rt_settings rt = default_settings"
    "rt_extract rt = (\<lambda>owner rec. mock_extract (llm_str (w_llm sample_world)) (w_clock sample_world rec) owner rec)"
    "map_of (rt_registry rt) ''mock'' = Some mock_spec"
    by (rule mock_mode_runtime [OF job(2,6)])
  obtain cands where "map_e (rt_extract rt ''o'') (fixtures_since 0) = Inr cands"
    unfolding rt(3) using fixtures_extracted by blast
  then have "\<exists>st. prepare rt (start_state ''o'' ''mock'' 0 None) empty_graph = Inr st"
    by (simp add: prepare_def extract_node_def mock_fetches [OF rt(2,4) job(5)]) (simp add: start_state_def)
  then obtain st where "prepare rt (start_state ''o'' ''mock'' 0 None) empty_graph = Inr st" ..
  from cluster_start [OF rt(1) this] show ?thesis by blast
qed

definition superseded_store :: graph where
  "superseded_store = sample_store\<lparr>gnodes := [row_of (EntityN sample_entity) [],
     row_of (ClaimN (stored_sample\<lparr>status := Superseded\<rparr>)) []]\<rparr>"

lemma superseded_store_safe: "store_ok superseded_store" "list_all safe_row (gnodes superseded_store)"
  "superseded_in superseded_store ''clm_7''"
  by (simp_all add: store_ok_def keys_def superseded_in_def stored_claim_def is_claim_row_def superseded_store_def
      sample_store_def safe_row_def sound_node_def sample_entity_def stored_sample_def sample_claim_def sample_acl_def)

theorem interleaved_sound_witness:
  "\<exists>c :: cluster. length (cl_workers c) = 2 \<and> store_ok (cl_graph c) \<and> list_all safe_row (gnodes (cl_graph c))
    \<and> set (keys superseded_store) \<subseteq> set (keys (cl_graph c))"
proof -
  obtain wk where wk: "\<And>c. cluster_step default_settings c (c\<lparr>cl_workers := cl_workers c @ [wk]\<rparr>)"
    using sample_worker by blast
  from cluster_more [OF cluster_more [OF cluster_new wk] wk]
  have "reachable_cluster default_settings superseded_store \<lparr>cl_graph = superseded_store, cl_workers = [wk, wk]\<rparr>"
    by simp
  from interleaved_sound [OF this superseded_store_safe(1,2)] show ?thesis
    by (intro exI [of _ "\<lparr>cl_graph = superseded_store, cl_workers = [wk, wk]\<rparr>"]) simp
qed


end
