(* ===== verification/Noninterference.thy ===== *)
theory Noninterference
  imports Neighbourhood_Props Service_Props
begin

text \<open>
  Two databases that differ in the content of denied objects only give the same answers at
  every entry point of the API. The theories of the four reads compare runs on candidate
  lists; here the statements of \<open>storage/neo4j_store.py\<close> are compared on the two databases, so
  that the comparison starts at what is stored.
\<close>

section \<open>Databases a grant cannot tell apart\<close>

definition row_decision :: "scope \<Rightarrow> int \<Rightarrow> gnode \<Rightarrow> permission_decision" where
  "row_decision sc now n = evaluate now sc (node_acl (g_payload n)) (Some now)"

text \<open>Equal rows, or rows of one key, owner and time that the grant denies for the same reason. The
  links of a claim are part of its shape: its \<open>SUPERSEDES\<close> ids, the claim it was reconciled
  into, the time it was asserted.\<close>

definition same_links :: "memory_node \<Rightarrow> memory_node \<Rightarrow> bool" where
  "same_links a b \<longleftrightarrow> (case (a, b) of
      (ClaimN c, ClaimN d) \<Rightarrow> supersedes c = supersedes d \<and> reconciled_into c = reconciled_into d
        \<and> asserted_at_ms c = asserted_at_ms d
    | _ \<Rightarrow> True)"

definition alike_row :: "scope \<Rightarrow> int \<Rightarrow> gnode \<Rightarrow> gnode \<Rightarrow> bool" where
  "alike_row sc now n m \<longleftrightarrow> n = m \<or>
     gkey n = gkey m \<and> g_owner_id n = g_owner_id m \<and> g_occurred_at_ms n = g_occurred_at_ms m
     \<and> row_decision sc now n = row_decision sc now m \<and> \<not> allowed (row_decision sc now n)
     \<and> same_links (g_payload n) (g_payload m)"

definition alike_store :: "scope \<Rightarrow> int \<Rightarrow> graph \<Rightarrow> graph \<Rightarrow> bool" where
  "alike_store sc now G G' \<longleftrightarrow> gedges G = gedges G' \<and> list_all2 (alike_row sc now) (gnodes G) (gnodes G')"

lemma alike_row_shape:
  assumes "alike_row sc now n m"
  shows "gkey n = gkey m" "g_owner_id n = g_owner_id m" "g_occurred_at_ms n = g_occurred_at_ms m"
    "g_id n = g_id m" "g_label n = g_label m" "row_decision sc now n = row_decision sc now m"
  using assms by (auto simp: alike_row_def gkey_def)

lemma list_all2_filter:
  assumes "list_all2 R xs ys" "\<And>x y. R x y \<Longrightarrow> P x = Q y"
  shows "list_all2 R (filter P xs) (filter Q ys)"
  using assms(1) by (induction rule: list_all2_induct) (auto dest: assms(2))

lemma list_all2_same:
  assumes "list_all2 R xs ys" "\<And>x y. R x y \<Longrightarrow> f x = g y"
  shows "map f xs = map g ys"
  using assms(1) by (induction rule: list_all2_induct) (auto dest: assms(2))

lemma list_all2_concat:
  assumes "list_all2 R xs ys" "\<And>x y. R x y \<Longrightarrow> list_all2 S (f x) (g y)"
  shows "list_all2 S (concat (map f xs)) (concat (map g ys))"
  using assms(1) by (induction rule: list_all2_induct) (auto intro: list_all2_appendI dest: assms(2))

section \<open>The statements of the store\<close>

definition alike_stored :: "scope \<Rightarrow> int \<Rightarrow> stored_node \<Rightarrow> stored_node \<Rightarrow> bool" where
  "alike_stored sc now s t \<longleftrightarrow> (\<exists>n m. s = hydrate n \<and> t = hydrate m \<and> row_ok n \<and> row_ok m \<and> alike_row sc now n m)"

lemma alike_stored_shape:
  assumes "alike_stored sc now s t"
  shows "st_id s = st_id t" "st_label s = st_label t" "st_occurred_at_ms s = st_occurred_at_ms t"
  using assms by (auto simp: alike_stored_def alike_row_shape)

lemma alike_rows:
  assumes "alike_store sc now G G'" "store_ok G" "store_ok G'"
  shows "list_all2 (\<lambda>n m. alike_row sc now n m \<and> row_ok n \<and> row_ok m) (gnodes G) (gnodes G')"
  using assms by (auto simp: alike_store_def store_ok_def list_all2_conv_all_nth)

lemma alike_hydrated:
  assumes "list_all2 (\<lambda>n m. alike_row sc now n m \<and> row_ok n \<and> row_ok m) ns ms"
  shows "list_all2 (alike_stored sc now) (map hydrate ns) (map hydrate ms)"
  using assms by (auto simp: list_all2_map1 list_all2_map2 alike_stored_def elim!: list_all2_mono)

lemma alike_edges: "alike_store sc now G G' \<Longrightarrow> gedges G' = gedges G"
  by (simp add: alike_store_def)

lemma alike_owned: "alike_store sc now G G' \<Longrightarrow> owned G' = owned G"
proof (intro ext)
  fix owner k assume "alike_store sc now G G'"
  then have "list_all2 (alike_row sc now) (gnodes G) (gnodes G')" by (simp add: alike_store_def)
  then have "list_ex (\<lambda>n. gkey n = k \<and> g_owner_id n = owner) (gnodes G')
      = list_ex (\<lambda>n. gkey n = k \<and> g_owner_id n = owner) (gnodes G)"
    by (induction rule: list_all2_induct) (simp_all add: alike_row_shape del: gkey_eq)
  then show "owned G' owner k = owned G owner k" by (simp only: owned_def)
qed

text \<open>What is read from the seeds of a pattern on key and owner.\<close>

lemma alike_seeds:
  assumes "alike_store sc now G G'"
    and "\<And>n m. gkey n = gkey m \<Longrightarrow> g_owner_id n = g_owner_id m \<Longrightarrow> P n = P m"
  shows "concat (map (\<lambda>s. f (gkey s)) (filter P (gnodes G'))) = concat (map (\<lambda>s. f (gkey s)) (filter P (gnodes G)))"
proof -
  have "list_all2 (alike_row sc now) (gnodes G) (gnodes G')" using assms(1) by (simp add: alike_store_def)
  then have "list_all2 (alike_row sc now) (filter P (gnodes G)) (filter P (gnodes G'))"
    by (rule list_all2_filter) (rule assms(2) [OF alike_row_shape(1,2)])
  then have "map (\<lambda>s. f (gkey s)) (filter P (gnodes G)) = map (\<lambda>s. f (gkey s)) (filter P (gnodes G'))"
    by (rule list_all2_same) (simp only: alike_row_shape(1))
  then show ?thesis by (simp only:)
qed

lemma seed_patterns:
  assumes "gkey n = gkey m" "g_owner_id n = g_owner_id m"
  shows "(is_claim_row i n \<and> g_owner_id n = owner) = (is_claim_row i m \<and> g_owner_id m = owner)"
    "(g_id n = i \<and> g_owner_id n = owner) = (g_id m = i \<and> g_owner_id m = owner)"
    "(g_owner_id n = owner \<and> g_id n \<in> set ids) = (g_owner_id m = owner \<and> g_id m \<in> set ids)"
  using assms by (auto simp: gkey_def is_claim_row_def)

lemma alike_trails:
  assumes "alike_store sc now G G'"
  shows "owned_trails G' owner r h = owned_trails G owner r h" "rel_edges r G' = rel_edges r G"
  using alike_owned [OF assms] alike_edges [OF assms]
  by (simp_all add: owned_trails_def [abs_def] rel_edges_def)

lemma alike_get_many:
  assumes "alike_store sc now G G'" "store_ok G" "store_ok G'"
  shows "list_all2 (alike_stored sc now) (get_many G owner ids) (get_many G' owner ids)"
  unfolding get_many_def
  by (intro alike_hydrated list_all2_filter [OF alike_rows [OF assms]]) (auto dest: alike_row_shape)

lemma alike_chain_found:
  assumes "alike_store sc now G G'"
  shows "chain_found G' owner i h = chain_found G owner i h"
  unfolding chain_found_def chain_keys_def alike_trails [OF assms]
  by (rule alike_seeds [OF assms seed_patterns(1)])

lemma alike_chain:
  assumes "alike_store sc now G G'" "store_ok G" "store_ok G'"
  shows "list_all2 (alike_stored sc now) (supersession_chain G owner i h) (supersession_chain G' owner i h)"
  unfolding supersession_chain_found alike_chain_found [OF assms(1)]
  by (intro alike_hydrated sort_key_rel list_all2_filter [OF alike_rows [OF assms]])
    (auto dest: alike_row_shape simp: chain_order_def simp del: gkey_eq)

lemma alike_links:
  assumes "alike_store sc now G G'"
  shows "conflict_links G' owner ids = conflict_links G owner ids" "edges_among G' owner ids = edges_among G owner ids"
  unfolding conflict_links_def edges_among_def alike_owned [OF assms] alike_edges [OF assms] alike_trails(2) [OF assms]
  by (rule refl)+

lemma alike_cites:
  assumes "alike_store sc now G G'"
  shows "cites_chain G' owner i h = cites_chain G owner i h"
proof -
  have "concat (map (\<lambda>s. owned_trails G owner ''CITES'' h (gkey s)) (filter (\<lambda>n. g_id n = i \<and> g_owner_id n = owner) (gnodes G')))
      = concat (map (\<lambda>s. owned_trails G owner ''CITES'' h (gkey s)) (filter (\<lambda>n. g_id n = i \<and> g_owner_id n = owner) (gnodes G)))"
    by (rule alike_seeds [OF assms seed_patterns(2)])
  then show ?thesis by (simp only: cites_chain_def alike_trails [OF assms] Let_def)
qed

lemma alike_neighbours:
  assumes "alike_store sc now G G'"
  shows "neighbour_ids G' owner ids h = neighbour_ids G owner ids h"
proof -
  have "concat (map (\<lambda>s. trails (gedges G) h (gkey s) []) (filter (\<lambda>n. g_owner_id n = owner \<and> g_id n \<in> set ids) (gnodes G')))
      = concat (map (\<lambda>s. trails (gedges G) h (gkey s) []) (filter (\<lambda>n. g_owner_id n = owner \<and> g_id n \<in> set ids) (gnodes G)))"
    by (rule alike_seeds [OF assms seed_patterns(3)])
  then show ?thesis by (simp only: neighbour_ids_def alike_edges [OF assms] alike_owned [OF assms] Let_def)
qed

lemma alike_vector_search:
  assumes "alike_store sc now G G'" "store_ok G" "store_ok G'"
  shows "list_all2 (\<lambda>p q. alike_stored sc now (fst p) (fst q) \<and> snd p = snd q)
    (vector_search ann G owner emb k) (vector_search ann G' owner emb k)"
proof -
  have one: "list_all2 (\<lambda>p q. alike_stored sc now (fst p) (fst q) \<and> snd p = snd q)
      (concat (map (\<lambda>n. if gkey n = key then if g_owner_id n = owner then [(hydrate n, x)] else [] else []) (gnodes G)))
      (concat (map (\<lambda>n. if gkey n = key then if g_owner_id n = owner then [(hydrate n, x)] else [] else []) (gnodes G')))"
    for key and x :: real
  proof (rule list_all2_concat [OF alike_rows [OF assms]])
    fix n m assume nm: "alike_row sc now n m \<and> row_ok n \<and> row_ok m"
    then have "gkey n = gkey m" "g_owner_id n = g_owner_id m" by (blast dest: alike_row_shape)+
    moreover have "alike_stored sc now (hydrate n) (hydrate m)" using nm unfolding alike_stored_def by blast
    ultimately show "list_all2 (\<lambda>p q. alike_stored sc now (fst p) (fst q) \<and> snd p = snd q)
        (if gkey n = key then if g_owner_id n = owner then [(hydrate n, x)] else [] else [])
        (if gkey m = key then if g_owner_id m = owner then [(hydrate m, x)] else [] else [])"
      by (simp del: gkey_eq)
  qed
  have "list_all2 (\<lambda>p q. alike_stored sc now (fst p) (fst q) \<and> snd p = snd q)
      (concat (map (\<lambda>(key, x). concat (map (\<lambda>n. if gkey n = key then if g_owner_id n = owner then [(hydrate n, x)] else [] else [])
         (gnodes G))) hits))
      (concat (map (\<lambda>(key, x). concat (map (\<lambda>n. if gkey n = key then if g_owner_id n = owner then [(hydrate n, x)] else [] else [])
         (gnodes G'))) hits))" for hits :: "(key \<times> real) list"
  proof (induction hits)
    case (Cons hit hits)
    obtain key x where hit: "hit = (key, x)" by (cases hit)
    show ?case
      unfolding hit list.map concat.simps prod.case by (rule list_all2_appendI [OF one Cons])
  qed simp
  then show ?thesis unfolding vector_search_def by (rule list_all2_takeI)
qed

section \<open>The walks\<close>

lemma hist_decision_row [simp]: "hist_decision sc now (hist_candidate_of (hydrate n)) = row_decision sc now n"
  by (simp add: hist_decision_def row_decision_def hist_candidate_of_def)

lemma hist_candidate_fields [simp]:
  "hc_id (hist_candidate_of s) = st_id s" "hc_label (hist_candidate_of s) = st_label s"
  "hc_payload (hist_candidate_of s) = st_node s"
  by (simp_all add: hist_candidate_of_def)

lemma alike_node:
  "alike_stored sc now s t \<Longrightarrow> node_alike sc now (hist_candidate_of s) (hist_candidate_of t)"
  by (auto simp: alike_stored_def node_alike_def alike_row_def gkey_def)

lemma alike_claim:
  assumes "alike_stored sc now s t" "st_label s = ''Claim''"
  shows "hist_alike sc now (hist_candidate_of s) (hist_candidate_of t)"
proof -
  obtain n m where nm: "s = hydrate n" "t = hydrate m" "row_ok n" "row_ok m" "alike_row sc now n m"
    using assms(1) by (auto simp: alike_stored_def)
  have "g_label n = ''Claim''" "g_label m = ''Claim''"
    using assms(2) alike_row_shape(5) [OF nm(5)] by (simp_all add: nm(1))
  then obtain c d where cd: "g_payload n = ClaimN c" "g_payload m = ClaimN d"
    using nm(3,4) by (cases "g_payload n"; cases "g_payload m") (auto simp: row_ok_def)
  from nm(5) show ?thesis
    by (auto simp: nm(1,2) hist_alike_def alike_row_def same_links_def cd gkey_def)
qed

lemma alike_reconciled:
  assumes "list_all2 (alike_stored sc now) ss ts" "list_all (\<lambda>s. st_label s = ''Claim'') ss"
  shows "reconciled_ids ss = reconciled_ids ts"
  using assms
proof (induction rule: list_all2_induct)
  case (Cons s ss t ts)
  then have "hist_alike sc now (hist_candidate_of s) (hist_candidate_of t)" by (intro alike_claim) auto
  then have "(case st_node s of ClaimN c \<Rightarrow> nonempty (reconciled_into c) | _ \<Rightarrow> [])
      = (case st_node t of ClaimN c \<Rightarrow> nonempty (reconciled_into c) | _ \<Rightarrow> [])"
    by (auto simp: hist_alike_def hist_candidate_of_def split: memory_node.splits)
  with Cons show ?case by (simp add: reconciled_ids_def)
qed simp

lemma alike_claims_only:
  assumes "list_all2 (alike_stored sc now) ss ts"
  shows "list_all2 (hist_alike sc now) (map hist_candidate_of (filter (\<lambda>s. st_label s = ''Claim'') ss))
    (map hist_candidate_of (filter (\<lambda>s. st_label s = ''Claim'') ts))"
  using assms by (induction rule: list_all2_induct) (auto simp: alike_stored_shape alike_claim)

lemma alike_walk_shift:
  assumes "alike_store sc now G G'" "store_ok G" "store_ok G'"
  obtains ds where "walk_shift G' owner i = (walk_shift G owner i)\<lparr>wk_candidates := ds\<rparr>"
    "list_all2 (hist_alike sc now) (wk_candidates (walk_shift G owner i)) ds"
proof -
  note chain = alike_chain [OF assms, of owner i 24]
  have ids: "map st_id (supersession_chain G' owner i 24) = map st_id (supersession_chain G owner i 24)"
    by (rule list_all2_same [OF chain, symmetric]) (rule alike_stored_shape)
  have rec: "reconciled_ids (supersession_chain G' owner i 24) = reconciled_ids (supersession_chain G owner i 24)"
    by (rule alike_reconciled [OF chain, symmetric]) (simp add: list_all_iff chain_label)
  have hop: "map (\<lambda>s. (st_id s, 0 :: nat)) (supersession_chain G' owner i 24)
      = map (\<lambda>s. (st_id s, 0)) (supersession_chain G owner i 24)"
    by (rule list_all2_same [OF chain, symmetric]) (simp add: alike_stored_shape)
  have extra: "list_all2 (alike_stored sc now)
      (supersession_chain G owner i 24 @ (if xs \<noteq> [] then get_many G owner (sorted_set xs) else []))
      (supersession_chain G' owner i 24 @ (if xs \<noteq> [] then get_many G' owner (sorted_set xs) else []))" for xs
    by (intro list_all2_appendI chain) (simp add: alike_get_many [OF assms])
  let ?ds = "wk_candidates (walk_shift G' owner i)"
  have "walk_shift G' owner i = (walk_shift G owner i)\<lparr>wk_candidates := ?ds\<rparr>"
    unfolding walk_shift_def Let_def ids hop alike_links [OF assms(1)] by simp
  moreover have "list_all2 (hist_alike sc now) (wk_candidates (walk_shift G owner i)) ?ds"
    unfolding walk_shift_def Let_def ids rec alike_links [OF assms(1)] walked.simps
    by (rule alike_claims_only [OF extra])
  ultimately show thesis by (rule that)
qed

lemma alike_many:
  assumes "alike_store sc now G G'" "store_ok G" "store_ok G'"
  shows "list_all2 (node_alike sc now) (map hist_candidate_of (get_many G owner ids))
    (map hist_candidate_of (get_many G' owner ids))"
  unfolding list_all2_map1 list_all2_map2
  by (rule list_all2_mono [OF alike_get_many [OF assms] alike_node])

lemma alike_walk_context:
  assumes "alike_store sc now G G'" "store_ok G" "store_ok G'"
  obtains ds where "walk_context G' owner i h = (walk_context G owner i h)\<lparr>wk_candidates := ds\<rparr>"
    "list_all2 (node_alike sc now) (wk_candidates (walk_context G owner i h)) ds"
proof -
  let ?ds = "wk_candidates (walk_context G' owner i h)"
  note many = alike_many [OF assms]
  have "walk_context G' owner i h = (walk_context G owner i h)\<lparr>wk_candidates := ?ds\<rparr>"
    by (simp add: walk_context_def alike_cites [OF assms(1)] split: prod.split)
  moreover have "list_all2 (node_alike sc now) (wk_candidates (walk_context G owner i h)) ?ds"
    using many by (simp add: walk_context_def alike_cites [OF assms(1)] split: prod.split)
  ultimately show thesis by (rule that)
qed

lemma alike_walk_near:
  assumes "alike_store sc now G G'" "store_ok G" "store_ok G'"
  obtains ds where "walk_near G' owner seeds h = (walk_near G owner seeds h)\<lparr>nw_candidates := ds\<rparr>"
    "list_all2 (node_alike sc now) (nw_candidates (walk_near G owner seeds h)) ds"
proof -
  let ?ds = "nw_candidates (walk_near G' owner seeds h)"
  note many = alike_many [OF assms]
  have present: "map st_id (get_many G' owner ids) = map st_id (get_many G owner ids)" for ids
    by (rule list_all2_same [OF alike_get_many [OF assms], symmetric]) (rule alike_stored_shape)
  have "walk_near G' owner seeds h = (walk_near G owner seeds h)\<lparr>nw_candidates := ?ds\<rparr>"
    by (simp add: walk_near_def Let_def present near_hops_def alike_neighbours [OF assms(1)] alike_links [OF assms(1)]
        del: map_is_Nil_conv)
  moreover have "list_all2 (node_alike sc now) (nw_candidates (walk_near G owner seeds h)) ?ds"
    using many by (simp add: walk_near_def Let_def present near_hops_def alike_neighbours [OF assms(1)]
        del: map_is_Nil_conv)
  ultimately show thesis by (rule that)
qed

section \<open>The reads\<close>

lemma alike_denied_kept:
  assumes "list_all2 (node_alike sc now) cs ds" "list_all row_candidate cs" "list_all row_candidate ds"
  shows "visible_nodes (last_verdicts sc now cs) (Context_Props.nodes_in cs) = visible_nodes (last_verdicts sc now ds) (Context_Props.nodes_in ds)"
    "length (Context_Props.nodes_in cs) = length (Context_Props.nodes_in ds)"
proof -
  have same: "last_verdicts sc now cs = last_verdicts sc now ds"
    unfolding last_verdicts_def alike_maps(2) [OF assms(1)] ..
  have key: "node_id n = i" if "(i, n) \<in> set (Context_Props.nodes_in xs)" "list_all row_candidate xs" for i n xs
    by (rule nodes_in_mem [OF that(1)]) (use that(2) in \<open>auto simp: list_all_iff row_candidate_def\<close>)
  have rel: "list_all2 (\<lambda>(i, n) (j, m). i = j \<and> nodes.alike (verdict_of (last_verdicts sc now cs)) n m)
      (Context_Props.nodes_in cs) (Context_Props.nodes_in ds)"
    using nodes_in_alike [OF assms] by (simp add: nodes_alike_def)
  then show "length (Context_Props.nodes_in cs) = length (Context_Props.nodes_in ds)" by (rule list_all2_lengthD)
  have "list_all (\<lambda>(i, n). node_id n = i) (Context_Props.nodes_in cs)" using key [OF _ assms(2)] by (auto simp: list_all_iff)
  with rel have "filter (\<lambda>(i, n). verdict_of (last_verdicts sc now cs) i = None) (Context_Props.nodes_in cs)
      = filter (\<lambda>(i, n). verdict_of (last_verdicts sc now cs) i = None) (Context_Props.nodes_in ds)"
    by (induction rule: list_all2_induct) (auto simp: nodes.alike_def)
  then show "visible_nodes (last_verdicts sc now cs) (Context_Props.nodes_in cs) = visible_nodes (last_verdicts sc now ds) (Context_Props.nodes_in ds)"
    by (simp add: visible_nodes_def same)
qed

lemma answer_near_alike:
  assumes "list_all row_candidate (nw_candidates w)" "list_all row_candidate ds"
    and "list_all2 (node_alike sc now) (nw_candidates w) ds"
  shows "answer_near seeds h sc now (w\<lparr>nw_candidates := ds\<rparr>) = answer_near seeds h sc now w"
proof -
  note kept = alike_denied_kept [OF assms(3,1,2)]
  have "(Context_Props.nodes_in ds = []) = (Context_Props.nodes_in (nw_candidates w) = [])" using kept(2) by auto
  then show ?thesis
    using assms(1,2)
    by (simp add: answer_near_eq build_near_def Let_def kept [symmetric] alike_maps(3) [OF assms(3)])
qed

lemma shift_alike:
  assumes "alike_store sc now G G'" "store_ok G" "store_ok G'"
  shows "answer_shift i sc now (walk_shift G' owner i) = answer_shift i sc now (walk_shift G owner i)"
proof -
  obtain ds where ds: "walk_shift G' owner i = (walk_shift G owner i)\<lparr>wk_candidates := ds\<rparr>"
    "list_all2 (hist_alike sc now) (wk_candidates (walk_shift G owner i)) ds"
    by (rule alike_walk_shift [OF assms])
  have "list_all claim_candidate ds" using walk_shift_candidates(2) [OF assms(3), of owner i] by (simp add: ds(1))
  from shift_hides_denied [OF walk_shift_candidates(2) [OF assms(2)] this walk_shift_candidates(3) [OF assms(2)] ds(2)]
  show ?thesis by (simp add: ds(1))
qed

lemma context_alike:
  assumes "alike_store sc now G G'" "store_ok G" "store_ok G'"
  shows "answer_context i h sc now (walk_context G' owner i h) = answer_context i h sc now (walk_context G owner i h)"
proof -
  obtain ds where ds: "walk_context G' owner i h = (walk_context G owner i h)\<lparr>wk_candidates := ds\<rparr>"
    "list_all2 (node_alike sc now) (wk_candidates (walk_context G owner i h)) ds"
    by (rule alike_walk_context [OF assms])
  have rows: "list_all row_candidate (wk_candidates (walk_context H owner i h))" if "store_ok H" for H
    using walk_context_parts(1) [of H owner i h] many_rows_ok [OF that] by fastforce
  have "list_all row_candidate ds" using rows [OF assms(3)] by (simp add: ds(1))
  from context_hides_denied [OF rows [OF assms(2)] this ds(2)] show ?thesis by (simp add: ds(1))
qed

lemma near_alike:
  assumes "alike_store sc now G G'" "store_ok G" "store_ok G'"
  shows "answer_near seeds h sc now (walk_near G' owner seeds h) = answer_near seeds h sc now (walk_near G owner seeds h)"
proof -
  obtain ds where ds: "walk_near G' owner seeds h = (walk_near G owner seeds h)\<lparr>nw_candidates := ds\<rparr>"
    "list_all2 (node_alike sc now) (nw_candidates (walk_near G owner seeds h)) ds"
    by (rule alike_walk_near [OF assms])
  have rows: "list_all row_candidate (nw_candidates (walk_near H owner seeds h))" if "store_ok H" for H
    using walk_near_parts(1) [of H owner seeds h] many_rows_ok [OF that] by fastforce
  have "list_all row_candidate ds" using rows [OF assms(3)] by (simp add: ds(1))
  from answer_near_alike [OF rows [OF assms(2)] this ds(2)] show ?thesis by (simp add: ds(1))
qed

text \<open>Ranked rows: the same scores of alike rows.\<close>

definition alike_ranked :: "scope \<Rightarrow> int \<Rightarrow> ranked_node \<Rightarrow> ranked_node \<Rightarrow> bool" where
  "alike_ranked sc now r q \<longleftrightarrow> alike_stored sc now (rk_node r) (rk_node q) \<and> rk_score r = rk_score q"

lemma alike_rank:
  assumes "list_all2 (\<lambda>p q. alike_stored sc now (fst p) (fst q) \<and> snd p = snd q) cs ds"
  shows "rel_sum (=) (list_all2 (alike_ranked sc now)) (rank cs hops t) (rank ds hops t)"
proof -
  have one: "rel_sum (=) (alike_ranked sc now) (rank_one hops t p) (rank_one hops t q)"
    if "alike_stored sc now (fst p) (fst q) \<and> snd p = snd q" for p q
    using that alike_stored_shape [of sc now "fst p" "fst q"]
    by (cases p; cases q) (auto simp: rank_one_def proximity_score_def alike_ranked_def Let_def split: option.splits)
  have "rel_sum (=) (list_all2 (alike_ranked sc now)) (map_e (rank_one hops t) cs) (map_e (rank_one hops t) ds)"
    using assms
  proof (induction rule: list_all2_induct)
    case (Cons p cs q ds)
    from one [OF Cons.hyps(1)] Cons.IH show ?case
      by (cases "rank_one hops t p"; cases "rank_one hops t q"; cases "map_e (rank_one hops t) cs";
          cases "map_e (rank_one hops t) ds") auto
  qed simp
  then show ?thesis
    by (cases "map_e (rank_one hops t) cs"; cases "map_e (rank_one hops t) ds")
      (auto simp: rank_def alike_ranked_def intro!: sort_key_rel)
qed

lemma alike_candidates:
  assumes "list_all2 (alike_ranked sc now) rs qs"
  shows "list_all2 (\<lambda>c d. c = d \<or> qc_id c = qc_id d \<and> decision_on sc now c = decision_on sc now d
    \<and> \<not> permitted_by sc now c) (map candidate_of rs) (map candidate_of qs)"
  using assms
proof (induction rule: list_all2_induct)
  case (Cons r rs q qs)
  then obtain n m where nm: "rk_node r = hydrate n" "rk_node q = hydrate m" "alike_row sc now n m" "rk_score r = rk_score q"
    by (auto simp: alike_ranked_def alike_stored_def)
  from nm(3) have "candidate_of r = candidate_of q \<or> qc_id (candidate_of r) = qc_id (candidate_of q)
      \<and> decision_on sc now (candidate_of r) = decision_on sc now (candidate_of q) \<and> \<not> permitted_by sc now (candidate_of r)"
    by (auto simp: alike_row_def candidate_of_def nm gkey_def decision_on_def permitted_by_def row_decision_def)
  with Cons.IH show ?case by simp
qed simp

lemma alike_retrieve:
  assumes "alike_store sc now G G'" "store_ok G" "store_ok G'"
  shows "rel_sum (=) (list_all2 (alike_ranked sc now))
    (retrieve_stored ann emb_fn G owner k t q) (retrieve_stored ann emb_fn G' owner k t q)"
proof (cases "emb_fn q")
  case (Inr emb)
  let ?c = "vector_search ann G owner emb (k * 2)" and ?d = "vector_search ann G' owner emb (k * 2)"
  note cs = alike_vector_search [OF assms, of ann owner emb "k * 2"]
  have seeds: "seed_ids_of ?d = seed_ids_of ?c"
    unfolding seed_ids_of_def list_all2_lengthD [OF cs, symmetric]
    by (rule list_all2_same [OF list_all2_takeI [OF cs], symmetric]) (auto dest: alike_stored_shape)
  have empty: "(?d = []) = (?c = [])" using list_all2_lengthD [OF cs] by auto
  let ?hops = "neighbour_ids G owner (seed_ids_of ?c) 2"
  have "rel_sum (=) (list_all2 (alike_ranked sc now)) (rank ?c ?hops t) (rank ?d ?hops t)" by (rule alike_rank [OF cs])
  then have "rel_sum (=) (list_all2 (alike_ranked sc now)) (bind_e (rank ?c ?hops t) (\<lambda>rs. Inr (take k rs)))
      (bind_e (rank ?d ?hops t) (\<lambda>rs. Inr (take k rs)))"
    by (cases rule: rel_sum.cases) (auto intro: list_all2_takeI)
  then show ?thesis
    by (simp add: retrieve_stored_def Inr Let_def empty seeds alike_neighbours [OF assms(1)])
qed (simp add: retrieve_stored_def)

lemma query_alike:
  assumes "alike_store sc now G G'" "store_ok G" "store_ok G'"
  shows "bind_e (retrieve rt ann G' sc k t q) (answer_candidates q sc now)
    = bind_e (retrieve rt ann G sc k t q) (answer_candidates q sc now)"
proof -
  note rel = alike_retrieve [OF assms, of ann "rt_embed rt" "scope_owner_id sc" k t q]
  show ?thesis
  proof (cases "retrieve rt ann G sc k t q")
    case (Inl e)
    with rel have "retrieve rt ann G' sc k t q = Inl e"
      by (cases "retrieve_stored ann (rt_embed rt) G' (scope_owner_id sc) k t q") (auto simp: retrieve_def elim: rel_sum.cases)
    with Inl show ?thesis by simp
  next
    case (Inr cs)
    then obtain rs where rs: "retrieve_stored ann (rt_embed rt) G (scope_owner_id sc) k t q = Inr rs" "cs = map candidate_of rs"
      by (auto simp: retrieve_def elim!: bind_e_InrE)
    with rel obtain qs where qs: "retrieve_stored ann (rt_embed rt) G' (scope_owner_id sc) k t q = Inr qs"
      "list_all2 (alike_ranked sc now) rs qs"
      by (auto elim: rel_sum.cases)
    have ret: "retrieve rt ann G' sc k t q = Inr (map candidate_of qs)" by (simp add: retrieve_def qs(1))
    have "list_all labelled cs" using retrieve_candidates [OF assms(2) Inr] by (auto simp: list_all_iff)
    moreover have "list_all labelled (map candidate_of qs)"
      using retrieve_candidates [OF assms(3) ret] unfolding list_all_iff by blast
    ultimately show ?thesis
      using query_hides_denied [OF _ _ alike_candidates [OF qs(2)]] by (simp add: Inr ret rs(2))
  qed
qed

section \<open>Properties\<close>


text \<open>C11: the history of a decision reveals of a denied claim its id, its reason and its links only. On
  two databases that differ in rows the grant denies, with the same \<open>SUPERSEDES\<close> ids, times and
  reconciliations, the endpoint and the MCP tool give the same history.\<close>

theorem shift_blind:
  assumes "store_ok G" "store_ok G'" "alike_store sc now G G'"
    and "introspect_scope (rt_fmt rt) (rt_validate_scope rt) (rt_http rt) (rt_gateway rt) token = Inr sc"
  shows "api_shift (Some rt) G now i token = api_shift (Some rt) G' now i token
    \<and> why_this_shifted w s G now i token (Some rt) = why_this_shifted w s G' now i token (Some rt)"
  using shift_alike [OF assms(3,1,2), of i]
  by (simp add: api_shift_def api_runtime_def why_this_shifted_def mcp_runtime_def why_did_this_shift_def
      authorize_def assms(4))

text \<open>C13: a context chain and a neighbourhood reveal nothing of the content of denied objects: on two
  databases that differ in rows the grant denies only, the endpoints and the MCP tool give the
  same chain and the same neighbourhood.\<close>

theorem walks_blind:
  assumes "store_ok G" "store_ok G'" "alike_store sc now G G'"
    and "introspect_scope (rt_fmt rt) (rt_validate_scope rt) (rt_http rt) (rt_gateway rt) token = Inr sc"
  shows "api_context (Some rt) G now i token h = api_context (Some rt) G' now i token h
    \<and> memory_context_chain w s G now i token m (Some rt) = memory_context_chain w s G' now i token m (Some rt)
    \<and> api_neighbourhood (Some rt) G now seeds token h = api_neighbourhood (Some rt) G' now seeds token h"
  using context_alike [OF assms(3,1,2), of i] near_alike [OF assms(3,1,2), of seeds]
  by (simp add: api_context_def api_neighbourhood_def api_runtime_def memory_context_chain_def mcp_runtime_def
      context_chain_def neighbourhood_def authorize_def assms(4))

section \<open>Concrete databases\<close>

text \<open>A permitted claim that superseded a denied one, whose statement varies.\<close>

definition hidden_store :: "string \<Rightarrow> graph" where
  "hidden_store txt = \<lparr>gnodes = [row_of (ClaimN (sample_claim\<lparr>supersedes := [''clm_9'']\<rparr>)) [],
       row_of (ClaimN (hidden_claim txt)) []],
     gedges = [((''Claim'', ''clm_1''), ''SUPERSEDES'', (''Claim'', ''clm_9''))]\<rparr>"

lemma hidden_store_ok: "store_ok (hidden_store txt)"
  by (simp add: store_ok_def hidden_store_def keys_def hidden_claim_def sample_claim_def)

lemma hidden_row_denied: "row_decision sample_scope 3 (row_of (ClaimN (hidden_claim txt)) []) = deny SourceNotInScope"
  using hidden_denied [of "txt"] by (simp add: hist_decision_def row_decision_def hidden_hist_def)

lemma hidden_store_alike: "alike_store sample_scope 3 (hidden_store txt) (hidden_store txt')"
proof -
  have "alike_row sample_scope 3 (row_of (ClaimN (hidden_claim txt)) []) (row_of (ClaimN (hidden_claim txt')) [])"
    unfolding alike_row_def hidden_row_denied
    by (simp add: same_links_def hidden_claim_def row_of_def gkey_def)
  then show ?thesis by (simp add: alike_store_def hidden_store_def) (simp add: alike_row_def)
qed

lemmas hidden_stores = hidden_store_ok hidden_store_ok hidden_store_alike query_runtime_grant


theorem shift_blind_witness:
  "api_shift (Some query_runtime) (hidden_store ''x'') 3 ''clm_1'' ''tok''
   = api_shift (Some query_runtime) (hidden_store ''something else'') 3 ''clm_1'' ''tok''"
  using shift_blind [OF hidden_stores] by blast

theorem walks_blind_witness:
  "api_neighbourhood (Some query_runtime) (hidden_store ''x'') 3 [''clm_1''] ''tok'' 2
   = api_neighbourhood (Some query_runtime) (hidden_store ''something else'') 3 [''clm_1''] ''tok'' 2"
  using walks_blind [OF hidden_stores] by blast

end
