(* ===== verification/Digest_Samples.thy ===== *)
theory Digest_Samples
  imports Extractor
begin

text \<open>
  Known answers of \<open>hashlib.sha256(...).hexdigest()[:20]\<close> on the messages of two event ids,
  evaluated in the model.
\<close>

definition short_digest :: "string \<Rightarrow> string" where
  "short_digest m = take 20 (hexdigest m)"

lemma stable_id_short: "stable_id prefix parts = prefix @ ''_'' @ short_digest (utf8 (py_join unit_sep parts))"
  by (simp add: stable_id_def short_digest_def)

lemma digest_o: "short_digest (utf8 (py_join unit_sep [''o'', ''mock'', ''mock-007''])) = ''8a89c56bb134493cbf4b''"
  by code_simp

lemma digest_p: "short_digest (utf8 (py_join unit_sep [''p'', ''mock'', ''mock-007''])) = ''3831931a108fdfdca43d''"
  by code_simp

end
