(* ===== verification/Service_History.thy ===== *)
theory Service_History
  imports Service_Props ChatGPT_Props "HOL-Library.Sublist"
begin

text \<open>
  The service over time. Whatever jobs are accepted and run, nothing stored is lost and no claim
  is rewritten but for its status; and every stored row can be traced back: to an accepted job
  of its owner and source, and to the content its id is the hash of.
\<close>

section \<open>Later graphs\<close>

definition later :: "graph \<Rightarrow> graph \<Rightarrow> bool" where
  "later G G' \<longleftrightarrow> set (keys G) \<subseteq> set (keys G') \<and> set (gedges G) \<subseteq> set (gedges G')
     \<and> (\<forall>i c. stored_claim G i = Some c \<longrightarrow>
          stored_claim G' i = Some c \<or> stored_claim G' i = Some (c\<lparr>status := Superseded\<rparr>))"

lemma later_refl: "later G G"
  by (simp add: later_def)

lemma later_trans: "later G G1 \<Longrightarrow> later G1 G2 \<Longrightarrow> later G G2"
  unfolding later_def by (fastforce dest: subsetD)

lemma run_later:
  assumes "store_ok G" "run_ingestion rt owner source since session G = (res, G')"
  shows "later G G'"
proof -
  have "stored_claim G i = Some c \<Longrightarrow>
      stored_claim G' i = Some c \<or> stored_claim G' i = Some (c\<lparr>status := Superseded\<rparr>)" for i c
    using ingestion_old_kept [OF assms] by (simp add: old_kept_def)
  moreover have "set (keys G) \<subseteq> set (keys G') \<and> set (gedges G) \<subseteq> set (gedges G')"
  proof (rule pipeline_cases [OF assms(2)])
    fix st assume "G' = snd (write_node rt st G)"
    then show ?thesis
      using has_keys.inv_write [where G = G and st = st and rt = rt, OF TrueI subset_refl]
        has_edges.inv_write [where G = G and st = st and rt = rt, OF TrueI subset_refl] by simp
  qed simp
  ultimately show ?thesis by (simp add: later_def)
qed

lemma step_later:
  assumes "service_step s d d'" "store_ok (dp_graph d)"
  shows "later (dp_graph d) (dp_graph d') \<and> prefix (dp_jobs d) (dp_jobs d')"
  using assms
proof (cases rule: service_step.cases)
  case (step_work j w r G')
  show ?thesis
    using ingest_source_cases [OF step_work(3)]
  proof cases
    case (2 rt res)
    with run_later [OF assms(2) 2(3)] step_work(1) show ?thesis by simp
  qed (use step_work(1) in \<open>simp add: later_refl\<close>)
qed (simp add: later_refl)

section \<open>Where records come from\<close>

lemma chatgpt_records:
  assumes "chatgpt_fetch fs s owner since = Inr rs \<or> mock_chatgpt_fetch s owner since = Inr rs" "r \<in> set rs"
  shows "rec_connector r = ''chatgpt'' \<and> rec_sensitive r = chatgpt_sensitive s"
proof -
  obtain p where "parse_export p since (chatgpt_sensitive s) = Inr rs"
    using assms(1) by (auto simp: chatgpt_fetch_def mock_chatgpt_fetch_def elim!: bind_e_InrE)
  from parse_export_records [OF this assms(2)] show ?thesis by (simp add: export_record_def)
qed

lemma fixture_connectors: "r \<in> set fixtures \<Longrightarrow> rec_connector r = ''mock''"
  by (auto simp: fixtures_def fixture_def)

lemma mock_records: "mock_fetch owner since = Inr rs \<Longrightarrow> r \<in> set rs \<Longrightarrow> rec_connector r = ''mock''"
  by (auto simp: mock_fetch_def fixture_connectors)

text \<open>What a record of the built-in registry says of the job that fetched it.\<close>

definition record_of_job :: "settings \<Rightarrow> string \<Rightarrow> raw_record \<Rightarrow> bool" where
  "record_of_job s source r \<longleftrightarrow> rec_connector r = source \<and> (source = ''chatgpt'' \<longrightarrow> rec_sensitive r = chatgpt_sensitive s)"

lemma fetched_from:
  assumes "rt_registry rt = projr (builtin_registry fs)"
    and "fetch rt (start_state owner source since session) = Inr st" "r \<in> set (is_records st)"
  shows "record_of_job (rt_settings rt) source r"
proof -
  let ?s = "rt_settings rt"
  obtain conn where conn: "reg_connector (projr (builtin_registry fs)) source ?s = Inr conn"
    "conn_fetch conn owner since = Inr (is_records st)"
    using assms(1,2) by (auto simp: fetch_def start_state_def split: if_splits elim!: bind_e_InrE)
  then show ?thesis
    using assms(3) unfolding builtin_registry_value reg_connector_def reg_spec_def record_of_job_def
    by (auto simp: mock_spec_def google_spec_def github_spec_def chatgpt_spec_def not_wired_def mock_build_def
        split: if_splits dest: mock_records chatgpt_records [OF disjI1] chatgpt_records [OF disjI2])
qed

section \<open>Where rows come from\<close>

text \<open>The parts an id is the hash of, read off the stored object.\<close>

definition node_tag :: "memory_node \<Rightarrow> string" where
  "node_tag node = (case node of EntityN e \<Rightarrow> ''ent'' | EventN e \<Rightarrow> ''evt'' | ClaimN c \<Rightarrow> ''clm'')"

definition node_parts :: "memory_node \<Rightarrow> string list" where
  "node_parts node = (case node of
       EntityN e \<Rightarrow> [ent_owner_id e, kind_value (ent_kind e), py_lower (ent_name e)]
     | EventN e \<Rightarrow> [evt_owner_id e, sr_connector (evt_source e), sr_external_id (evt_source e)]
     | ClaimN c \<Rightarrow> clm_owner_id c # map cit_event_id (prov_citations (clm_provenance c)) @ [clm_statement c])"

definition addressed :: "memory_node \<Rightarrow> bool" where
  "addressed node \<longleftrightarrow> node_id node = stable_id (node_tag node) (node_parts node)"

text \<open>A job accounts for an object: it is of the object's owner, its source is the one source of the
  object's permissions and of an event's reference, and an object of a ChatGPT export is
  confidential when the deployment says those are.\<close>

definition accounts_for :: "settings \<Rightarrow> job \<Rightarrow> memory_node \<Rightarrow> bool" where
  "accounts_for s j node \<longleftrightarrow> job_owner_id j = node_owner node \<and> acl_owner_id (node_acl node) = job_owner_id j
     \<and> acl_sources (node_acl node) = [job_source j]
     \<and> (job_source j = ''chatgpt'' \<longrightarrow> (acl_sensitivity (node_acl node) = Confidential \<longleftrightarrow> chatgpt_sensitive s))
     \<and> (case node of EventN e \<Rightarrow> sr_connector (evt_source e) = job_source j | _ \<Rightarrow> True)"

definition explained :: "settings \<Rightarrow> job list \<Rightarrow> memory_node \<Rightarrow> bool" where
  "explained s js node \<longleftrightarrow> addressed node \<and> list_ex (\<lambda>j. accounts_for s j node) js"

interpretation traced: row_invariant "explained s js" "\<lambda>n. explained s js (g_payload n)" for s js
  by unfold_locales (simp_all add: explained_def addressed_def accounts_for_def node_tag_def node_parts_def set_payload_def)

lemma stored_event_fields:
  assumes "event_to_store records sealed e = Some e'"
  shows "evt_id e' = evt_id e \<and> evt_owner_id e' = evt_owner_id e \<and> evt_source e' = evt_source e \<and> evt_acl e' = evt_acl e"
  using assms by (auto simp: event_to_store_def split: option.splits if_splits)

lemma stripped_claim_fields:
  assumes "strip c' = strip c"
  shows "clm_id c' = clm_id c \<and> clm_owner_id c' = clm_owner_id c \<and> clm_acl c' = clm_acl c
    \<and> clm_statement c' = clm_statement c \<and> clm_provenance c' = clm_provenance c"
  using arg_cong [OF assms, of clm_id] arg_cong [OF assms, of clm_statement] arg_cong [OF assms, of clm_provenance]
    strip_acl [OF assms] by (simp add: strip_def)

lemma extract_acl_accounts:
  assumes "record_of_job s source r"
  shows "acl_sources (extract_acl owner r kinds) = [source]"
    "source = ''chatgpt'' \<longrightarrow> rec_sensitive r = chatgpt_sensitive s"
  using assms by (simp_all add: record_of_job_def extract_acl_def)

text \<open>Of the candidates of a job, every object the write node puts is accounted for by the job.\<close>

lemma candidate_explained:
  assumes "candidate_ok (job_owner_id j) r cand" "record_of_job s (job_source j) r" "comes_from st cand node"
  shows "explained s [j] node"
proof -
  note ok = candidate_okD [OF assms(1)] and acl = extract_acl_accounts [OF assms(2)]
  have src: "rec_connector r = job_source j" using assms(2) by (simp add: record_of_job_def)
  from assms(3) show ?thesis
  proof (cases rule: comes_from_cases)
    case (1 e)
    with ok(1) [OF 1(2)] acl show ?thesis
      by (simp add: explained_def addressed_def accounts_for_def node_tag_def node_parts_def entity_ok_def entity_id_of_def)
  next
    case (2 e e')
    with ok(2) have e: "event_ok (job_owner_id j) r (cand_entities cand) e" by auto
    with acl stored_event_fields [OF 2(3)] 2(1) src show ?thesis
      by (simp add: explained_def addressed_def accounts_for_def node_tag_def node_parts_def event_ok_def event_id_of_def)
  next
    case (3 c c')
    from ok(3) [OF 3(2)] acl stripped_claim_fields [OF 3(3)] 3(1) show ?thesis
      by (auto simp: explained_def addressed_def accounts_for_def node_tag_def node_parts_def claim_ok_def)
  qed
qed

lemma explained_more: "explained s [j] node \<Longrightarrow> j \<in> set js \<Longrightarrow> explained s js node"
  by (auto simp: explained_def list_ex_iff)

lemma batch_explained:
  assumes "build_runtime w s True None = Inr rt" "node \<in> batch_nodes st"
    and "prepare rt (start_state (job_owner_id j) (job_source j) (job_since_ms j) (job_session_token j)) G = Inr st"
  shows "explained s [j] node"
proof -
  obtain st1 r cand where f: "fetch rt (start_state (job_owner_id j) (job_source j) (job_since_ms j) (job_session_token j)) = Inr st1"
    "is_records st = is_records st1" "r \<in> set (is_records st1)" "rt_extract rt (is_owner_id st1) r = Inr cand"
    "comes_from st cand node"
    by (rule prepared_origin [OF assms(3,2)])
  have "rt_settings rt = s" by (rule build_runtime_cases [OF assms(1)])
  then have "record_of_job s (job_source j) r"
    using fetched_from [OF build_runtime_registry [OF assms(1)] f(1,3)] by simp
  moreover have "candidate_ok (job_owner_id j) r cand"
    using runtime_extractor_ok [OF assms(1) f(4)] fetch_owner [OF f(1)] by simp
  ultimately show ?thesis using candidate_explained f(5) by blast
qed

lemma job_keeps_explained:
  assumes "all_rows (\<lambda>n. explained s js (g_payload n)) G" "ingest_source w s j G = (r, G')" "j \<in> set js"
  shows "all_rows (\<lambda>n. explained s js (g_payload n)) G'"
  using ingest_source_cases [OF assms(2)]
proof cases
  case (2 rt res)
  show ?thesis
  proof (rule pipeline_cases [OF 2(3)])
    fix st assume pr: "prepare rt (start_state (job_owner_id j) (job_source j) (job_since_ms j) (job_session_token j)) G = Inr st"
      and G': "G' = snd (write_node rt st G)"
    show ?thesis unfolding G'
      by (rule traced.rows.inv_write [OF _ assms(1)]) (rule explained_more [OF batch_explained [OF 2(1) _ pr] assms(3)])
  qed (use assms(1) in simp)
qed (use assms(1) in simp)

lemma reachable_explained:
  assumes "reachable_service s d"
  shows "all_rows (\<lambda>n. explained s (dp_jobs d) (g_payload n)) (dp_graph d)"
  using assms
proof induction
  case service_new
  show ?case by (simp add: new_deployment_def all_rows_def empty_store_ok) (simp add: empty_graph_def)
next
  case (service_more d d')
  from service_more(2) show ?case
  proof (cases rule: service_step.cases)
    case step_accept
    with service_more(3) show ?thesis by (auto simp: all_rows_def list_all_iff explained_def)
  next
    case (step_work j w r G')
    from job_keeps_explained [OF service_more(3) step_work(3,2)] step_work(1) show ?thesis by simp
  qed
qed

section \<open>A small deployment\<close>

text \<open>A deployment with a language model that finds nothing in the one record it is shown, so that a job
  stores the event of the record and no more.\<close>

definition live_settings :: settings where
  "live_settings = default_settings\<lparr>extractor := ''llm'', anthropic_api_key := Some ''k''\<rparr>"

definition quiet_world :: world where
  "quiet_world = sample_world\<lparr>w_llm := (w_llm sample_world)\<lparr>llm_invoke := (\<lambda>ms. Inr (JStr [])),
     llm_loads := (\<lambda>x. Inr (JObj []))\<rparr>\<rparr>"

definition plan_record :: raw_record where
  "plan_record = fixture ''mock-007'' 16 ''Beacon rollout plan''
     ''Carol committed that project Beacon will publish the rollout plan by 2025-01-24.'' False [''Carol'']"

definition plan_job :: "string \<Rightarrow> job" where
  "plan_job owner = \<lparr>job_owner_id = owner, job_source = ''mock'', job_since_ms = base_ms + 16 * day_ms,
     job_session_token = None\<rparr>"

definition plan_source :: source_ref where
  "plan_source = \<lparr>sr_connector = ''mock'', sr_external_id = ''mock-007'', sr_url = rec_url plan_record,
     sr_occurred_at_ms = rec_occurred_at_ms plan_record, sr_ingested_at_ms = 1736000000000\<rparr>"

definition plan_event :: "string \<Rightarrow> event" where
  "plan_event owner = llm_event owner plan_record plan_source llm_name []"

abbreviation plan_start :: "string \<Rightarrow> ingestion_state" where
  "plan_start owner \<equiv> start_state (job_owner_id (plan_job owner)) (job_source (plan_job owner))
     (job_since_ms (plan_job owner)) (job_session_token (plan_job owner))"

lemma plan_day: "returns (day_of_ms (rec_occurred_at_ms plan_record))"
  by (simp add: day_of_ms_def plan_record_def fixture_def base_ms_def day_ms_def epoch_ordinal_def returns_def)

lemma plan_extracted:
  "llm_extract (w_llm quiet_world) 1736000000000 owner plan_record
     = Inr \<lparr>cand_entities = [], cand_events = [plan_event owner], cand_claims = []\<rparr>"
proof -
  obtain day where day: "day_of_ms (rec_occurred_at_ms plan_record) = Inr day" using plan_day by (auto simp: returns_iff)
  have "check_source_id ''mock'' = Inr ''mock''" by code_simp
  then have src: "new_source_ref (rec_connector plan_record) (rec_external_id plan_record) (rec_url plan_record)
      (rec_occurred_at_ms plan_record) 1736000000000 = Inr plan_source"
    by (simp add: new_source_ref_def plan_source_def) (simp add: plan_record_def fixture_def)
  show ?thesis
    by (simp add: llm_extract_def llm_request_def day to_candidate_def src items_at_def plan_event_def quiet_world_def
        text_of_response_def)
qed

lemma live_runtime:
  obtains rt where "build_runtime quiet_world live_settings True None = Inr rt" "rt_settings rt = live_settings"
    "rt_embed rt = hashed_embed (embedding_dim live_settings)" "map_of (rt_registry rt) ''mock'' = Some mock_spec"
    "rt_extract rt = (\<lambda>owner r. llm_extract (w_llm quiet_world) 1736000000000 owner r)"
proof -
  have s: "use_llm_extractor live_settings" "\<not> use_real_embedder live_settings" "anthropic_api_key live_settings = Some ''k''"
    by (simp_all add: live_settings_def use_llm_extractor_def use_real_embedder_def resolve_axis_def default_settings_def)
  have m: "apply_migrations (w_ddl quiet_world) (embedding_dim live_settings) = Inr ()"
    using sample_job(6) by (simp add: quiet_world_def live_settings_def)
  obtain rt where rt: "build_runtime quiet_world live_settings True None = Inr rt"
    by (simp add: build_runtime_def m get_extractor_def s builtin_registry_value)
  moreover have "map_of (rt_registry rt) ''mock'' = Some mock_spec"
    using build_runtime_registry [OF rt] by (simp add: builtin_registry_value)
  moreover have "rt_extract rt = (\<lambda>owner r. llm_extract (w_llm quiet_world) 1736000000000 owner r)"
    using build_runtime_cases [OF rt] s by (auto simp: get_extractor_def quiet_world_def sample_world_def)
  moreover have "rt_settings rt = live_settings" by (rule build_runtime_cases [OF rt])
  moreover have "rt_embed rt = hashed_embed (embedding_dim live_settings)"
    by (rule build_runtime_cases [OF rt]) (simp add: get_embedder_def s(2) fun_eq_iff)
  ultimately show thesis by (intro that)
qed

lemma plan_fetched: "fixtures_since (job_since_ms (plan_job owner)) = [plan_record]"
  by (simp add: fixtures_since_def fixtures_def fixture_def plan_job_def plan_record_def base_ms_def day_ms_def)

lemma plan_prepared:
  assumes "build_runtime quiet_world live_settings True None = Inr rt"
  obtains st where "prepare rt (plan_start owner) G = Inr st" "is_records st = [plan_record]" "is_sealed st = []"
    "is_candidates st = [\<lparr>cand_entities = [], cand_events = [plan_event owner], cand_claims = []\<rparr>]"
proof -
  obtain rt' where rt': "build_runtime quiet_world live_settings True None = Inr rt'" "rt_settings rt' = live_settings"
    "map_of (rt_registry rt') ''mock'' = Some mock_spec"
    "rt_extract rt' = (\<lambda>owner r. llm_extract (w_llm quiet_world) 1736000000000 owner r)"
    by (rule live_runtime)
  with assms have rt: "rt_settings rt = live_settings" "map_of (rt_registry rt) ''mock'' = Some mock_spec"
    "rt_extract rt = (\<lambda>owner r. llm_extract (w_llm quiet_world) 1736000000000 owner r)" by simp_all
  have "source_enabled live_settings ''mock''"
    using sample_job(5) by (simp add: live_settings_def source_enabled_def)
  note f = mock_fetches [OF rt(1,2) this, of owner "job_since_ms (plan_job owner)" None, unfolded plan_fetched]
  have sens: "sensitive_records [plan_record] = []" by (simp add: sensitive_records_def plan_record_def fixture_def dict_of_def)
  let ?cand = "\<lparr>cand_entities = [], cand_events = [plan_event owner], cand_claims = []\<rparr>"
  let ?st1 = "(start_state owner ''mock'' (job_since_ms (plan_job owner)) None)\<lparr>is_records := [plan_record]\<rparr>"
  have ext: "extract_node rt ?st1 = Inr (?st1\<lparr>is_candidates := [?cand]\<rparr>)"
    by (simp add: extract_node_def start_state_def rt(3) plan_extracted)
  have start: "plan_start owner = start_state owner ''mock'' (job_since_ms (plan_job owner)) None"
    by (simp add: plan_job_def)
  have "prepare rt (plan_start owner) G = Inr (encrypt rt (resolve_node G (?st1\<lparr>is_candidates := [?cand]\<rparr>)))"
    by (simp add: start prepare_def f ext)
  then show thesis
    by (rule that)
      (simp_all add: encrypt_alt resolve_node_def resolve_batch_def resolve_def claims_at_def empty_resolution_def
        start_state_def sens Let_def)
qed

lemma plan_batch:
  assumes "is_records st = [plan_record]" "is_sealed st = []"
    "is_candidates st = [\<lparr>cand_entities = [], cand_events = [plan_event owner], cand_claims = []\<rparr>]"
  shows "batch_nodes st = {EventN (plan_event owner)}"
    and "batch_steps rt st = store_event rt (plan_event owner)"
proof -
  have "\<not> needs_seal [plan_record] i" for i by (simp add: needs_seal_def plan_record_def fixture_def)
  then show "batch_nodes st = {EventN (plan_event owner)}" "batch_steps rt st = store_event rt (plan_event owner)"
    by (simp_all add: assms batch_nodes_def batch_steps_def nodes_of_def write_candidate_def write_event_alt event_to_store_def)
qed

lemma plan_job_run:
  "\<exists>v res. ingest_source quiet_world live_settings (plan_job owner) G = (res, upsert (EventN (plan_event owner)) v G)"
proof -
  obtain rt where rt: "build_runtime quiet_world live_settings True None = Inr rt"
    "rt_embed rt = hashed_embed (embedding_dim live_settings)" by (rule live_runtime)
  obtain st where st: "prepare rt (plan_start owner) G = Inr st" "is_records st = [plan_record]" "is_sealed st = []"
    "is_candidates st = [\<lparr>cand_entities = [], cand_events = [plan_event owner], cand_claims = []\<rparr>]"
    by (rule plan_prepared [OF rt(1)])
  have "0 < embedding_dim live_settings" using sample_job(4) by (simp add: live_settings_def)
  then obtain v where v: "rt_embed rt (summary (plan_event owner) @ '' '' @ or_empty (body (plan_event owner))) = Inr v"
    using embed_returns rt(2) by metis
  have "snd (write_node rt st G) = upsert (EventN (plan_event owner)) v G"
    unfolding write_node_graph plan_batch(2) [OF st(2-4)]
    using v by (simp add: store_event_def put_def on_graph_def note_written_def plan_event_def llm_event_def
        llm_provenance_def provenance_of_def quoting_def)
  moreover obtain res G' where run: "run_ingestion rt (job_owner_id (plan_job owner)) (job_source (plan_job owner))
      (job_since_ms (plan_job owner)) (job_session_token (plan_job owner)) G = (res, G')" by fastforce
  moreover have "G' = snd (write_node rt st G)"
    by (rule pipeline_cases [OF run]) (use st(1) in auto)
  ultimately show ?thesis by (intro exI [of _ v]) (simp add: ingest_source_def rt(1))
qed

definition plan_request :: "string \<Rightarrow> ingest_request" where
  "plan_request owner = \<lparr>iq_owner_id = owner, iq_source = ''mock'', iq_since_ms = base_ms + 16 * day_ms, iq_session_token = None\<rparr>"

definition quiet_deployment :: deployment where
  "quiet_deployment = one_job_done quiet_world live_settings (plan_request ''o'')"

lemma plan_job_of: "job_of (plan_request owner) = plan_job owner"
  by (simp add: job_of_def plan_request_def plan_job_def)

lemma quiet_reachable: "reachable_service live_settings quiet_deployment"
  unfolding quiet_deployment_def
  by (rule one_job_reachable) (simp_all add: plan_request_def source_enabled_def live_settings_def default_settings_def)

lemma quiet_rows: "\<exists>v. gnodes (dp_graph quiet_deployment) = [row_of (EventN (plan_event ''o'')) v]"
proof -
  obtain v res where "ingest_source quiet_world live_settings (plan_job ''o'') empty_graph
      = (res, upsert (EventN (plan_event ''o'')) v empty_graph)" using plan_job_run by blast
  then have "gnodes (dp_graph quiet_deployment) = [row_of (EventN (plan_event ''o'')) v]"
    by (simp add: quiet_deployment_def one_job_done_def plan_job_of upsert_def) (simp add: empty_graph_def)
  then show ?thesis by blast
qed

section \<open>Properties\<close>



text \<open>C7: whatever is stored can be traced back. In any state the service can reach, with either extractor,
  every row has an accepted job that accounts for it: of its owner and of an enabled source,
  which is the one source its permissions name, and an object of a ChatGPT export is
  confidential exactly when the deployment marks those sensitive; and the id of every row is
  the hash of its owner and of what it holds, so two jobs that meet the same entity, record or
  statement write the same row.\<close>

theorem rows_explained:
  assumes "reachable_service s d"
  shows "list_all (\<lambda>n. addressed (g_payload n)
      \<and> list_ex (\<lambda>j. known_job s j \<and> accounts_for s j (g_payload n)) (dp_jobs d)) (gnodes (dp_graph d))"
proof -
  have "list_all (\<lambda>n. explained s (dp_jobs d) (g_payload n)) (gnodes (dp_graph d))"
    using reachable_explained [OF assms] by (simp add: all_rows_def)
  moreover have "list_all (known_job s) (dp_jobs d)" using reachable_sound [OF assms] by simp
  ultimately show ?thesis by (auto simp: explained_def list_all_iff list_ex_iff)
qed

theorem rows_explained_witness:
  "evt_id (plan_event ''o'') = stable_id ''evt'' [''o'', ''mock'', ''mock-007''] \<and>
   accounts_for live_settings (plan_job ''o'') (EventN (plan_event ''o''))"
proof -
  obtain v where "gnodes (dp_graph quiet_deployment) = [row_of (EventN (plan_event ''o'')) v]" using quiet_rows by blast
  with rows_explained [OF quiet_reachable]
  have "addressed (EventN (plan_event ''o''))" "accounts_for live_settings (plan_job ''o'') (EventN (plan_event ''o''))"
    by (simp_all add: quiet_deployment_def one_job_done_def plan_job_of)
  then show ?thesis
    by (simp add: addressed_def node_tag_def node_parts_def) (simp add: plan_event_def llm_event_def plan_source_def)
qed

end
