(* ===== verification/Tenants.thy ===== *)
theory Tenants
  imports Service_History Digest_Samples
begin

text \<open>
  One store, many owners. A run writes rows and relationships by id, and ids are hashes that
  begin with the owner, so a job of one owner reaches the subgraph of another only where two
  different messages have the same truncated SHA-256 digest. Without such a pair among the
  messages at hand, the other owners' subgraphs stay exactly as they were.
\<close>

section \<open>Steps of the write node and the ids they use\<close>

definition old_ids :: "ingestion_state \<Rightarrow> string set" where
  "old_ids st = (\<Union>cand \<in> set (is_candidates st). \<Union>c \<in> set (cand_claims cand). set (supersedes c))"

lemma entity_step_cases:
  assumes "f \<in> set (write_entity rt e)"
  obtains s where "f = put rt (EntityN e) s" | i where "f = note_written i"
  using assms by (auto simp: write_entity_def)

lemma event_step_cases:
  assumes "f \<in> set (store_event rt e)"
  obtains s where "f = put rt (EventN e) s" | i where "f = note_written i"
    | rel k where "f = relate (evt_id e) rel k"
  using assms by (auto simp: store_event_def)

lemma claim_step_cases:
  assumes "f \<in> set (write_claim rt c)"
  obtains s where "f = put rt (ClaimN c) s" | i where "f = note_written i"
    | rel k where "f = relate (clm_id c) rel k"
    | i where "i \<in> set (supersedes c)" "f = on_graph (set_claim_status i (status_value Superseded))"
  using assms by (auto simp: write_claim_def split: option.splits if_splits)

lemma batch_step_cases:
  assumes "f \<in> set (batch_steps rt st)"
  obtains node s where "node \<in> batch_nodes st" "f = put rt node s"
    | node rel k where "node \<in> batch_nodes st" "f = relate (node_id node) rel k"
    | i where "i \<in> old_ids st" "f = on_graph (set_claim_status i (status_value Superseded))"
    | i where "f = note_written i" | m where "f = note_error m"
proof -
  obtain cand where c: "cand \<in> set (is_candidates st)" "f \<in> set (write_candidate rt (is_records st) (is_sealed st) cand)"
    using assms by (auto simp: batch_steps_def)
  then have nodes: "node \<in> nodes_of (is_records st) (is_sealed st) cand \<Longrightarrow> node \<in> batch_nodes st" for node
    by (auto simp: batch_nodes_def)
  from c(2) consider e where "e \<in> set (cand_entities cand)" "f \<in> set (write_entity rt e)"
    | e where "e \<in> set (cand_events cand)" "f \<in> set (write_event rt (is_records st) (is_sealed st) e)"
    | cl where "cl \<in> set (cand_claims cand)" "f \<in> set (write_claim rt cl)"
    by (auto simp: write_candidate_def)
  then show thesis
  proof cases
    case (1 e)
    then have "EntityN e \<in> batch_nodes st" by (intro nodes) (auto simp: nodes_of_def)
    from 1(2) that(1) [OF this] that(4) show thesis by (blast elim: entity_step_cases)
  next
    case (2 e)
    show thesis
    proof (cases "event_to_store (is_records st) (is_sealed st) e")
      case None
      with 2(2) that(5) show thesis by (simp add: write_event_alt)
    next
      case (Some e')
      then have "EventN e' \<in> batch_nodes st" using 2(1) by (intro nodes) (auto simp: nodes_of_def)
      moreover have "f \<in> set (store_event rt e')" using 2(2) Some by (simp add: write_event_alt)
      ultimately show thesis
        using that(1) [of "EventN e'"] that(2) [of "EventN e'"] that(4) by (auto elim!: event_step_cases)
    qed
  next
    case (3 cl)
    have node: "ClaimN cl \<in> batch_nodes st" using 3(1) by (intro nodes) (auto simp: nodes_of_def)
    have old: "i \<in> set (supersedes cl) \<Longrightarrow> i \<in> old_ids st" for i using 3(1) c(1) by (auto simp: old_ids_def)
    from 3(2) show thesis
    proof (cases rule: claim_step_cases)
      case (3 rel k)
      with that(2) [OF node] show thesis by simp
    qed (use that(1) [OF node] that(3) [OF old] that(4) in auto)
  qed
qed

text \<open>An invariant of single statements on the ids a run uses: the ids of the objects it puts, from
  which every relationship starts, and the ids of the claims it marks superseded.\<close>

locale batch_invariant =
  fixes ok_put :: "memory_node \<Rightarrow> bool"
    and ok_old :: "string \<Rightarrow> bool"
    and P :: "graph \<Rightarrow> bool"
  assumes keep_put: "ok_put node \<Longrightarrow> P G \<Longrightarrow> P (upsert node emb G)"
    and keep_link: "ok_put node \<Longrightarrow> P G \<Longrightarrow> link (node_id node) rel k G = Inr G' \<Longrightarrow> P G'"
    and keep_status: "ok_old i \<Longrightarrow> P G \<Longrightarrow> set_claim_status i (status_value Superseded) G = Inr G' \<Longrightarrow> P G'"
begin

lemma keep_step:
  assumes "\<And>node. node \<in> batch_nodes st \<Longrightarrow> ok_put node" "\<And>i. i \<in> old_ids st \<Longrightarrow> ok_old i"
    and "f \<in> set (batch_steps rt st)" "P (fst t)"
  shows "P (fst (snd (f t)))"
proof -
  have on: "P (fst (snd (on_graph g t)))" if "\<And>G G'. P G \<Longrightarrow> g G = Inr G' \<Longrightarrow> P G'" for g
    using that assms(4) by (auto simp: on_graph_def split: prod.splits sum.splits)
  from assms(3) show ?thesis
  proof (cases rule: batch_step_cases)
    case (1 node s)
    show ?thesis unfolding 1(2) put_def
      by (rule on) (use keep_put [OF assms(1) [OF 1(1)]] in \<open>auto elim!: bind_e_InrE\<close>)
  next
    case (2 node rel k)
    show ?thesis unfolding 2(2) relate_def by (rule on) (rule keep_link [OF assms(1) [OF 2(1)]])
  next
    case (3 i)
    show ?thesis unfolding 3(2) by (rule on) (rule keep_status [OF assms(2) [OF 3(1)]])
  qed (use assms(4) in \<open>auto simp: note_written_def note_error_def split: prod.splits\<close>)
qed

lemma keep_write:
  assumes "\<And>node. node \<in> batch_nodes st \<Longrightarrow> ok_put node" "\<And>i. i \<in> old_ids st \<Longrightarrow> ok_old i" "P G"
  shows "P (snd (write_node rt st G))"
  unfolding write_node_graph
  using run_steps_inv [of "batch_steps rt st" "\<lambda>t. P (fst t)" "(G, [], [])"] keep_step [OF assms(1,2)] assms(3) by simp

end

section \<open>The subgraph of another owner\<close>

lemma filter_add_edge: "\<not> Q e \<Longrightarrow> filter Q (add_edge e es) = filter Q es"
  by (simp add: add_edge_def)

lemma filter_add_edges: "\<forall>e \<in> set new. \<not> Q e \<Longrightarrow> filter Q (fold add_edge new es) = filter Q es"
  by (induction new arbitrary: es) (simp_all add: filter_add_edge)

lemma restrict_rows:
  assumes "restrict owner G = restrict owner G0" "n \<in> set (gnodes G)" "g_owner_id n = owner"
  shows "n \<in> set (gnodes G0)"
proof -
  have "n \<in> set (gnodes (restrict owner G))" using assms(2,3) by (simp add: gnodes_restrict)
  then show ?thesis unfolding assms(1) by (simp add: gnodes_restrict)
qed

lemma restrict_link_other:
  assumes "store_ok G" "\<And>n. n \<in> set (gnodes G) \<Longrightarrow> g_owner_id n = owner \<Longrightarrow> g_id n \<noteq> i" "link i rel k G = Inr G'"
  shows "restrict owner G' = restrict owner G"
proof -
  let ?new = "[(gkey a, rel, gkey b). a \<leftarrow> gnodes G, g_id a = i, b \<leftarrow> gnodes G, g_id b = k]"
  have G': "G' = G\<lparr>gedges := fold add_edge ?new (gedges G)\<rparr>"
    using assms(3) by (auto simp: link_def split: if_splits)
  have "\<not> owned G owner (gkey a)" if "a \<in> set (gnodes G)" "g_id a = i" for a
    using owned_row [OF assms(1) _ that(1)] assms(2) [OF that(1)] that(2) by blast
  then have none: "\<forall>e \<in> set ?new. \<not> own_edge G owner e" by (auto simp: own_edge_def)
  have "owned G' owner k = owned G owner k" for k by (simp add: owned_def link_facts(1) [OF assms(3)])
  then have same: "own_edge G' owner = own_edge G owner" by (simp add: own_edge_alt)
  have edges: "gedges G' = fold add_edge ?new (gedges G)" by (simp add: G')
  have "filter (own_edge G owner) (gedges G') = filter (own_edge G owner) (gedges G)"
    unfolding edges by (rule filter_add_edges [OF none])
  with same link_facts(1) [OF assms(3)] show ?thesis by (simp add: restrict_def)
qed

lemma restrict_status_other:
  assumes "store_ok G" "\<not> owned G owner (''Claim'', i)" "set_claim_status i st G = Inr G'"
  shows "restrict owner G' = restrict owner G"
  using assms(3)
proof (elim set_claim_status_cases mutate_claim_cases)
  fix c' n assume G': "G' = G\<lparr>gnodes := map (\<lambda>n. if is_claim_row i n then set_payload (ClaimN c') n else n) (gnodes G)\<rparr>"
  let ?up = "\<lambda>n. if is_claim_row i n then set_payload (ClaimN c') n else n"
  have other: "g_owner_id n \<noteq> owner" if "n \<in> set (gnodes G)" "is_claim_row i n" for n
    using assms(2) that by (auto simp: owned_iff is_claim_row_key simp del: gkey_eq)
  have rows: "gnodes G' = map ?up (gnodes G)" by (simp add: G')
  have cols: "gkey (?up n) = gkey n" "g_owner_id (?up n) = g_owner_id n" for n
    by (simp_all add: set_payload_def gkey_def del: gkey_eq)
  have keep: "filter (\<lambda>n. g_owner_id n = owner) (map ?up ns) = filter (\<lambda>n. g_owner_id n = owner) ns"
    if "\<forall>n \<in> set ns. is_claim_row i n \<longrightarrow> g_owner_id n \<noteq> owner" for ns
    using that by (induction ns) (auto simp: set_payload_def)
  have "owned G' owner k = owned G owner k" for k
    by (simp only: owned_iff rows list.set_map bex_simps cols)
  then have "own_edge G' owner = own_edge G owner" by (simp add: own_edge_alt)
  with keep [of "gnodes G"] other show ?thesis by (simp add: restrict_def G')
qed simp

text \<open>A run that puts no object under an id of the owner's rows, and ends no claim of the owner,
  leaves the owner's subgraph alone.\<close>

definition foreign :: "string \<Rightarrow> graph \<Rightarrow> memory_node \<Rightarrow> bool" where
  "foreign owner G node \<longleftrightarrow> node_owner node \<noteq> owner \<and> (\<forall>n \<in> set (gnodes G). g_owner_id n = owner \<longrightarrow> g_id n \<noteq> node_id node)"

interpretation other_owner: batch_invariant "foreign owner G0" "\<lambda>i. \<not> owned G0 owner (''Claim'', i)"
    "\<lambda>G. store_ok G \<and> restrict owner G = restrict owner G0" for owner G0
proof
  fix node emb G assume f: "foreign owner G0 node" and G: "store_ok G \<and> restrict owner G = restrict owner G0"
  have "\<not> owned G owner (label_of node, node_id node)"
  proof
    assume "owned G owner (label_of node, node_id node)"
    then obtain n where n: "n \<in> set (gnodes G)" "gkey n = (label_of node, node_id node)" "g_owner_id n = owner"
      unfolding owned_iff by blast
    from restrict_rows [OF _ n(1,3)] G f n(2,3) show False by (auto simp: foreign_def)
  qed
  with f G show "store_ok (upsert node emb G) \<and> restrict owner (upsert node emb G) = restrict owner G0"
    by (simp add: upsert_ok restrict_upsert_other foreign_def)
next
  fix node G rel k G' assume f: "foreign owner G0 node" and G: "store_ok G \<and> restrict owner G = restrict owner G0"
    and l: "link (node_id node) rel k G = Inr G'"
  have "g_id n \<noteq> node_id node" if "n \<in> set (gnodes G)" "g_owner_id n = owner" for n
    using restrict_rows [OF _ that] G f that(2) by (auto simp: foreign_def)
  from restrict_link_other [OF _ this l] G l show "store_ok G' \<and> restrict owner G' = restrict owner G0"
    by (auto intro: link_ok)
next
  fix i G G' assume o: "\<not> owned G0 owner (''Claim'', i)" and G: "store_ok G \<and> restrict owner G = restrict owner G0"
    and st: "set_claim_status i (status_value Superseded) G = Inr G'"
  have "\<not> owned G owner (''Claim'', i)"
    using o G owned_restrict [of owner G "(''Claim'', i)"] owned_restrict [of owner G0 "(''Claim'', i)"] by simp
  from restrict_status_other [OF _ this st] G set_claim_status_ok [OF _ st]
  show "store_ok G' \<and> restrict owner G' = restrict owner G0" by simp
qed

section \<open>What the resolver ends\<close>

text \<open>The claims a resolved batch lists as superseded are stored claims of the owner about the same
  entities, or claims of the batch itself.\<close>

definition listed :: "string set \<Rightarrow> claim \<Rightarrow> bool" where
  "listed S c \<longleftrightarrow> clm_id c \<in> S \<and> set (supersedes c) \<subseteq> S"

abbreviation same_links :: "claim \<Rightarrow> claim \<Rightarrow> bool" where
  "same_links x y \<equiv> clm_id y = clm_id x \<and> supersedes y = supersedes x"

lemma compare_one_listed:
  assumes "compare_one tp tk ob c x res = (c', x', res')" "listed S c" "clm_id x \<in> S"
  shows "listed S c' \<and> same_links x x'"
  using assms by (auto simp: compare_one_def listed_def split: if_splits)

lemma compare_loop_listed:
  assumes "compare_loop tp tk ob c xs res = (c', xs', res')" "listed S c" "clm_id ` set xs \<subseteq> S"
  shows "listed S c' \<and> list_all2 same_links xs xs'"
  using assms
proof (induction xs arbitrary: c res c' xs' res')
  case (Cons x xs)
  obtain c1 x1 res1 where one: "compare_one tp tk ob c x res = (c1, x1, res1)" by (metis prod_cases3)
  obtain c2 xs2 res2 where rest: "compare_loop tp tk ob c1 xs res1 = (c2, xs2, res2)" by (metis prod_cases3)
  from Cons.prems(1) have "c' = c2" "xs' = x1 # xs2" by (simp_all add: one rest)
  with compare_one_listed [OF one Cons.prems(2)] Cons.IH [OF rest] Cons.prems(3) show ?case by simp
qed simp

lemma listed_same_links: "list_all2 same_links xs ys \<Longrightarrow> \<forall>x \<in> set xs. listed S x \<Longrightarrow> \<forall>y \<in> set ys. listed S y"
  by (fastforce simp: listed_def list_all2_conv_all_nth in_set_conv_nth)

lemma resolve_claim_listed:
  assumes "get (clm_id c) = None \<Longrightarrow> listed S c" "\<And>ids. clm_id ` set (stored_claims (about owner ids)) \<subseteq> S"
    and "\<forall>x \<in> set (fst pr). listed S x"
  shows "\<forall>x \<in> set (fst (resolve_claim get about owner c pr)). listed S x"
proof -
  obtain prior res where pr: "pr = (prior, res)" by fastforce
  show ?thesis
  proof (cases "get (clm_id c)")
    case None
    let ?stored = "stored_claims (about owner (subject_entity_ids c))"
    obtain c' xs' res' where loop: "compare_loop (topic (clm_statement c)) (tokens (clm_statement c)) (obligation c) c
        (?stored @ prior) res = (c', xs', res')" by (metis prod_cases3)
    have "clm_id ` set (?stored @ prior) \<subseteq> S"
      using assms(2) [of "subject_entity_ids c"] assms(3) by (auto simp: pr listed_def)
    from compare_loop_listed [OF loop assms(1) [OF None] this]
    have c': "listed S c'" and "list_all2 same_links (drop (length ?stored) (?stored @ prior)) (drop (length ?stored) xs')"
      by (simp_all only: list_all2_dropI)
    then have "\<forall>x \<in> set (drop (length ?stored) xs'). listed S x"
      using listed_same_links [of prior _ S] assms(3) by (simp add: pr)
    with c' show ?thesis by (auto simp: resolve_claim_def pr None loop Let_def)
  qed (use assms(3) in \<open>simp add: resolve_claim_def pr\<close>)
qed

lemma resolve_listed:
  assumes "\<forall>c \<in> set (cand_claims cand). get (clm_id c) = None \<longrightarrow> listed S c" "\<And>ids. clm_id ` set (stored_claims (about owner ids)) \<subseteq> S"
    and "\<forall>x \<in> set P. listed S x"
  shows "\<forall>x \<in> set (fst (resolve get about owner cand P)). listed S x"
proof -
  have "\<forall>x \<in> set (fst (fold (resolve_claim get about owner) cs pr)). listed S x"
    if "\<forall>c \<in> set cs. get (clm_id c) = None \<longrightarrow> listed S c" "\<forall>x \<in> set (fst pr). listed S x" for cs pr
    using that
  proof (induction cs arbitrary: pr)
    case (Cons c cs)
    have "\<forall>x \<in> set (fst (resolve_claim get about owner c pr)). listed S x"
      by (rule resolve_claim_listed) (use Cons.prems assms(2) in simp_all)
    from Cons.IH [OF _ this] Cons.prems(1) show ?case by simp
  qed simp
  from this [OF assms(1), of "(P, empty_resolution)"] assms(3) show ?thesis by (simp add: resolve_def)
qed

lemma resolve_batch_listed:
  assumes "resolve_batch get about owner cands = (P, rs)"
    and "\<And>cand c. cand \<in> set cands \<Longrightarrow> c \<in> set (cand_claims cand) \<Longrightarrow> get (clm_id c) = None \<Longrightarrow> listed S c"
    and "\<And>ids. clm_id ` set (stored_claims (about owner ids)) \<subseteq> S"
  shows "\<forall>c \<in> set P. listed S c"
proof -
  have "\<forall>c \<in> set (fst (resolve_all get about owner cs Q)). listed S c"
    if "set cs \<subseteq> set cands" "\<forall>x \<in> set Q. listed S x" for cs Q
    using that
  proof (induction cs arbitrary: Q)
    case (Cons cand cs)
    have "\<forall>x \<in> set (fst (resolve get about owner cand Q)). listed S x"
      by (rule resolve_listed) (use Cons.prems assms(2,3) in auto)
    from Cons.IH [OF _ this] Cons.prems(1) show ?case by (simp split: prod.splits)
  qed simp
  from this [of cands "[]"] assms(1) show ?thesis by (simp add: resolve_batch_def)
qed

text \<open>So in a prepared batch.\<close>

definition own_claim_ids :: "graph \<Rightarrow> string \<Rightarrow> string set" where
  "own_claim_ids G owner = {i. owned G owner (''Claim'', i)}"

lemma stored_claim_ids:
  assumes "store_ok G"
  shows "clm_id ` set (stored_claims (claims_about G owner ids)) \<subseteq> own_claim_ids G owner"
proof
  fix i assume "i \<in> clm_id ` set (stored_claims (claims_about G owner ids))"
  then obtain n c where n: "n \<in> set (gnodes G)" "g_label n = ''Claim''" "g_owner_id n = owner"
    "claim_of (st_node (hydrate n)) = Some c" "clm_id c = i"
    by (auto simp: stored_claims_def List.map_filter_def claims_about_def split: if_splits)
  then have "g_payload n = ClaimN c" by (cases "g_payload n") (simp_all add: hydrate_def)
  with store_okD(2) [OF assms n(1)] n have "gkey n = (''Claim'', i)" by (simp add: row_ok_def)
  with n(1,3) show "i \<in> own_claim_ids G owner" unfolding own_claim_ids_def owned_iff by blast
qed

text \<open>So the ids a run ends are those of the owner's own stored claims, or of no stored object.\<close>

lemma old_ids_origin:
  assumes "store_ok G" "fetch rt st0 = Inr st1" "is_owner_id st1 = owner"
    and "\<And>rec cand. rt_extract rt owner rec = Inr cand \<Longrightarrow> candidate_ok owner rec cand"
    and "prepare rt st0 G = Inr st" "i \<in> old_ids st"
  shows "i \<in> own_claim_ids G owner \<or> store_get G i = None"
proof -
  let ?S = "own_claim_ids G owner \<union> {i. store_get G i = None}"
  obtain cands where cands: "map_e (rt_extract rt owner) (is_records st1) = Inr cands"
    "is_candidates st = is_candidates (resolve_node G (st1\<lparr>is_candidates := cands\<rparr>))"
    by (rule prepare_cases [OF assms(5)]) (use assms(2,3) in simp)
  obtain P rs where batch: "resolve_batch (store_get G) (claims_about G) owner cands = (P, rs)" by fastforce
  have "is_candidates st = map2 (\<lambda>cand r. cand\<lparr>cand_claims := claims_at P r\<rparr>) cands rs"
    using cands(2) assms(3) batch by (simp add: resolve_node_def)
  with assms(6) obtain r c where r: "r \<in> set rs" "c \<in> set (claims_at P r)" "i \<in> set (supersedes c)"
    by (auto simp: old_ids_def dest: set_zip_rightD)
  have "\<forall>c \<in> set P. listed ?S c"
  proof (rule resolve_batch_listed [OF batch])
    fix cand c assume c: "cand \<in> set cands" "c \<in> set (cand_claims cand)" "store_get G (clm_id c) = None"
    obtain rec where "rt_extract rt owner rec = Inr cand" using map_e_member [OF cands(1) c(1)] by blast
    from candidate_okD(3) [OF assms(4) [OF this] c(2)] c(3) show "listed ?S c"
      by (simp add: listed_def claim_ok_def unresolved_def)
  qed (use stored_claim_ids [OF assms(1)] in blast)
  moreover have "c \<in> set P"
  proof -
    obtain k where k: "k \<in> set (new_claims r)" "c = P ! k" using r(2) by (auto simp: claims_at_def)
    then have "k \<in> set (concat (map new_claims rs))" using r(1) by auto
    with k(2) resolve_batch_ok(1) [OF batch] show ?thesis by simp
  qed
  ultimately have "listed ?S c" by (rule bspec)
  with r(3) show ?thesis by (auto simp: listed_def)
qed

section \<open>Ids and digests\<close>

text \<open>The message an object's id is the digest of.\<close>

definition id_message :: "memory_node \<Rightarrow> string" where
  "id_message node = utf8 (py_join unit_sep (node_parts node))"

lemma addressed_digest:
  assumes "addressed m" "addressed n" "node_id m = node_id n"
  shows "short_digest (id_message m) = short_digest (id_message n)"
proof -
  have "length (node_tag m) = length (node_tag n)" by (simp add: node_tag_def split: memory_node.split)
  with assms show ?thesis by (simp add: addressed_def stable_id_short id_message_def)
qed

lemma node_parts_owner: "\<exists>x xs. node_parts node = node_owner node # x # xs"
proof (cases node)
  case (ClaimN c)
  then show ?thesis by (cases "prov_citations (clm_provenance c)") (simp_all add: node_parts_def)
qed (simp_all add: node_parts_def)

text \<open>The owner can be read off the message, when it has no separator in it.\<close>

lemma id_message_owner:
  assumes "CHR 0x1F \<notin> set (node_owner m)" "CHR 0x1F \<notin> set (node_owner n)" "id_message m = id_message n"
  shows "node_owner m = node_owner n"
proof -
  have first: "takeWhile (\<lambda>c. c \<noteq> CHR 0x1F) (py_join unit_sep (node_parts k)) = node_owner k"
    if "CHR 0x1F \<notin> set (node_owner k)" for k
  proof -
    obtain x xs where "node_parts k = node_owner k # x # xs" using node_parts_owner by blast
    then have "py_join unit_sep (node_parts k) = node_owner k @ CHR 0x1F # py_join unit_sep (x # xs)"
      by (simp add: unit_sep_def)
    moreover have "takeWhile (\<lambda>c. c \<noteq> CHR 0x1F) (node_owner k @ CHR 0x1F # ys) = node_owner k" for ys
      by (subst takeWhile_append2) (use that in auto)
    ultimately show ?thesis by simp
  qed
  have "py_join unit_sep (node_parts m) = py_join unit_sep (node_parts n)"
    using assms(3) by (auto simp: id_message_def dest: utf8_inj)
  with first [OF assms(1)] first [OF assms(2)] show ?thesis by simp
qed

lemma digests_apart:
  assumes "inj_on short_digest (id_message ` N)" "m \<in> N" "n \<in> N" "addressed m" "addressed n"
    and "CHR 0x1F \<notin> set (node_owner m)" "CHR 0x1F \<notin> set (node_owner n)" "node_owner m \<noteq> node_owner n"
  shows "node_id m \<noteq> node_id n"
proof
  assume "node_id m = node_id n"
  from addressed_digest [OF assms(4,5) this] have "id_message m = id_message n"
    using assms(1-3) by (auto dest: inj_onD)
  from id_message_owner [OF assms(6,7) this] assms(8) show False by simp
qed

section \<open>A job of another owner\<close>

text \<open>What a job is about to write.\<close>

definition job_nodes :: "world \<Rightarrow> settings \<Rightarrow> job \<Rightarrow> graph \<Rightarrow> memory_node set" where
  "job_nodes w s j G = (case build_runtime w s True None of
       Inl e \<Rightarrow> {}
     | Inr rt \<Rightarrow> (case prepare rt (start_state (job_owner_id j) (job_source j) (job_since_ms j) (job_session_token j)) G of
           Inl e \<Rightarrow> {}
         | Inr st \<Rightarrow> batch_nodes st))"

lemma job_foreign:
  assumes "all_rows (\<lambda>n. explained s js (g_payload n)) G" "owner \<noteq> job_owner_id j" "sound_store G"
    and "CHR 0x1F \<notin> set owner" "CHR 0x1F \<notin> set (job_owner_id j)"
    and "inj_on short_digest (id_message ` (g_payload ` set (gnodes G) \<union> job_nodes w s j G))"
    and "node \<in> job_nodes w s j G" "explained s [j] node"
  shows "foreign owner G node"
proof -
  have o: "node_owner node = job_owner_id j" "addressed node"
    using assms(8) by (auto simp: explained_def accounts_for_def)
  have "g_id n \<noteq> node_id node" if n: "n \<in> set (gnodes G)" "g_owner_id n = owner" for n
  proof -
    have "addressed (g_payload n)" and ok: "row_ok n" and own: "node_owner (g_payload n) = owner"
      using assms(1,3) n store_okD(2) by (auto simp: all_rows_def list_all_iff explained_def sound_store_def sound_row_def)
    then have "node_id (g_payload n) \<noteq> node_id node"
      using digests_apart [OF assms(6), of "g_payload n" node] assms(2,4,5,7) n(1) o by simp
    with ok show ?thesis by (simp add: row_ok_def)
  qed
  with assms(2) o(1) show ?thesis by (simp add: foreign_def)
qed

lemma job_isolated:
  assumes "all_rows (\<lambda>n. explained s js (g_payload n)) G" "ingest_source w s j G = (r, G')" "owner \<noteq> job_owner_id j"
    and "sound_store G" "CHR 0x1F \<notin> set owner" "CHR 0x1F \<notin> set (job_owner_id j)"
    and "inj_on short_digest (id_message ` (g_payload ` set (gnodes G) \<union> job_nodes w s j G))"
  shows "store_ok G' \<and> restrict owner G' = restrict owner G"
proof -
  have ok: "store_ok G" using assms(1) by (simp add: all_rows_def)
  let ?st0 = "start_state (job_owner_id j) (job_source j) (job_since_ms j) (job_session_token j)"
  from ingest_source_cases [OF assms(2)] show ?thesis
  proof cases
    case (2 rt res)
    show ?thesis
    proof (rule pipeline_cases [OF 2(3)])
      fix st assume pr: "prepare rt ?st0 G = Inr st" and G': "G' = snd (write_node rt st G)"
      obtain st1 where f: "fetch rt ?st0 = Inr st1" by (rule prepare_cases [OF pr])
      show ?thesis unfolding G'
      proof (rule other_owner.keep_write)
        fix node assume n: "node \<in> batch_nodes st"
        then have "node \<in> job_nodes w s j G" by (simp add: job_nodes_def 2(1) pr)
        from job_foreign [OF assms(1,3-7) this batch_explained [OF 2(1) n pr]] show "foreign owner G node" .
      next
        fix i assume "i \<in> old_ids st"
        from old_ids_origin [OF ok f fetch_owner [OF f] _ pr this] runtime_extractor_ok [OF 2(1)]
        consider "owned G (job_owner_id j) (''Claim'', i)" | "store_get G i = None" by (auto simp: own_claim_ids_def)
        then show "\<not> owned G owner (''Claim'', i)"
        proof cases
          case 1
          with assms(3) owned_unique [OF ok] show ?thesis by blast
        next
          case 2
          then show ?thesis by (auto simp: store_get_def owned_iff filter_empty_conv split: list.splits)
        qed
      qed (use ok in simp)
    qed (use ok in simp)
  qed (use ok in simp)
qed

section \<open>Properties\<close>

lemma same_walks:
  assumes "store_ok G" "store_ok G'" "restrict owner G' = restrict owner G"
  shows "walk_shift G' owner x = walk_shift G owner x" "walk_context G' owner x k = walk_context G owner x k"
    "count_labels G' owner = count_labels G owner"
    "open_commitments G' owner b e u = open_commitments G owner b e u"
  using assms
  by (simp_all only: walk_shift_def walk_context_def chain_read.same_subgraph [OF assms(2,1,3)]
      conflict_read.same_subgraph [OF assms(2,1,3)] get_many_read.same_subgraph [OF assms(2,1,3)]
      cites_read.same_subgraph [OF assms(2,1,3)] count_read.same_subgraph [OF assms(2,1,3)]
      open_read.same_subgraph [OF assms(2,1,3)])


text \<open>A job of another owner on the small deployment: one event each, of one record.\<close>

lemma plan_message: "id_message (EventN (plan_event owner)) = utf8 (py_join unit_sep [owner, ''mock'', ''mock-007''])"
  by (simp add: id_message_def node_parts_def) (simp add: plan_event_def llm_event_def plan_source_def)

lemma plan_nodes: "job_nodes quiet_world live_settings (plan_job owner) G = {EventN (plan_event owner)}"
proof -
  obtain rt where rt: "build_runtime quiet_world live_settings True None = Inr rt" by (rule live_runtime)
  obtain st where st: "prepare rt (plan_start owner) G = Inr st" "is_records st = [plan_record]" "is_sealed st = []"
    "is_candidates st = [\<lparr>cand_entities = [], cand_events = [plan_event owner], cand_claims = []\<rparr>]"
    by (rule plan_prepared [OF rt])
  show ?thesis unfolding job_nodes_def rt st(1) sum.case plan_batch(1) [OF st(2-4)] ..
qed


end
