(* ===== verification/Spec2Isabelle.thy ===== *)
theory Spec2Isabelle
  imports Enums Permissions Store_Inv Store_Reads Store_Paths Resolver Base64 Gateway Config Connectors
    Ingestion Ingestion_Props Ranking Query Formatting Shift Shift_Props
    Context Context_Props Neighbourhood Neighbourhood_Props ChatGPT ChatGPT_Props
    Sha256 Dates Extractor Extractor_Props LLM LLM_Props
    Embeddings Retriever Runtime
    Service Deployment Service_Props Interleaving Noninterference Digest_Samples Service_History Tenants
begin

text \<open>
  A verification library for the memory orchestrator, the Python service under
  \<open>src/orchestrator/src/orchestrator\<close>.

  \<^bold>\<open>The program.\<close> A source connector fetches raw records, an extractor turns each record into
  candidate entities, events and claims, the resolver compares the claims with the ones stored,
  sensitive bodies are sealed by a gateway, and the result is written to a property graph
  (\<open>graphs/ingestion.py\<close>). Agents read that graph under a grant: the gateway introspects the
  token to a scope, a read walks the graph of the granted owner, \<open>permissions.evaluate\<close> decides
  every object, and the answer is assembled from what was permitted (\<open>graphs/query.py\<close>,
  \<open>graphs/history.py\<close>, \<open>graphs/neighbourhood.py\<close>).

  \<^bold>\<open>Theories and code.\<close>
  \<^item> \<open>Prelude\<close>: exceptions as values, the string methods of Python, dicts, sorted sets.
    \<open>PyRegex\<close>: the fragment of \<open>re\<close> the code uses. \<open>Base64\<close>, \<open>Formatting\<close>: the parts of \<open>base64\<close>,
    \<open>str.encode\<close>, \<open>repr\<close> and float formatting it uses.
  \<^item> \<open>Enums\<close> (\<open>enums.py\<close>), \<open>Permissions\<close> (\<open>permissions.py\<close>), \<open>Schema\<close> (\<open>schema.py\<close>), \<open>Config\<close>
    (\<open>config.py\<close>): one \<open>datatype\<close> per enumeration, one \<open>record\<close> per model or dataclass, the pure
    check \<open>evaluate\<close> and its declarative specification.
  \<^item> \<open>Store\<close> (\<open>storage/neo4j_store.py\<close>): the database as a record of rows and relationships, one
    function per Cypher statement. \<open>Store_Inv\<close>: the step relation of the writes and its
    invariant. \<open>Store_Reads\<close>: the updates as updates of a map from ids to claims, the
    commitment query on promoted columns as a query on claims. \<open>Store_Paths\<close>: the
    owner-scoped reads against the owner's subgraph.
  \<^item> \<open>Resolver\<close> (\<open>resolution/resolver.py\<close>), \<open>Gateway\<close> (\<open>gateway_client.py\<close>), \<open>Connectors\<close>
    (\<open>connectors/base.py\<close>, \<open>registry.py\<close>, \<open>github.py\<close>, \<open>google.py\<close>, \<open>mock.py\<close>), \<open>ChatGPT\<close> and
    \<open>ChatGPT_Props\<close> (\<open>connectors/chatgpt.py\<close>).
  \<^item> \<open>Sha256\<close>, \<open>Dates\<close> (\<open>hashlib.sha256\<close>, the dates of \<open>datetime\<close>), \<open>Extractor\<close> and
    \<open>Extractor_Props\<close> (\<open>extraction/ids.py\<close>, \<open>mock.py\<close>), \<open>LLM\<close> and \<open>LLM_Props\<close>
    (\<open>extraction/llm.py\<close>, \<open>__init__.py\<close>): the two extractors, ids and the objects of a
    candidate; \<open>Embeddings\<close> (\<open>retrieval/embeddings.py\<close>).
  \<^item> \<open>Ingestion\<close> and \<open>Ingestion_Props\<close> (\<open>graphs/ingestion.py\<close>, \<open>graphs/runtime.py\<close>): the nodes of
    the pipeline as functions on its state, \<open>write\<close> as a sequence of store operations that
    stops at the first exception.
  \<^item> \<open>Ranking\<close> (\<open>retrieval/ranking.py\<close>, \<open>retrieval/index.py\<close>), \<open>Query\<close> (\<open>graphs/query.py\<close>), \<open>Shift\<close>
    and \<open>Shift_Props\<close>, \<open>Context\<close> and \<open>Context_Props\<close> (\<open>graphs/history.py\<close>), \<open>Neighbourhood\<close> and
    \<open>Neighbourhood_Props\<close> (\<open>graphs/neighbourhood.py\<close>): the four reads.
  \<^item> \<open>Retriever\<close> (the rest of \<open>retrieval/index.py\<close>, the registry of the build), \<open>Runtime\<close>
    (\<open>storage/migrations.py\<close>, \<open>Runtime.build\<close>, \<open>jobs/\<close>), \<open>Service\<close> (\<open>api.py\<close>, \<open>mcp_server.py\<close>),
    \<open>Deployment\<close>: the service as a step relation of accepted jobs and workers, with the
    invariant of its store; \<open>Service_Props\<close>: the entry points end to end;
    \<open>Noninterference\<close>: the entry points on two databases; \<open>Service_History\<close>: what
    stays, and where each row comes from; \<open>Tenants\<close>: jobs of one owner against the memory of
    another, with two digests evaluated in \<open>Digest_Samples\<close>; \<open>Interleaving\<close>: the
    write node as single database statements, and several workers whose statements interleave.

  \<^bold>\<open>What the lemmas show.\<close> Stores: what the writes reach is well formed, and the reads of one
  owner depend on that owner's subgraph alone. Ingestion: no body of a sensitive record is
  stored in the clear, every failure to seal is reported, old claims change only by becoming
  superseded, and a second run adds no claim. Resolution: the verdict on each pair is the
  specified one and no conflict inside a batch is left active. Reads: each returns whenever its
  token introspects, shows only objects of the owner that the grant permits, and gives the same
  answer, at each entry point, on any two databases that differ only in the content of rows
  the grant denies (two-run noninterference). Connectors and extractors: walks end, transcripts and dates survive a round
  trip, paths stay below the configured directory, ids depend on content only, and every
  extracted object carries the owner, source and sensitivity of its record. The service: in
  every state it reaches from an empty database confidential events are sealed and rows agree
  with their permissions, a query cites only what its grant covers, reads without a live grant
  raise, a job of the fixture source completes, and a second job adds no claim; nothing stored is
  lost, every row is accounted for by an accepted job and its id is the hash of its content, and
  a job leaves the memory of the other owners as it was; no interleaving
  of the statements of several jobs loses a row, uncovers a confidential event, or revives a
  superseded claim other than by writing it whole.

  \<^bold>\<open>Interfaces.\<close> \<open>source_table\<close> (registries, interpreted on \<open>register\<close>), \<open>claim_reads\<close> (what
  the resolver asks of a store, interpreted on the graph store), \<open>node_invariant\<close> and
  \<open>write_invariant\<close> (facts the write node keeps, interpreted on what a run is shown to keep),
  \<open>owner_read\<close> (reads that see one owner, interpreted on seven reads), \<open>redaction\<close> (views of
  permitted and denied objects, interpreted on claims and on nodes), \<open>extractor\<close>
  (what an extractor promises of a candidate, interpreted on both), \<open>row_invariant\<close> (facts of
  single rows, each a \<open>write_invariant\<close>, interpreted on soundness and on traceability),
  \<open>batch_invariant\<close> (facts that depend on the ids a run uses, interpreted on the subgraph of
  another owner).

  \<^bold>\<open>Bounds and termination.\<close> Path queries of the store take the hop bound of their Cypher text
  (24 for supersession runs) as fuel: a path has at most that many relationships, so no path is
  cut that the database would return. The walk of a conversation and the regular expression
  scanner are general recursions with a measure: the unvisited keys, the rest of the text.
  Words of SHA-256 are 32-bit and wrap; message lengths are unbounded.

  \<^bold>\<open>Modelling choices.\<close> A Python string is a list of characters with code points 0 to 255, so
  case mapping and character classes are those of Latin-1 text. Scores are real numbers, as are
  the components of embeddings; doubles are exact dyadic rationals where a result depends on
  their rounding (\<open>ChatGPT\<close>, \<open>Formatting\<close>). The clock is an argument, read once per call site.

  \<^bold>\<open>Parameters.\<close> Code outside the repository is an argument: the HTTP transport and the gateway
  behind it, the vector index, the embedding and language models, pydantic's validation of a
  scope, the JSON codec, the file system and the zip reader. A theorem that needs something of
  them says so in a hypothesis.

  \<^bold>\<open>Not modelled.\<close> Routing by FastAPI and FastMCP, the RQ worker loop, the static explorer page, logging,
  the LlamaIndex property-graph adapter and the closing of connections are library calls. The
  rounding of scores and embeddings to doubles is not modelled. In
  \<open>Deployment\<close> a job runs on the graph alone; \<open>Interleaving\<close> has the concurrent writers, whose
  batches may have been prepared on any earlier graph, and no concurrent reads.
\<close>

end
